(* ===== verification/Prelude.thy ===== *)
theory Prelude
  imports Main "HOL-Library.Word" "HOL-Library.Monad_Syntax" "HOL-Library.Sublist"
begin

text \<open>
  The vocabulary the whole development shares: the machine types of the C code on an LP64
  platform, the result codes of \<open>zip.h\<close> and \<open>unzip.h\<close>, little-endian byte
  strings, writing into the middle of a byte string, and the combinator that models a
  straight-line sequence of steps guarded by \<open>if (err==ZIP_OK)\<close>.
\<close>

unbundle bit_operations_syntax

section \<open>Machine types\<close>

text \<open>
  The code is built for 64-bit Linux (\<open>dep/linux\<close>): \<open>unsigned long\<close> (zlib's
  \<open>uLong\<close>) and \<open>ZPOS64_T\<close> have 64 bits, \<open>uInt\<close> has 32, \<open>short\<close> 16.
  A C string is the list of its bytes before the terminating NUL.
\<close>

type_synonym byte = "8 word"
type_synonym uInt = "32 word"
type_synonym uLong = "64 word"
type_synonym ZPOS64_T = "64 word"
type_synonym voidpf = nat

text \<open>A pointer is a number and \<open>NULL\<close> is zero.\<close>

definition NULL :: voidpf where [simp]: "NULL = 0"

text \<open>The bytes of a C string end at its first NUL.\<close>

definition c_string :: "byte list \<Rightarrow> byte list" where "c_string = takeWhile (\<lambda>b. b \<noteq> 0)"

section \<open>Result codes\<close>

text \<open>
  The codes are plain C integers; in particular \<open>ZIP_EOF\<close> and \<open>ZIP_OK\<close> are both
  zero, and so are \<open>UNZ_EOF\<close> and \<open>UNZ_OK\<close>.
\<close>

definition Z_ERRNO :: int where [simp]: "Z_ERRNO = -1"
definition ZIP_OK :: int where [simp]: "ZIP_OK = 0"
definition ZIP_EOF :: int where [simp]: "ZIP_EOF = 0"
definition ZIP_ERRNO :: int where [simp]: "ZIP_ERRNO = Z_ERRNO"
definition ZIP_PARAMERROR :: int where [simp]: "ZIP_PARAMERROR = -102"
definition ZIP_BADZIPFILE :: int where [simp]: "ZIP_BADZIPFILE = -103"
definition ZIP_INTERNALERROR :: int where [simp]: "ZIP_INTERNALERROR = -104"

definition UNZ_OK :: int where [simp]: "UNZ_OK = 0"
definition UNZ_END_OF_LIST_OF_FILE :: int where [simp]: "UNZ_END_OF_LIST_OF_FILE = -100"
definition UNZ_ERRNO :: int where [simp]: "UNZ_ERRNO = Z_ERRNO"
definition UNZ_EOF :: int where [simp]: "UNZ_EOF = 0"
definition UNZ_PARAMERROR :: int where [simp]: "UNZ_PARAMERROR = -102"
definition UNZ_BADZIPFILE :: int where [simp]: "UNZ_BADZIPFILE = -103"
definition UNZ_INTERNALERROR :: int where [simp]: "UNZ_INTERNALERROR = -104"
definition UNZ_CRCERROR :: int where [simp]: "UNZ_CRCERROR = -105"

section \<open>The C runtime\<close>

text \<open>
  What the code takes from the C runtime besides streams. The outcome of the \<open>k\<close>-th
  \<open>malloc\<close>, of size \<open>n\<close>, is \<open>sys_malloc k n\<close>: the environment decides
  which allocations fail. \<open>rand\<close> reads the sequence of the current seed,
  \<open>sys_time\<close> is what \<open>time(NULL)\<close> returns, and \<open>sys_calls\<close> is the static
  counter of \<open>crypthead\<close>.
\<close>

record sys =
  sys_malloc :: "nat \<Rightarrow> nat \<Rightarrow> bool"
  sys_mallocs :: nat
  sys_rand :: "uInt \<Rightarrow> nat \<Rightarrow> uInt"
  sys_seed :: uInt
  sys_rands :: nat
  sys_time :: uLong
  sys_calls :: uInt

definition malloc :: "nat \<Rightarrow> sys \<Rightarrow> bool \<times> sys" where
  "malloc n \<sigma> = (sys_malloc \<sigma> (sys_mallocs \<sigma>) n, \<sigma>\<lparr>sys_mallocs := Suc (sys_mallocs \<sigma>)\<rparr>)"

definition libc_rand :: "sys \<Rightarrow> uInt \<times> sys" where
  "libc_rand \<sigma> = (sys_rand \<sigma> (sys_seed \<sigma>) (sys_rands \<sigma>), \<sigma>\<lparr>sys_rands := Suc (sys_rands \<sigma>)\<rparr>)"

definition libc_srand :: "uInt \<Rightarrow> sys \<Rightarrow> sys" where
  "libc_srand seed \<sigma> = \<sigma>\<lparr>sys_seed := seed, sys_rands := 0\<rparr>"

section \<open>Rule collections\<close>

named_theorems stream_simps "one-step equations of the stream operations"
named_theorems bytes_simps "lengths and decodings of byte strings"

section \<open>Word lemmas\<close>

lemma unat_of_nat_small: "n < 2 ^ LENGTH('a) \<Longrightarrow> unat (of_nat n :: 'a::len word) = n"
  by (simp add: unat_of_nat)

lemma below32: "n < 0xffffffff \<Longrightarrow> (of_nat n :: 64 word) < 0xffffffff"
  by (simp add: word_less_nat_alt unat_of_nat_small)

lemma unat_drop_bit: "unat (drop_bit n x :: 'a::len word) = unat x div 2 ^ n"
  by (simp only: unat_drop_bit_eq) (rule drop_bit_eq_div)

lemma and_ff: "(x :: 'a::len word) AND 0xff = take_bit 8 x"
  by (simp add: take_bit_eq_mask mask_eq_exp_minus_1)

lemma and_ffff: "(x :: 'a::len word) AND 0xffff = take_bit 16 x"
  by (simp add: take_bit_eq_mask mask_eq_exp_minus_1)

lemma take_bit_sum_absorb:
  fixes a b :: int
  assumes "m \<le> n"
  shows "take_bit m (take_bit n a + take_bit n b) = take_bit m (a + b)"
proof -
  have "take_bit m (take_bit n a + take_bit n b) = take_bit m (take_bit m (take_bit n a) + take_bit m (take_bit n b))"
    by (simp only: take_bit_add)
  also have "\<dots> = take_bit m (take_bit m a + take_bit m b)" using assms by (simp add: min_def)
  also have "\<dots> = take_bit m (a + b)" by (rule take_bit_add)
  finally show ?thesis .
qed

lemma take_bit_prod_absorb:
  fixes a b :: int
  assumes "m \<le> n"
  shows "take_bit m (take_bit n a * take_bit n b) = take_bit m (a * b)"
proof -
  have "take_bit m (take_bit n a * take_bit n b) = take_bit m (take_bit m (take_bit n a) * take_bit m (take_bit n b))"
    by (simp only: take_bit_mult)
  also have "\<dots> = take_bit m (take_bit m a * take_bit m b)" using assms by (simp add: min_def)
  also have "\<dots> = take_bit m (a * b)" by (rule take_bit_mult)
  finally show ?thesis .
qed

text \<open>Truncation from 64 to 32 bits commutes with sums and products.\<close>

lemma ucast_add_64_32: "(ucast (a + b :: 64 word) :: 32 word) = ucast a + ucast b"
  by transfer (simp add: take_bit_sum_absorb)

lemma ucast_mult_64_32: "(ucast (a * b :: 64 word) :: 32 word) = ucast a * ucast b"
  by transfer (simp add: take_bit_prod_absorb)

section \<open>Little-endian byte strings\<close>

text \<open>The value of a little-endian byte string, and the \<open>n\<close> low bytes of a value.\<close>

fun le_val :: "byte list \<Rightarrow> nat" where
  "le_val [] = 0"
| "le_val (b # bs) = unat b + 256 * le_val bs"

fun le_bytes :: "nat \<Rightarrow> nat \<Rightarrow> byte list" where
  "le_bytes 0 x = []"
| "le_bytes (Suc n) x = of_nat x # le_bytes n (x div 256)"

lemma length_le_bytes [simp, bytes_simps]: "length (le_bytes n x) = n"
  by (induction n arbitrary: x) auto

lemma unat_byte_less [simp]: "unat (b :: byte) < 256"
  using unsigned_less [of b] by simp

lemma le_val_bound: "le_val bs < 256 ^ length bs"
proof (induction bs)
  case Nil
  show ?case by simp
next
  case (Cons b bs)
  have "unat b < 256" by simp
  moreover have "256 * le_val bs + 256 \<le> 256 * 256 ^ length bs"
    using Cons.IH by linarith
  ultimately have "unat b + 256 * le_val bs < 256 * 256 ^ length bs" by linarith
  then show ?case by simp
qed

lemma le_val_le_bytes [bytes_simps]: "le_val (le_bytes n x) = x mod 256 ^ n"
proof (induction n arbitrary: x)
  case 0
  show ?case by simp
next
  case (Suc n)
  have "unat (of_nat x :: byte) = x mod 256" by (simp add: unat_of_nat)
  with Suc show ?case by (simp add: mod_mult2_eq)
qed

lemma le_bytes_le_val [bytes_simps]: "le_bytes (length bs) (le_val bs) = bs"
proof (induction bs)
  case Nil
  show ?case by simp
next
  case (Cons b bs)
  have b: "unat b < 256" by simp
  have "unat (of_nat (unat b + 256 * le_val bs) :: byte) = unat b"
    using b by (simp only: unat_of_nat) simp
  then have "(of_nat (unat b + 256 * le_val bs) :: byte) = b"
    by (simp only: word_unat_eq_iff)
  with Cons b show ?case by (simp del: of_nat_add)
qed

lemma le_val_append: "le_val (xs @ ys) = le_val xs + 256 ^ length xs * le_val ys"
  by (induction xs) (auto simp: algebra_simps)

section \<open>Writing into the middle of a file\<close>

text \<open>
  \<open>overwrite p bs d\<close> is the file \<open>d\<close> after \<open>bs\<close> is written at offset
  \<open>p\<close>; a gap between the old end and \<open>p\<close> reads as zero bytes.
\<close>

definition overwrite :: "nat \<Rightarrow> byte list \<Rightarrow> byte list \<Rightarrow> byte list" where
  "overwrite p bs d = take p (d @ replicate (p - length d) 0) @ bs @ drop (p + length bs) d"

lemma length_overwrite [simp]: "length (overwrite p bs d) = (if bs = [] then max p (length d) else max (p + length bs) (length d))"
  by (auto simp: overwrite_def)

lemma overwrite_end: "p = length d \<Longrightarrow> overwrite p bs d = d @ bs"
  by (simp add: overwrite_def)

lemma overwrite_within:
  "p + length bs \<le> length d \<Longrightarrow> overwrite p bs d = take p d @ bs @ drop (p + length bs) d"
  by (simp add: overwrite_def)

lemma overwrite_overwrite:
  "overwrite (p + length xs) ys (overwrite p xs d) = overwrite p (xs @ ys) d"
  by (auto simp: overwrite_def add.assoc min_def add.commute add.left_commute)

lemma overwrite_within_append:
  "length xs \<le> p \<Longrightarrow> p + length bs \<le> length xs + length ys \<Longrightarrow>
   overwrite p bs (xs @ ys) = xs @ overwrite (p - length xs) bs ys"
  by (auto simp: overwrite_def)

lemma overwrite_nth_other:
  "i < length d \<Longrightarrow> i < p \<or> p + length bs \<le> i \<Longrightarrow> overwrite p bs d ! i = d ! i"
  by (auto simp: overwrite_def nth_append min_def)

lemma take_drop_overwrite:
  "p + length bs \<le> length d \<Longrightarrow> take (length bs) (drop p (overwrite p bs d)) = bs"
  by (auto simp: overwrite_def)

section \<open>Buffers\<close>

text \<open>An array the code fills and reads by index; its size is the code's business.\<close>

definition buf_write :: "nat \<Rightarrow> byte list \<Rightarrow> (nat \<Rightarrow> byte) \<Rightarrow> (nat \<Rightarrow> byte)" where
  "buf_write off bs f = (\<lambda>i. if off \<le> i \<and> i < off + length bs then bs ! (i - off) else f i)"

definition buf_take :: "nat \<Rightarrow> (nat \<Rightarrow> byte) \<Rightarrow> byte list" where
  "buf_take n f = map f [0..<n]"

section \<open>Guarded sequences\<close>

text \<open>
  \<open>err = f1; if (err==ZIP_OK) err = f2; if (err==ZIP_OK) err = f3; ...\<close>: each step
  runs only while the result code is \<open>ZIP_OK\<close>, and the code of the last step that ran is
  the result.
\<close>

fun run_ok :: "('w \<Rightarrow> int \<times> 'w) list \<Rightarrow> 'w \<Rightarrow> int \<times> 'w" where
  "run_ok [] w = (ZIP_OK, w)"
| "run_ok (f # fs) w = (let (err, w') = f w in if err = ZIP_OK then run_ok fs w' else (err, w'))"

lemma run_ok_append:
  "run_ok (fs @ gs) w = (let (err, w') = run_ok fs w in if err = ZIP_OK then run_ok gs w' else (err, w'))"
  by (induction fs arbitrary: w) (auto split: prod.splits)

end
