(* ===== verification/Ioapi.thy ===== *)
theory Ioapi
  imports Prelude
begin

text \<open>
  \<open>minizip/ioapi.h\<close> and \<open>minizip/ioapi.c\<close>: the tables of I/O callbacks, the
  dispatch between 64-bit and 32-bit callbacks, and the callbacks over C stdio. The world
  the callbacks act on is a type parameter; for the stdio callbacks it is \<open>stdio\<close>, a
  file system with its open \<open>FILE\<close> objects. The locale \<open>filefunc\<close> states what the
  archive code relies on (a bounded, seekable byte stream), and the stdio callbacks are an
  interpretation of it.
\<close>

section \<open>Callback tables\<close>

definition ZLIB_FILEFUNC_SEEK_CUR :: int where [simp]: "ZLIB_FILEFUNC_SEEK_CUR = 1"
definition ZLIB_FILEFUNC_SEEK_END :: int where [simp]: "ZLIB_FILEFUNC_SEEK_END = 2"
definition ZLIB_FILEFUNC_SEEK_SET :: int where [simp]: "ZLIB_FILEFUNC_SEEK_SET = 0"

definition ZLIB_FILEFUNC_MODE_READ :: int where [simp]: "ZLIB_FILEFUNC_MODE_READ = 1"
definition ZLIB_FILEFUNC_MODE_WRITE :: int where [simp]: "ZLIB_FILEFUNC_MODE_WRITE = 2"
definition ZLIB_FILEFUNC_MODE_READWRITEFILTER :: int
  where [simp]: "ZLIB_FILEFUNC_MODE_READWRITEFILTER = 3"
definition ZLIB_FILEFUNC_MODE_EXISTING :: int where [simp]: "ZLIB_FILEFUNC_MODE_EXISTING = 4"
definition ZLIB_FILEFUNC_MODE_CREATE :: int where [simp]: "ZLIB_FILEFUNC_MODE_CREATE = 8"

text \<open>
  A callback takes the \<open>opaque\<close> pointer of its table, the stream and its arguments, and
  acts on the world \<open>'w\<close>. Reading returns the bytes stored into the buffer (their number
  is the C return value); writing takes the bytes of the buffer and returns the count. A
  path is \<open>None\<close> for a NULL pointer, and so is a NULL callback.
\<close>

type_synonym path = "byte list"
type_synonym 'w open_func = "voidpf \<Rightarrow> path option \<Rightarrow> int \<Rightarrow> 'w \<Rightarrow> voidpf \<times> 'w"
type_synonym 'w read_func = "voidpf \<Rightarrow> voidpf \<Rightarrow> uLong \<Rightarrow> 'w \<Rightarrow> byte list \<times> 'w"
type_synonym 'w write_func = "voidpf \<Rightarrow> voidpf \<Rightarrow> byte list \<Rightarrow> 'w \<Rightarrow> uLong \<times> 'w"
type_synonym 'w tell_func = "voidpf \<Rightarrow> voidpf \<Rightarrow> 'w \<Rightarrow> uLong \<times> 'w"
type_synonym 'w seek_func = "voidpf \<Rightarrow> voidpf \<Rightarrow> uLong \<Rightarrow> int \<Rightarrow> 'w \<Rightarrow> int \<times> 'w"
type_synonym 'w close_func = "voidpf \<Rightarrow> voidpf \<Rightarrow> 'w \<Rightarrow> int \<times> 'w"

record 'w zlib_filefunc_def =
  zopen_file :: "'w open_func"
  zread_file32 :: "'w read_func"
  zwrite_file32 :: "'w write_func"
  ztell_file :: "'w tell_func"
  zseek_file :: "'w seek_func"
  zclose_file32 :: "'w close_func"
  zerror_file32 :: "'w close_func"
  opaque32 :: voidpf

record 'w zlib_filefunc64_def =
  zopen64_file :: "'w open_func option"
  zread_file :: "'w read_func"
  zwrite_file :: "'w write_func"
  ztell64_file :: "'w tell_func option"
  zseek64_file :: "'w seek_func option"
  zclose_file :: "'w close_func"
  zerror_file :: "'w close_func"
  opaque :: voidpf

record 'w zlib_filefunc64_32_def =
  zfile_func64 :: "'w zlib_filefunc64_def"
  zopen32_file :: "'w open_func option"
  ztell32_file :: "'w tell_func option"
  zseek32_file :: "'w seek_func option"

section \<open>Dispatch\<close>

text \<open>Calling a NULL function pointer is undefined behaviour: nothing is known of its result.\<close>

definition call_zopen64 :: "'w zlib_filefunc64_32_def \<Rightarrow> path option \<Rightarrow> int \<Rightarrow> 'w \<Rightarrow> voidpf \<times> 'w" where
  "call_zopen64 pfilefunc filename mode w =
     (case zopen64_file (zfile_func64 pfilefunc) of
        Some f \<Rightarrow> f (opaque (zfile_func64 pfilefunc)) filename mode w
      | None \<Rightarrow> (case zopen32_file pfilefunc of
          Some f \<Rightarrow> f (opaque (zfile_func64 pfilefunc)) filename mode w
        | None \<Rightarrow> undefined))"

definition call_zseek64 :: "'w zlib_filefunc64_32_def \<Rightarrow> voidpf \<Rightarrow> ZPOS64_T \<Rightarrow> int \<Rightarrow> 'w \<Rightarrow> int \<times> 'w" where
  "call_zseek64 pfilefunc filestream offset origin w =
     (case zseek64_file (zfile_func64 pfilefunc) of
        Some f \<Rightarrow> f (opaque (zfile_func64 pfilefunc)) filestream offset origin w
      | None \<Rightarrow>
         (let offsetTruncated = (ucast offset :: uLong) in
          if (ucast offsetTruncated :: ZPOS64_T) \<noteq> offset then (-1, w)
          else (case zseek32_file pfilefunc of
              Some f \<Rightarrow> f (opaque (zfile_func64 pfilefunc)) filestream offsetTruncated origin w
            | None \<Rightarrow> undefined)))"

text \<open>The 64-bit tell is chosen by the presence of the 64-bit \<^emph>\<open>seek\<close>, as in the source.\<close>

definition call_ztell64 :: "'w zlib_filefunc64_32_def \<Rightarrow> voidpf \<Rightarrow> 'w \<Rightarrow> ZPOS64_T \<times> 'w" where
  "call_ztell64 pfilefunc filestream w =
     (case zseek64_file (zfile_func64 pfilefunc) of
        Some _ \<Rightarrow> (case ztell64_file (zfile_func64 pfilefunc) of
            Some f \<Rightarrow> f (opaque (zfile_func64 pfilefunc)) filestream w
          | None \<Rightarrow> undefined)
      | None \<Rightarrow> (case ztell32_file pfilefunc of
            Some f \<Rightarrow>
              (let (tell_uLong, w) = f (opaque (zfile_func64 pfilefunc)) filestream w in
               if tell_uLong = (-1 :: uLong) then ((-1 :: ZPOS64_T), w) else (ucast tell_uLong, w))
          | None \<Rightarrow> undefined))"

definition ZOPEN64 :: "'w zlib_filefunc64_32_def \<Rightarrow> path option \<Rightarrow> int \<Rightarrow> 'w \<Rightarrow> voidpf \<times> 'w" where
  "ZOPEN64 filefunc filename mode = call_zopen64 filefunc filename mode"
definition ZTELL64 :: "'w zlib_filefunc64_32_def \<Rightarrow> voidpf \<Rightarrow> 'w \<Rightarrow> ZPOS64_T \<times> 'w" where
  "ZTELL64 filefunc filestream = call_ztell64 filefunc filestream"
definition ZSEEK64 :: "'w zlib_filefunc64_32_def \<Rightarrow> voidpf \<Rightarrow> ZPOS64_T \<Rightarrow> int \<Rightarrow> 'w \<Rightarrow> int \<times> 'w" where
  "ZSEEK64 filefunc filestream pos mode = call_zseek64 filefunc filestream pos mode"
definition ZREAD64 :: "'w zlib_filefunc64_32_def \<Rightarrow> voidpf \<Rightarrow> uLong \<Rightarrow> 'w \<Rightarrow> byte list \<times> 'w" where
  "ZREAD64 filefunc filestream n =
     zread_file (zfile_func64 filefunc) (opaque (zfile_func64 filefunc)) filestream n"
definition ZWRITE64 :: "'w zlib_filefunc64_32_def \<Rightarrow> voidpf \<Rightarrow> byte list \<Rightarrow> 'w \<Rightarrow> uLong \<times> 'w" where
  "ZWRITE64 filefunc filestream buf =
     zwrite_file (zfile_func64 filefunc) (opaque (zfile_func64 filefunc)) filestream buf"
definition ZCLOSE64 :: "'w zlib_filefunc64_32_def \<Rightarrow> voidpf \<Rightarrow> 'w \<Rightarrow> int \<times> 'w" where
  "ZCLOSE64 filefunc filestream =
     zclose_file (zfile_func64 filefunc) (opaque (zfile_func64 filefunc)) filestream"
definition ZERROR64 :: "'w zlib_filefunc64_32_def \<Rightarrow> voidpf \<Rightarrow> 'w \<Rightarrow> int \<times> 'w" where
  "ZERROR64 filefunc filestream =
     zerror_file (zfile_func64 filefunc) (opaque (zfile_func64 filefunc)) filestream"

definition fill_zlib_filefunc64_32_def_from_filefunc32 ::
    "'w zlib_filefunc_def \<Rightarrow> 'w zlib_filefunc64_32_def" where
  "fill_zlib_filefunc64_32_def_from_filefunc32 p32 =
     \<lparr> zfile_func64 =
         \<lparr> zopen64_file = None, zread_file = zread_file32 p32, zwrite_file = zwrite_file32 p32,
           ztell64_file = None, zseek64_file = None, zclose_file = zclose_file32 p32,
           zerror_file = zerror_file32 p32, opaque = opaque32 p32 \<rparr>,
       zopen32_file = Some (zopen_file p32),
       ztell32_file = Some (ztell_file p32),
       zseek32_file = Some (zseek_file p32) \<rparr>"

section \<open>C stdio\<close>

text \<open>
  The part of \<open>stdio.h\<close> the callbacks use. A \<open>FILE\<close> object has a path, an offset,
  the directions its mode allows and an error flag; the contents are in the file system. A
  file can grow to \<open>w_limit\<close> bytes (a write past it is short and sets the error flag), and
  a path in \<open>w_denied\<close> cannot be opened.
\<close>

record FILE =
  f_path :: path
  f_pos :: nat
  f_rd :: bool
  f_wr :: bool
  f_err :: bool

record stdio =
  w_files :: "path \<rightharpoonup> byte list"
  w_streams :: "voidpf \<rightharpoonup> FILE"
  w_next :: voidpf
  w_limit :: nat
  w_denied :: "path \<Rightarrow> bool"

text \<open>An open stream as its users see it.\<close>

record stream =
  s_data :: "byte list"
  s_pos :: nat
  s_rd :: bool
  s_wr :: bool
  s_err :: bool

definition stdio_fetch :: "stdio \<Rightarrow> voidpf \<Rightarrow> stream option" where
  "stdio_fetch w h =
     (case w_streams w h of None \<Rightarrow> None
      | Some f \<Rightarrow> (case w_files w (f_path f) of None \<Rightarrow> None
        | Some d \<Rightarrow> Some \<lparr>s_data = d, s_pos = f_pos f, s_rd = f_rd f, s_wr = f_wr f, s_err = f_err f\<rparr>))"

definition stdio_store :: "voidpf \<Rightarrow> stream \<Rightarrow> stdio \<Rightarrow> stdio" where
  "stdio_store h s w =
     (case w_streams w h of None \<Rightarrow> w
      | Some f \<Rightarrow> w\<lparr>w_files := (w_files w)(f_path f \<mapsto> s_data s),
          w_streams := (w_streams w)(h \<mapsto> f\<lparr>f_pos := s_pos s, f_rd := s_rd s, f_wr := s_wr s, f_err := s_err s\<rparr>)\<rparr>)"

text \<open>Using a stream that is not open is undefined behaviour; the model leaves the world alone.\<close>

definition libc_fopen :: "path \<Rightarrow> string \<Rightarrow> stdio \<Rightarrow> voidpf \<times> stdio" where
  "libc_fopen p mode w =
     (if w_denied w p \<or> (mode \<noteq> ''wb'' \<and> w_files w p = None) then (NULL, w)
      else
        (let h = Suc (w_next w);
             f = \<lparr>f_path = p, f_pos = 0, f_rd = (mode \<noteq> ''wb''), f_wr = (mode \<noteq> ''rb''), f_err = False\<rparr>
         in (h, w\<lparr>w_files := (if mode = ''wb'' then (w_files w)(p \<mapsto> []) else w_files w),
                  w_streams := (w_streams w)(h \<mapsto> f), w_next := h\<rparr>)))"

definition libc_fread :: "nat \<Rightarrow> voidpf \<Rightarrow> stdio \<Rightarrow> byte list \<times> stdio" where
  "libc_fread n h w =
     (case stdio_fetch w h of None \<Rightarrow> ([], w)
      | Some s \<Rightarrow> (if \<not> s_rd s then ([], stdio_store h (s\<lparr>s_err := True\<rparr>) w)
          else (let bs = take n (drop (s_pos s) (s_data s))
                in (bs, stdio_store h (s\<lparr>s_pos := s_pos s + length bs\<rparr>) w))))"

definition libc_fwrite :: "byte list \<Rightarrow> voidpf \<Rightarrow> stdio \<Rightarrow> nat \<times> stdio" where
  "libc_fwrite buf h w =
     (case stdio_fetch w h of None \<Rightarrow> (0, w)
      | Some s \<Rightarrow> (if \<not> s_wr s then (0, stdio_store h (s\<lparr>s_err := True\<rparr>) w)
          else (let bs = take (w_limit w - s_pos s) buf
                in (length bs,
                    stdio_store h (s\<lparr>s_data := (if bs = [] then s_data s else overwrite (s_pos s) bs (s_data s)),
                                     s_pos := s_pos s + length bs,
                                     s_err := (s_err s \<or> length bs < length buf)\<rparr>) w))))"

definition libc_ftell :: "voidpf \<Rightarrow> stdio \<Rightarrow> int \<times> stdio" where
  "libc_ftell h w = (case stdio_fetch w h of None \<Rightarrow> (-1, w) | Some s \<Rightarrow> (int (s_pos s), w))"

definition seek_base :: "stream \<Rightarrow> int \<Rightarrow> int" where
  "seek_base s whence = (if whence = 0 then 0 else if whence = 1 then int (s_pos s) else int (length (s_data s)))"

definition libc_fseek :: "voidpf \<Rightarrow> int \<Rightarrow> int \<Rightarrow> stdio \<Rightarrow> int \<times> stdio" where
  "libc_fseek h offset whence w =
     (case stdio_fetch w h of None \<Rightarrow> (-1, w)
      | Some s \<Rightarrow> (if seek_base s whence + offset < 0 then (-1, w)
          else (0, stdio_store h (s\<lparr>s_pos := nat (seek_base s whence + offset)\<rparr>) w)))"

definition libc_fclose :: "voidpf \<Rightarrow> stdio \<Rightarrow> int \<times> stdio" where
  "libc_fclose h w =
     (case w_streams w h of None \<Rightarrow> (-1, w) | Some f \<Rightarrow> (0, w\<lparr>w_streams := (w_streams w)(h := None)\<rparr>))"

definition libc_ferror :: "voidpf \<Rightarrow> stdio \<Rightarrow> int \<times> stdio" where
  "libc_ferror h w =
     (case stdio_fetch w h of None \<Rightarrow> (1, w) | Some s \<Rightarrow> ((if s_err s then 1 else 0), w))"

section \<open>The stdio callbacks\<close>

definition mode_fopen :: "int \<Rightarrow> string option" where
  "mode_fopen mode =
     (if mode AND ZLIB_FILEFUNC_MODE_READWRITEFILTER = ZLIB_FILEFUNC_MODE_READ then Some ''rb''
      else if mode AND ZLIB_FILEFUNC_MODE_EXISTING \<noteq> 0 then Some ''r+b''
      else if mode AND ZLIB_FILEFUNC_MODE_CREATE \<noteq> 0 then Some ''wb''
      else None)"

definition fopen_file_func :: "stdio open_func" where
  "fopen_file_func opq filename mode w =
     (case (filename, mode_fopen mode) of
        (Some p, Some m) \<Rightarrow> libc_fopen p m w
      | _ \<Rightarrow> (NULL, w))"

definition fopen64_file_func :: "stdio open_func" where
  "fopen64_file_func opq filename mode w =
     (case (filename, mode_fopen mode) of
        (Some p, Some m) \<Rightarrow> libc_fopen p m w
      | _ \<Rightarrow> (NULL, w))"

definition fread_file_func :: "stdio read_func" where
  "fread_file_func opq stream n w = libc_fread (unat n) stream w"

definition fwrite_file_func :: "stdio write_func" where
  "fwrite_file_func opq stream buf w = (let (n, w) = libc_fwrite buf stream w in (of_nat n, w))"

definition ftell_file_func :: "stdio tell_func" where
  "ftell_file_func opq stream w = (let (r, w) = libc_ftell stream w in (of_int r, w))"

definition ftell64_file_func :: "stdio tell_func" where
  "ftell64_file_func opq stream w = (let (r, w) = libc_ftell stream w in (of_int r, w))"

text \<open>
  The unsigned offset becomes a signed \<open>long\<close> (or \<open>off64_t\<close>) when it is passed to
  \<open>fseek\<close>, so that an offset computed as a negative \<open>long\<close> moves backwards.
\<close>

definition fseek_file_func :: "stdio seek_func" where
  "fseek_file_func opq stream offset origin w =
     (if origin \<notin> {ZLIB_FILEFUNC_SEEK_CUR, ZLIB_FILEFUNC_SEEK_END, ZLIB_FILEFUNC_SEEK_SET} then (-1, w)
      else (let (r, w) = libc_fseek stream (sint offset) origin w in (if r \<noteq> 0 then (-1, w) else (0, w))))"

definition fseek64_file_func :: "stdio seek_func" where
  "fseek64_file_func opq stream offset origin w =
     (if origin \<notin> {ZLIB_FILEFUNC_SEEK_CUR, ZLIB_FILEFUNC_SEEK_END, ZLIB_FILEFUNC_SEEK_SET} then (-1, w)
      else (let (r, w) = libc_fseek stream (sint offset) origin w in (if r \<noteq> 0 then (-1, w) else (0, w))))"

definition fclose_file_func :: "stdio close_func" where
  "fclose_file_func opq stream w = libc_fclose stream w"

definition ferror_file_func :: "stdio close_func" where
  "ferror_file_func opq stream w = libc_ferror stream w"

definition fill_fopen_filefunc :: "stdio zlib_filefunc_def" where
  "fill_fopen_filefunc =
     \<lparr> zopen_file = fopen_file_func, zread_file32 = fread_file_func, zwrite_file32 = fwrite_file_func,
       ztell_file = ftell_file_func, zseek_file = fseek_file_func, zclose_file32 = fclose_file_func,
       zerror_file32 = ferror_file_func, opaque32 = NULL \<rparr>"

definition fill_fopen64_filefunc :: "stdio zlib_filefunc64_def" where
  "fill_fopen64_filefunc =
     \<lparr> zopen64_file = Some fopen64_file_func, zread_file = fread_file_func, zwrite_file = fwrite_file_func,
       ztell64_file = Some ftell64_file_func, zseek64_file = Some fseek64_file_func,
       zclose_file = fclose_file_func, zerror_file = ferror_file_func, opaque = NULL \<rparr>"

text \<open>
  The table \<open>zipOpen3\<close> and \<open>unzOpenInternal\<close> use when the caller passes none:
  the 64-bit callbacks, and no 32-bit seek or tell.
\<close>

definition stdio_filefunc64 :: "stdio zlib_filefunc64_32_def" where
  "stdio_filefunc64 =
     \<lparr> zfile_func64 = fill_fopen64_filefunc, zopen32_file = None, ztell32_file = None, zseek32_file = None \<rparr>"

text \<open>The table made from the 32-bit stdio callbacks.\<close>

definition stdio_filefunc32 :: "stdio zlib_filefunc64_32_def" where
  "stdio_filefunc32 = fill_zlib_filefunc64_32_def_from_filefunc32 fill_fopen_filefunc"

section \<open>What the archive code relies on\<close>

text \<open>Operations of a byte stream: the bytes ahead, advancing, writing and seeking.\<close>

definition s_rest :: "stream \<Rightarrow> byte list" where
  "s_rest s = drop (s_pos s) (s_data s)"

definition s_skip :: "nat \<Rightarrow> stream \<Rightarrow> stream" where
  "s_skip n s = s\<lparr>s_pos := s_pos s + min n (length (s_rest s))\<rparr>"

definition s_write :: "byte list \<Rightarrow> stream \<Rightarrow> stream" where
  "s_write bs s =
     (if bs = [] then s
      else s\<lparr>s_data := overwrite (s_pos s) bs (s_data s), s_pos := s_pos s + length bs\<rparr>)"

definition s_seek :: "nat \<Rightarrow> stream \<Rightarrow> stream" where
  "s_seek p s = s\<lparr>s_pos := p\<rparr>"

lemma s_write_sel [simp]:
  "s_pos (s_write bs s) = s_pos s + length bs" "s_rd (s_write bs s) = s_rd s"
  "s_wr (s_write bs s) = s_wr s" "s_err (s_write bs s) = s_err s"
  by (simp_all add: s_write_def)

lemma s_seek_sel [simp]:
  "s_pos (s_seek p s) = p" "s_rd (s_seek p s) = s_rd s" "s_wr (s_seek p s) = s_wr s"
  "s_err (s_seek p s) = s_err s" "s_data (s_seek p s) = s_data s" "s_seek q (s_seek p s) = s_seek q s"
  by (simp_all add: s_seek_def)

lemma s_skip_sel [simp]:
  "s_pos (s_skip n s) = s_pos s + min n (length (s_rest s))" "s_rd (s_skip n s) = s_rd s"
  "s_wr (s_skip n s) = s_wr s" "s_err (s_skip n s) = s_err s" "s_data (s_skip n s) = s_data s"
  by (simp_all add: s_skip_def)

lemma s_write_s_write [simp]: "s_write ys (s_write xs s) = s_write (xs @ ys) s"
  by (simp add: s_write_def overwrite_overwrite add.assoc)

lemma s_write_Nil [simp]: "s_write [] s = s"
  by (simp add: s_write_def)

lemma s_rest_skip: "s_rest (s_skip n s) = drop n (s_rest s)"
  by (simp add: s_rest_def s_skip_def drop_drop add.commute min_def)

lemma s_skip_skip [simp]: "s_skip m (s_skip n s) = s_skip (n + m) s"
  by (simp add: s_skip_def s_rest_def min_def)

lemma s_skip_seek: "n \<le> length (s_rest s) \<Longrightarrow> s_skip n s = s_seek (s_pos s + n) s"
  by (simp add: s_skip_def s_seek_def min_def)

lemma sint_small:
  assumes "unat (off :: 64 word) < 2 ^ 63"
  shows "sint off = int (unat off)"
proof -
  have "int (unat off) < int (2 ^ 63)" using assms by (simp only: of_nat_less_iff)
  then have "uint off < 2 ^ 63" by simp
  then have "signed_take_bit 63 (uint off) = uint off"
    using unsigned_greater_eq [of off, where ?'a = int]
    by (intro signed_take_bit_int_eq_self) linarith+
  then show ?thesis by (simp add: sint_uint)
qed

text \<open>
  A callback table is a file interface when, through some view of the world as streams, its
  callbacks are reading, writing, seeking and telling on a byte stream of at most
  \<open>limit\<close> bytes. \<open>fetch\<close> and \<open>store\<close> are the view: a lens on the stream
  behind a handle.
\<close>

locale filefunc =
  fixes ff :: "'w zlib_filefunc64_32_def"
    and fetch :: "'w \<Rightarrow> voidpf \<Rightarrow> stream option"
    and store :: "voidpf \<Rightarrow> stream \<Rightarrow> 'w \<Rightarrow> 'w"
    and limit :: "'w \<Rightarrow> nat"
  assumes fetch_store: "fetch w h = Some s \<Longrightarrow> fetch (store h s' w) h = Some s'"
    and store_store: "store h s' (store h s w) = store h s' w"
    and store_fetch: "fetch w h = Some s \<Longrightarrow> store h s w = w"
    and limit_store: "limit (store h s w) = limit w"
    and io_read: "fetch w h = Some s \<Longrightarrow> s_rd s \<Longrightarrow>
      ZREAD64 ff h n w = (take (unat n) (s_rest s), store h (s_skip (unat n) s) w)"
    and io_write: "fetch w h = Some s \<Longrightarrow> s_wr s \<Longrightarrow> bs = [] \<or> s_pos s + length bs \<le> limit w \<Longrightarrow>
      ZWRITE64 ff h bs w = (of_nat (length bs), store h (s_write bs s) w)"
    and io_write_short: "fetch w h = Some s \<Longrightarrow> s_wr s \<Longrightarrow> bs \<noteq> [] \<Longrightarrow> limit w < s_pos s + length bs \<Longrightarrow>
      \<exists>k<length bs. \<exists>s'. ZWRITE64 ff h bs w = (of_nat k, store h s' w)"
    and io_seek: "fetch w h = Some s \<Longrightarrow> whence \<in> {0, 1, 2} \<Longrightarrow> 0 \<le> seek_base s whence + sint off \<Longrightarrow>
      ZSEEK64 ff h off whence w = (0, store h (s_seek (nat (seek_base s whence + sint off)) s) w)"
    and io_seek_fail: "fetch w h = Some s \<Longrightarrow> whence \<in> {0, 1, 2} \<Longrightarrow> seek_base s whence + sint off < 0 \<Longrightarrow>
      ZSEEK64 ff h off whence w = (-1, w)"
    and io_tell: "fetch w h = Some s \<Longrightarrow> ZTELL64 ff h w = (of_nat (s_pos s), w)"
    and io_error: "fetch w h = Some s \<Longrightarrow> ZERROR64 ff h w = ((if s_err s then 1 else 0), w)"
begin

lemmas io_simps = fetch_store store_store limit_store io_read io_write io_tell io_error

text \<open>Seeking to an absolute offset, and to the end.\<close>

lemma io_seek_set:
  assumes "fetch w h = Some s" "unat off < 2 ^ 63"
  shows "ZSEEK64 ff h off ZLIB_FILEFUNC_SEEK_SET w = (0, store h (s_seek (unat off) s) w)"
  using io_seek [OF assms(1), of 0 off] assms(2) by (simp add: seek_base_def sint_small)

lemma io_seek_end:
  assumes "fetch w h = Some s"
  shows "ZSEEK64 ff h 0 ZLIB_FILEFUNC_SEEK_END w = (0, store h (s_seek (length (s_data s)) s) w)"
  using io_seek [OF assms(1), of 2 0] by (simp add: seek_base_def)

end

section \<open>The stdio tables are file interfaces\<close>

lemma stdio_fetch_store: "stdio_fetch w h = Some s \<Longrightarrow> stdio_fetch (stdio_store h s' w) h = Some s'"
  by (auto simp: stdio_fetch_def stdio_store_def split: option.splits)

lemma stdio_store_store: "stdio_store h s' (stdio_store h s w) = stdio_store h s' w"
  by (auto simp: stdio_store_def split: option.splits)

lemma stdio_store_fetch: "stdio_fetch w h = Some s \<Longrightarrow> stdio_store h s w = w"
  by (auto simp: stdio_fetch_def stdio_store_def fun_upd_idem split: option.splits)

lemma stdio_limit_store: "w_limit (stdio_store h s w) = w_limit w"
  by (auto simp: stdio_store_def split: option.splits)

lemmas stdio_lens = stdio_fetch_store stdio_store_store stdio_store_fetch stdio_limit_store

lemma stdio_read:
  "stdio_fetch w h = Some s \<Longrightarrow> s_rd s \<Longrightarrow>
   fread_file_func opq h n w = (take (unat n) (s_rest s), stdio_store h (s_skip (unat n) s) w)"
  by (simp add: fread_file_func_def libc_fread_def s_rest_def s_skip_def min.commute)

lemma stdio_write:
  "stdio_fetch w h = Some s \<Longrightarrow> s_wr s \<Longrightarrow> bs = [] \<or> s_pos s + length bs \<le> w_limit w \<Longrightarrow>
   fwrite_file_func opq h bs w = (of_nat (length bs), stdio_store h (s_write bs s) w)"
  by (cases "bs = []") (simp_all add: fwrite_file_func_def libc_fwrite_def s_write_def)

lemma stdio_write_short:
  assumes "stdio_fetch w h = Some s" "s_wr s" "bs \<noteq> []" "w_limit w < s_pos s + length bs"
  shows "\<exists>k<length bs. \<exists>s'. fwrite_file_func opq h bs w = (of_nat k, stdio_store h s' w)"
proof -
  have "length (take (w_limit w - s_pos s) bs) < length bs" using assms(3,4) by (cases bs) auto
  then show ?thesis using assms(1,2)
    by (auto simp: fwrite_file_func_def libc_fwrite_def Let_def)
qed

lemma stdio_seek:
  "stdio_fetch w h = Some s \<Longrightarrow> whence \<in> {0, 1, 2} \<Longrightarrow> 0 \<le> seek_base s whence + sint off \<Longrightarrow>
   fseek64_file_func opq h off whence w = (0, stdio_store h (s_seek (nat (seek_base s whence + sint off)) s) w)"
  "stdio_fetch w h = Some s \<Longrightarrow> whence \<in> {0, 1, 2} \<Longrightarrow> seek_base s whence + sint off < 0 \<Longrightarrow>
   fseek64_file_func opq h off whence w = (-1, w)"
  by (auto simp: fseek64_file_func_def libc_fseek_def s_seek_def)

lemma fseek_file_func_eq: "fseek_file_func = fseek64_file_func"
  by (intro ext) (simp add: fseek_file_func_def fseek64_file_func_def)

lemma stdio_tell: "stdio_fetch w h = Some s \<Longrightarrow> ftell64_file_func opq h w = (of_nat (s_pos s), w)"
  by (simp add: ftell64_file_func_def libc_ftell_def)

lemma ftell_file_func_eq: "ftell_file_func = ftell64_file_func"
  by (intro ext) (simp add: ftell_file_func_def ftell64_file_func_def)

lemma stdio_error: "stdio_fetch w h = Some s \<Longrightarrow> ferror_file_func opq h w = ((if s_err s then 1 else 0), w)"
  by (simp add: ferror_file_func_def libc_ferror_def)

lemmas stdio_laws = stdio_lens stdio_read stdio_write stdio_write_short stdio_seek stdio_tell stdio_error

lemmas ff_ops = ZREAD64_def ZWRITE64_def ZSEEK64_def ZTELL64_def ZERROR64_def ZCLOSE64_def ZOPEN64_def
  call_zopen64_def call_zseek64_def call_ztell64_def

interpretation stdio64: filefunc stdio_filefunc64 stdio_fetch stdio_store w_limit
  by unfold_locales
    (simp_all add: ff_ops stdio_filefunc64_def fill_fopen64_filefunc_def stdio_laws)

text \<open>
  On LP64 the 32-bit callbacks serve as well: \<open>uLong\<close> is as wide as \<open>ZPOS64_T\<close>, so
  no offset is refused as truncated, and a tell below \<open>2 ^ 64 - 1\<close> is passed through.
\<close>

interpretation stdio32: filefunc stdio_filefunc32 stdio_fetch stdio_store w_limit
  by unfold_locales
    (simp_all add: ff_ops stdio_filefunc32_def fill_zlib_filefunc64_32_def_from_filefunc32_def
       fill_fopen_filefunc_def stdio_laws fseek_file_func_eq ftell_file_func_eq)

end
