(* ===== verification/ZipBytes.thy ===== *)
theory ZipBytes
  imports Ioapi
begin

text \<open>
  The little-endian readers and writers of \<open>zip.c\<close> and \<open>unzip.c\<close>
  (\<open>zip64local_putValue\<close>, \<open>getByte\<close>, \<open>getShort\<close>, \<open>getLong\<close>,
  \<open>getLong64\<close>), with their behaviour on every stream: what is written, what is read
  back, and what is read at and past the end of a file.
\<close>

section \<open>Writing\<close>

text \<open>
  The loop peels \<open>nbByte\<close> bytes off \<open>x\<close>; if anything of \<open>x\<close> is left, the
  buffer is filled with \<open>0xff\<close> instead.
\<close>

fun putValue_loop :: "nat \<Rightarrow> ZPOS64_T \<Rightarrow> byte list \<times> ZPOS64_T" where
  "putValue_loop 0 x = ([], x)"
| "putValue_loop (Suc n) x =
     (let (buf, x') = putValue_loop n (drop_bit 8 x) in (ucast (x AND 0xff) # buf, x'))"

definition putValue_buf :: "ZPOS64_T \<Rightarrow> nat \<Rightarrow> byte list" where
  "putValue_buf x nbByte =
     (let (buf, x) = putValue_loop nbByte x in if x \<noteq> 0 then replicate nbByte 0xff else buf)"

definition zip64local_putValue ::
    "'w zlib_filefunc64_32_def \<Rightarrow> voidpf \<Rightarrow> ZPOS64_T \<Rightarrow> nat \<Rightarrow> 'w \<Rightarrow> int \<times> 'w" where
  "zip64local_putValue ff filestream x nbByte w =
     (let (n, w) = ZWRITE64 ff filestream (putValue_buf x nbByte) w
      in (if n \<noteq> of_nat nbByte then ZIP_ERRNO else ZIP_OK, w))"

text \<open>The in-memory variant stores the same bytes at an offset of a buffer.\<close>

definition mem_write :: "nat \<Rightarrow> byte list \<Rightarrow> byte list \<Rightarrow> byte list" where
  "mem_write off bs buf = take off buf @ bs @ drop (off + length bs) buf"

definition zip64local_putValue_inmemory :: "nat \<Rightarrow> ZPOS64_T \<Rightarrow> nat \<Rightarrow> byte list \<Rightarrow> byte list" where
  "zip64local_putValue_inmemory dest x nbByte buf = mem_write dest (putValue_buf x nbByte) buf"

lemma putValue_loop_eq:
  "putValue_loop n x = (le_bytes n (unat x), drop_bit (8 * n) x)"
proof (induction n arbitrary: x)
  case 0
  show ?case by simp
next
  case (Suc n)
  have "(ucast (x AND 0xff) :: byte) = ucast x"
    by (intro bit_word_eqI) (auto simp: and_ff bit_simps)
  also have "\<dots> = of_nat (unat x)" by simp
  finally have "(ucast (x AND 0xff) :: byte) = of_nat (unat x)" .
  moreover have "unat (drop_bit 8 x) = unat x div 256"
    by (simp add: unat_drop_bit del: drop_bit_of_0)
  ultimately show ?case using Suc.IH [of "drop_bit 8 x"] by (simp add: add.commute)
qed

text \<open>A value that fits is stored little-endian; one that does not, as all ones.\<close>

lemma putValue_buf_eq:
  "putValue_buf x n = (if unat x < 256 ^ n then le_bytes n (unat x) else replicate n 0xff)"
proof -
  have "drop_bit (8 * n) x = 0 \<longleftrightarrow> unat (drop_bit (8 * n) x) = 0" by (simp add: unat_eq_0)
  also have "\<dots> \<longleftrightarrow> unat x div 256 ^ n = 0"
    by (simp add: unat_drop_bit power_mult)
  also have "\<dots> \<longleftrightarrow> unat x < 256 ^ n" by (simp add: div_eq_0_iff)
  finally show ?thesis by (simp add: putValue_buf_def putValue_loop_eq)
qed

lemma length_putValue_buf [simp, bytes_simps]: "length (putValue_buf x n) = n"
  by (simp add: putValue_buf_eq)

lemma putValue_buf_nonempty [simp]: "putValue_buf x n = [] \<longleftrightarrow> n = 0"
  using length_putValue_buf [of x n] by (metis length_0_conv)

lemma le_val_ff: "le_val (replicate n 0xff) = 256 ^ n - 1"
proof (induction n)
  case 0
  show ?case by simp
next
  case (Suc n)
  have "1 \<le> (256 :: nat) ^ n" by simp
  then show ?case using Suc by (simp add: diff_mult_distrib2)
qed

text \<open>Reading the stored bytes back gives the value, saturated at the field's width.\<close>

lemma le_val_putValue_buf:
  "le_val (putValue_buf x n) = min (unat x) (256 ^ n - 1)"
proof (cases "unat x < 256 ^ n")
  case True
  then show ?thesis by (simp add: putValue_buf_eq le_val_le_bytes)
next
  case False
  then show ?thesis by (simp add: putValue_buf_eq le_val_ff)
qed

section \<open>Reading\<close>

text \<open>
  \<open>getByte\<close> leaves \<open>*pi\<close> alone when it reads nothing; the third argument is its
  value before the call. The C \<open>int\<close> behind it only ever holds a byte or its initial 0,
  so it is modelled as a byte.
\<close>

definition zip64local_getByte ::
    "'w zlib_filefunc64_32_def \<Rightarrow> voidpf \<Rightarrow> byte \<Rightarrow> 'w \<Rightarrow> int \<times> byte \<times> 'w" where
  "zip64local_getByte ff filestream i w =
     (let (c, w) = ZREAD64 ff filestream 1 w in
      if length c = 1 then (ZIP_OK, c ! 0, w)
      else
        (let (e, w) = ZERROR64 ff filestream w in
         if e \<noteq> 0 then (ZIP_ERRNO, i, w) else (ZIP_EOF, i, w)))"

definition zip64local_getNext ::
    "'w zlib_filefunc64_32_def \<Rightarrow> voidpf \<Rightarrow> int \<Rightarrow> byte \<Rightarrow> 'w \<Rightarrow> int \<times> byte \<times> 'w" where
  "zip64local_getNext ff filestream err i w =
     (if err = ZIP_OK then zip64local_getByte ff filestream i w else (err, i, w))"

definition zip64local_getShort ::
    "'w zlib_filefunc64_32_def \<Rightarrow> voidpf \<Rightarrow> 'w \<Rightarrow> int \<times> uLong \<times> 'w" where
  "zip64local_getShort ff filestream w =
     (let (err, i, w) = zip64local_getByte ff filestream 0 w;
          x = ucast i;
          (err, i, w) = zip64local_getNext ff filestream err i w;
          x = x + push_bit 8 (ucast i)
      in (err, if err = ZIP_OK then x else 0, w))"

definition zip64local_getLong ::
    "'w zlib_filefunc64_32_def \<Rightarrow> voidpf \<Rightarrow> 'w \<Rightarrow> int \<times> uLong \<times> 'w" where
  "zip64local_getLong ff filestream w =
     (let (err, i, w) = zip64local_getByte ff filestream 0 w;
          x = ucast i;
          (err, i, w) = zip64local_getNext ff filestream err i w;
          x = x + push_bit 8 (ucast i);
          (err, i, w) = zip64local_getNext ff filestream err i w;
          x = x + push_bit 16 (ucast i);
          (err, i, w) = zip64local_getNext ff filestream err i w;
          x = x + push_bit 24 (ucast i)
      in (err, if err = ZIP_OK then x else 0, w))"

definition zip64local_getLong64 ::
    "'w zlib_filefunc64_32_def \<Rightarrow> voidpf \<Rightarrow> 'w \<Rightarrow> int \<times> ZPOS64_T \<times> 'w" where
  "zip64local_getLong64 ff filestream w =
     (let (err, i, w) = zip64local_getByte ff filestream 0 w;
          x = ucast i;
          (err, i, w) = zip64local_getNext ff filestream err i w;
          x = x + push_bit 8 (ucast i);
          (err, i, w) = zip64local_getNext ff filestream err i w;
          x = x + push_bit 16 (ucast i);
          (err, i, w) = zip64local_getNext ff filestream err i w;
          x = x + push_bit 24 (ucast i);
          (err, i, w) = zip64local_getNext ff filestream err i w;
          x = x + push_bit 32 (ucast i);
          (err, i, w) = zip64local_getNext ff filestream err i w;
          x = x + push_bit 40 (ucast i);
          (err, i, w) = zip64local_getNext ff filestream err i w;
          x = x + push_bit 48 (ucast i);
          (err, i, w) = zip64local_getNext ff filestream err i w;
          x = x + push_bit 56 (ucast i)
      in (err, if err = ZIP_OK then x else 0, w))"

text \<open>The copies in \<open>unzip.c\<close> combine the bytes with \<open>|=\<close> (but for one \<open>+=\<close>).\<close>

definition unz64local_getByte ::
    "'w zlib_filefunc64_32_def \<Rightarrow> voidpf \<Rightarrow> byte \<Rightarrow> 'w \<Rightarrow> int \<times> byte \<times> 'w" where
  "unz64local_getByte ff filestream i w =
     (let (c, w) = ZREAD64 ff filestream 1 w in
      if length c = 1 then (UNZ_OK, c ! 0, w)
      else
        (let (e, w) = ZERROR64 ff filestream w in
         if e \<noteq> 0 then (UNZ_ERRNO, i, w) else (UNZ_EOF, i, w)))"

definition unz64local_getNext ::
    "'w zlib_filefunc64_32_def \<Rightarrow> voidpf \<Rightarrow> int \<Rightarrow> byte \<Rightarrow> 'w \<Rightarrow> int \<times> byte \<times> 'w" where
  "unz64local_getNext ff filestream err i w =
     (if err = UNZ_OK then unz64local_getByte ff filestream i w else (err, i, w))"

definition unz64local_getShort ::
    "'w zlib_filefunc64_32_def \<Rightarrow> voidpf \<Rightarrow> 'w \<Rightarrow> int \<times> uLong \<times> 'w" where
  "unz64local_getShort ff filestream w =
     (let (err, i, w) = unz64local_getByte ff filestream 0 w;
          x = ucast i;
          (err, i, w) = unz64local_getNext ff filestream err i w;
          x = x OR push_bit 8 (ucast i)
      in (err, if err = UNZ_OK then x else 0, w))"

definition unz64local_getLong ::
    "'w zlib_filefunc64_32_def \<Rightarrow> voidpf \<Rightarrow> 'w \<Rightarrow> int \<times> uLong \<times> 'w" where
  "unz64local_getLong ff filestream w =
     (let (err, i, w) = unz64local_getByte ff filestream 0 w;
          x = ucast i;
          (err, i, w) = unz64local_getNext ff filestream err i w;
          x = x OR push_bit 8 (ucast i);
          (err, i, w) = unz64local_getNext ff filestream err i w;
          x = x OR push_bit 16 (ucast i);
          (err, i, w) = unz64local_getNext ff filestream err i w;
          x = x + push_bit 24 (ucast i)
      in (err, if err = UNZ_OK then x else 0, w))"

definition unz64local_getLong64 ::
    "'w zlib_filefunc64_32_def \<Rightarrow> voidpf \<Rightarrow> 'w \<Rightarrow> int \<times> ZPOS64_T \<times> 'w" where
  "unz64local_getLong64 ff filestream w =
     (let (err, i, w) = unz64local_getByte ff filestream 0 w;
          x = ucast i;
          (err, i, w) = unz64local_getNext ff filestream err i w;
          x = x OR push_bit 8 (ucast i);
          (err, i, w) = unz64local_getNext ff filestream err i w;
          x = x OR push_bit 16 (ucast i);
          (err, i, w) = unz64local_getNext ff filestream err i w;
          x = x OR push_bit 24 (ucast i);
          (err, i, w) = unz64local_getNext ff filestream err i w;
          x = x OR push_bit 32 (ucast i);
          (err, i, w) = unz64local_getNext ff filestream err i w;
          x = x OR push_bit 40 (ucast i);
          (err, i, w) = unz64local_getNext ff filestream err i w;
          x = x OR push_bit 48 (ucast i);
          (err, i, w) = unz64local_getNext ff filestream err i w;
          x = x OR push_bit 56 (ucast i)
      in (err, if err = UNZ_OK then x else 0, w))"

section \<open>The two sets of readers agree\<close>

lemma or_byte_add:
  assumes "take_bit n x = x"
  shows "x OR push_bit n (ucast (b :: byte)) = x + push_bit n (ucast b :: 64 word)"
proof (rule disjunctive_add_eq_or [symmetric])
  have "k < n" if "bit x k" for k using assms that by (metis bit_take_bit_iff)
  then show "x AND push_bit n (ucast b :: 64 word) = 0"
    by (intro bit_word_eqI) (fastforce simp: bit_simps)
qed

lemma take_bit_or_byte:
  assumes "take_bit n x = x"
  shows "take_bit (n + 8) (x OR push_bit n (ucast (b :: byte))) = x OR push_bit n (ucast b :: 64 word)"
proof -
  have x: "k < n" if "bit x k" for k using assms that by (metis bit_take_bit_iff)
  have b: "k < 8" if "bit b k" for k using bit_imp_le_length [OF that] by simp
  have "k < n + 8" if "bit (x OR push_bit n (ucast b :: 64 word)) k" for k
    using that x [of k] b [of "k - n"] by (auto simp: bit_simps)
  then show ?thesis
    by (intro bit_word_eqI) (auto simp only: bit_take_bit_iff)
qed

lemma take_bit_add_byte:
  "take_bit n x = x \<Longrightarrow>
   take_bit (n + 8) (x + push_bit n (ucast (b :: byte))) = x + push_bit n (ucast b :: 64 word)"
  using take_bit_or_byte [of n x b] by (simp add: or_byte_add)

lemma take_bit_ucast_byte: "take_bit 8 (ucast (b :: byte) :: 64 word) = ucast b"
  by (intro bit_word_eqI) (auto simp: bit_simps dest: bit_imp_le_length)

text \<open>A sum of bytes at disjoint positions is their disjunction, one byte after another.\<close>

lemmas low1 = take_bit_ucast_byte
lemmas low2 = take_bit_add_byte [OF low1, simplified]
lemmas low3 = take_bit_add_byte [OF low2, simplified]
lemmas low4 = take_bit_add_byte [OF low3, simplified]
lemmas low5 = take_bit_add_byte [OF low4, simplified]
lemmas low6 = take_bit_add_byte [OF low5, simplified]
lemmas low7 = take_bit_add_byte [OF low6, simplified]

lemmas or_byte_steps = or_byte_add [OF low1] or_byte_add [OF low2] or_byte_add [OF low3]
  or_byte_add [OF low4] or_byte_add [OF low5] or_byte_add [OF low6] or_byte_add [OF low7]

lemma unz_getByte_eq: "unz64local_getByte = zip64local_getByte"
  by (intro ext) (simp add: unz64local_getByte_def zip64local_getByte_def Let_def split_beta)

lemma unz_getNext_eq: "unz64local_getNext = zip64local_getNext"
  by (intro ext) (simp add: unz64local_getNext_def zip64local_getNext_def unz_getByte_eq)

lemma unz_getShort_eq: "unz64local_getShort = zip64local_getShort"
  by (intro ext) (simp add: unz64local_getShort_def zip64local_getShort_def unz_getByte_eq unz_getNext_eq
     Let_def or_byte_steps cong: prod.case_cong if_cong)

lemma unz_getLong_eq: "unz64local_getLong = zip64local_getLong"
  by (intro ext) (simp add: unz64local_getLong_def zip64local_getLong_def unz_getByte_eq unz_getNext_eq
     Let_def or_byte_steps cong: prod.case_cong if_cong)

lemma unz_getLong64_eq: "unz64local_getLong64 = zip64local_getLong64"
  by (intro ext) (simp add: unz64local_getLong64_def zip64local_getLong64_def unz_getByte_eq unz_getNext_eq
     Let_def or_byte_steps cong: prod.case_cong if_cong)

lemmas unz_get_eq = unz_getByte_eq unz_getShort_eq unz_getLong_eq unz_getLong64_eq

section \<open>What the readers return\<close>

text \<open>
  Because \<open>ZIP_EOF\<close> is 0, the end of the file is not an error to the readers: each byte
  past it repeats the last byte read by the same call (0 if there is none).
  \<open>sticky n i bs\<close> are the \<open>n\<close> bytes a reader sees when \<open>bs\<close> lies ahead.
\<close>

fun next_byte :: "byte \<Rightarrow> byte list \<Rightarrow> byte" where
  "next_byte i [] = i"
| "next_byte i (b # bs) = b"

fun sticky :: "nat \<Rightarrow> byte \<Rightarrow> byte list \<Rightarrow> byte list" where
  "sticky 0 i bs = []"
| "sticky (Suc n) i bs = next_byte i bs # sticky n (next_byte i bs) (drop 1 bs)"

lemma length_sticky [simp]: "length (sticky n i bs) = n"
  by (induction n i bs rule: sticky.induct) auto

lemma sticky_take: "n \<le> length bs \<Longrightarrow> sticky n i bs = take n bs"
proof (induction n i bs rule: sticky.induct)
  case (2 n i bs)
  then show ?case by (cases bs) auto
qed simp

lemma sticky_Nil: "sticky n i [] = replicate n i"
  by (induction n) auto

definition le_word :: "byte list \<Rightarrow> 64 word" where
  "le_word bs = of_nat (le_val bs)"

lemma le_word_Nil [simp]: "le_word [] = 0"
  by (simp add: le_word_def)

lemma le_word_Cons: "le_word (b # bs) = ucast b + push_bit 8 (le_word bs)"
  by (simp add: le_word_def push_bit_eq_mult mult.commute)

lemma push_bit_add_word: "push_bit n (a + b :: 'a::len word) = push_bit n a + push_bit n b"
  by (rule push_bit_add)

lemma le_word_small:
  "le_word [a, b] = ucast a + push_bit 8 (ucast b)"
  "le_word [a, b, c, d] = ucast a + push_bit 8 (ucast b) + push_bit 16 (ucast c) + push_bit 24 (ucast d)"
  "le_word [a, b, c, d, e, f, g, i] =
     ucast a + push_bit 8 (ucast b) + push_bit 16 (ucast c) + push_bit 24 (ucast d)
     + push_bit 32 (ucast e) + push_bit 40 (ucast f) + push_bit 48 (ucast g) + push_bit 56 (ucast i)"
  by (simp_all add: le_word_Cons push_bit_add_word add.assoc)

lemma unat_le_word: "length bs \<le> 8 \<Longrightarrow> unat (le_word bs) = le_val bs"
proof -
  assume l: "length bs \<le> 8"
  have "le_val bs < 256 ^ length bs" by (rule le_val_bound)
  also have "\<dots> \<le> 256 ^ 8" using l by (rule power_increasing) simp
  finally show ?thesis by (simp add: le_word_def unat_of_nat)
qed

lemma sticky_small:
  "sticky 2 i bs = (let a = next_byte i bs; b = next_byte a (drop 1 bs) in [a, b])"
  "sticky 4 i bs = (let a = next_byte i bs; b = next_byte a (drop 1 bs); c = next_byte b (drop 2 bs) in
     [a, b, c, next_byte c (drop 3 bs)])"
  "sticky 8 i bs = (let a = next_byte i bs; b = next_byte a (drop 1 bs); c = next_byte b (drop 2 bs);
       d = next_byte c (drop 3 bs); e = next_byte d (drop 4 bs); f = next_byte e (drop 5 bs);
       g = next_byte f (drop 6 bs) in [a, b, c, d, e, f, g, next_byte g (drop 7 bs)])"
  by (simp_all add: numeral_eq_Suc Let_def)

context filefunc
begin

lemma getByte_eq:
  assumes "fetch w h = Some s" "s_rd s" "\<not> s_err s"
  shows "zip64local_getByte ff h i w = (ZIP_OK, next_byte i (s_rest s), store h (s_skip 1 s) w)"
  using assms
  by (cases "s_rest s") (auto simp: zip64local_getByte_def io_simps)

lemma getNext_eq:
  assumes "fetch w h = Some s" "s_rd s" "\<not> s_err s"
  shows "zip64local_getNext ff h 0 i w = (ZIP_OK, next_byte i (s_rest s), store h (s_skip 1 s) w)"
  using getByte_eq [OF assms] by (simp add: zip64local_getNext_def)

lemmas get_steps = getByte_eq getNext_eq fetch_store store_store s_rest_skip

lemma getShort_eq:
  assumes "fetch w h = Some s" "s_rd s" "\<not> s_err s"
  shows "zip64local_getShort ff h w = (ZIP_OK, le_word (sticky 2 0 (s_rest s)), store h (s_skip 2 s) w)"
  using assms
  by (simp add: zip64local_getShort_def get_steps sticky_small le_word_small Let_def drop_drop del: One_nat_def)

lemma getLong_eq:
  assumes "fetch w h = Some s" "s_rd s" "\<not> s_err s"
  shows "zip64local_getLong ff h w = (ZIP_OK, le_word (sticky 4 0 (s_rest s)), store h (s_skip 4 s) w)"
  using assms
  by (simp add: zip64local_getLong_def get_steps sticky_small le_word_small Let_def drop_drop del: One_nat_def)

lemma getLong64_eq:
  assumes "fetch w h = Some s" "s_rd s" "\<not> s_err s"
  shows "zip64local_getLong64 ff h w = (ZIP_OK, le_word (sticky 8 0 (s_rest s)), store h (s_skip 8 s) w)"
  using assms
  by (simp add: zip64local_getLong64_def get_steps sticky_small le_word_small Let_def drop_drop del: One_nat_def)

lemma putValue_ok:
  assumes "fetch w h = Some s" "s_wr s" "s_pos s + n \<le> limit w" "n \<le> 8"
  shows "zip64local_putValue ff h x n w = (ZIP_OK, store h (s_write (putValue_buf x n) s) w)"
  using assms by (simp add: zip64local_putValue_def io_simps)

lemma putValue_short:
  assumes "fetch w h = Some s" "s_wr s" "0 < n" "n \<le> 8" "limit w < s_pos s + n"
  shows "\<exists>s'. zip64local_putValue ff h x n w = (ZIP_ERRNO, store h s' w)"
proof -
  obtain k s' where k: "k < n" and eq: "ZWRITE64 ff h (putValue_buf x n) w = (of_nat k, store h s' w)"
    using io_write_short [OF assms(1,2), of "putValue_buf x n"] assms(3-5) by auto
  have "(of_nat k :: 64 word) \<noteq> of_nat n"
    using k assms(4) by (simp add: word_unat_eq_iff unat_of_nat)
  with eq show ?thesis by (auto simp: zip64local_putValue_def)
qed

end

section \<open>Reading back what was written\<close>

lemma drop_overwrite: "drop p (overwrite p bs d) = bs @ drop (p + length bs) d"
  by (simp add: overwrite_def)

lemma rest_after_write:
  "bs \<noteq> [] \<Longrightarrow> s_rest (s_seek (s_pos s) (s_write bs s)) = bs @ drop (s_pos s + length bs) (s_data s)"
  by (simp add: s_rest_def s_write_def s_seek_def drop_overwrite)

lemma le_word_putValue:
  "n \<le> 8 \<Longrightarrow> unat (le_word (putValue_buf x n)) = min (unat x) (256 ^ n - 1)"
  by (simp add: unat_le_word le_val_putValue_buf)

context filefunc
begin

text \<open>Writing a value, seeking back, and the stream as the reader finds it.\<close>

lemma write_then_seek:
  assumes "fetch w h = Some s" "s_wr s" "s_pos s + n \<le> limit w" "0 < n" "n \<le> 8" "s_pos s < 2 ^ 63"
  shows "\<exists>w1 w2 s2. zip64local_putValue ff h x n w = (ZIP_OK, w1)
    \<and> ZSEEK64 ff h (of_nat (s_pos s)) ZLIB_FILEFUNC_SEEK_SET w1 = (0, w2)
    \<and> fetch w2 h = Some s2 \<and> s_rd s2 = s_rd s \<and> s_err s2 = s_err s
    \<and> (\<forall>i. sticky n i (s_rest s2) = putValue_buf x n)"
proof -
  let ?s1 = "s_write (putValue_buf x n) s"
  let ?w1 = "store h ?s1 w" and ?s2 = "s_seek (s_pos s) ?s1"
  let ?w2 = "store h ?s2 ?w1"
  have f1: "fetch ?w1 h = Some ?s1" by (rule fetch_store [OF assms(1)])
  have "unat (of_nat (s_pos s) :: 64 word) = s_pos s" using assms(6) by (simp add: unat_of_nat)
  with io_seek_set [OF f1, of "of_nat (s_pos s)"] assms(6)
  have "ZSEEK64 ff h (of_nat (s_pos s)) ZLIB_FILEFUNC_SEEK_SET ?w1 = (0, ?w2)" by simp
  moreover have "s_rest ?s2 = putValue_buf x n @ drop (s_pos s + n) (s_data s)"
    using rest_after_write [of "putValue_buf x n" s] assms(4) by simp
  then have "\<forall>i. sticky n i (s_rest ?s2) = putValue_buf x n" by (simp add: sticky_take)
  ultimately show ?thesis using putValue_ok [OF assms(1-3,5)] fetch_store [OF f1]
    by (intro exI [of _ ?w1] exI [of _ ?w2] exI [of _ ?s2]) simp
qed

end

end
