(* ===== verification/Crypt.thy ===== *)
theory Crypt
  imports Prelude
begin

text \<open>
  \<open>minizip/crypt.h\<close>: traditional PKWARE encryption. The three keys are
  \<open>unsigned long\<close> and so have 64 bits on LP64, where the algorithm is defined on 32-bit
  keys; the refinement below shows that the extra bits never reach the key stream. zlib's
  CRC table is a parameter.
\<close>

section \<open>The key schedule\<close>

record zkeys =
  key0 :: uLong
  key1 :: uLong
  key2 :: uLong

type_synonym crctab = "nat \<Rightarrow> uLong"

definition CRC32 :: "crctab \<Rightarrow> uLong \<Rightarrow> uInt \<Rightarrow> uLong" where
  "CRC32 pcrc_32_tab c b =
     pcrc_32_tab (unat (((ucast c :: uInt) XOR b) AND 0xff)) XOR drop_bit 8 c"

definition decrypt_byte :: "zkeys \<Rightarrow> uInt" where
  "decrypt_byte pkeys =
     (let temp = ((ucast (key2 pkeys) :: uInt) AND 0xffff) OR 2
      in drop_bit 8 (temp * (temp XOR 1)) AND 0xff)"

definition update_keys :: "crctab \<Rightarrow> uInt \<Rightarrow> zkeys \<Rightarrow> zkeys" where
  "update_keys pcrc_32_tab c pkeys =
     (let k0 = CRC32 pcrc_32_tab (key0 pkeys) c;
          k1 = key1 pkeys + (k0 AND 0xff);
          k1 = k1 * 134775813 + 1;
          keyshift = (ucast (drop_bit 24 k1) :: uInt);
          k2 = CRC32 pcrc_32_tab (key2 pkeys) keyshift
      in \<lparr>key0 = k0, key1 = k1, key2 = k2\<rparr>)"

text \<open>A \<open>char\<close> is signed: a byte of the password is sign-extended to \<open>int\<close>.\<close>

fun init_keys_loop :: "byte list \<Rightarrow> crctab \<Rightarrow> zkeys \<Rightarrow> zkeys" where
  "init_keys_loop [] pcrc_32_tab pkeys = pkeys"
| "init_keys_loop (c # passwd) pcrc_32_tab pkeys =
     init_keys_loop passwd pcrc_32_tab (update_keys pcrc_32_tab (scast c) pkeys)"

definition init_keys :: "byte list \<Rightarrow> crctab \<Rightarrow> zkeys" where
  "init_keys passwd pcrc_32_tab =
     init_keys_loop passwd pcrc_32_tab \<lparr>key0 = 305419896, key1 = 591751049, key2 = 878082192\<rparr>"

section \<open>Encoding and decoding\<close>

definition zdecode :: "crctab \<Rightarrow> byte \<Rightarrow> zkeys \<Rightarrow> byte \<times> zkeys" where
  "zdecode pcrc_32_tab c pkeys =
     (let c = (ucast ((scast c :: uInt) XOR decrypt_byte pkeys) :: byte)
      in (c, update_keys pcrc_32_tab (scast c) pkeys))"

definition zencode :: "crctab \<Rightarrow> uInt \<Rightarrow> zkeys \<Rightarrow> uInt \<times> zkeys" where
  "zencode pcrc_32_tab c pkeys =
     (let t = decrypt_byte pkeys in (t XOR c, update_keys pcrc_32_tab c pkeys))"

text \<open>The loops that encode and decode a buffer in place.\<close>

fun zencode_buf :: "crctab \<Rightarrow> byte list \<Rightarrow> zkeys \<Rightarrow> byte list \<times> zkeys" where
  "zencode_buf tab [] keys = ([], keys)"
| "zencode_buf tab (c # cs) keys =
     (let (e, keys) = zencode tab (ucast c) keys; (es, keys) = zencode_buf tab cs keys
      in (ucast e # es, keys))"

fun zdecode_buf :: "crctab \<Rightarrow> byte list \<Rightarrow> zkeys \<Rightarrow> byte list \<times> zkeys" where
  "zdecode_buf tab [] keys = ([], keys)"
| "zdecode_buf tab (c # cs) keys =
     (let (d, keys) = zdecode tab c keys; (ds, keys) = zdecode_buf tab cs keys
      in (d # ds, keys))"

section \<open>The encryption header\<close>

definition RAND_HEAD_LEN :: nat where "RAND_HEAD_LEN = 12"
definition ZCR_SEED2 :: uLong where "ZCR_SEED2 = 3141592654"

fun crypthead_rand :: "nat \<Rightarrow> crctab \<Rightarrow> zkeys \<Rightarrow> sys \<Rightarrow> byte list \<times> zkeys \<times> sys" where
  "crypthead_rand 0 tab keys \<sigma> = ([], keys, \<sigma>)"
| "crypthead_rand (Suc n) tab keys \<sigma> =
     (let (r, \<sigma>) = libc_rand \<sigma>;
          c = drop_bit 7 r AND 0xff;
          (e, keys) = zencode tab c keys;
          (hs, keys, \<sigma>) = crypthead_rand n tab keys \<sigma>
      in (ucast e # hs, keys, \<sigma>))"

text \<open>
  \<open>None\<close> is the early return of 0 when the buffer is too small; otherwise the 12 bytes
  written to the buffer and the keys they leave.
\<close>

definition crypthead :: "byte list \<Rightarrow> nat \<Rightarrow> crctab \<Rightarrow> uLong \<Rightarrow> sys \<Rightarrow> (byte list \<times> zkeys) option \<times> sys" where
  "crypthead passwd bufSize tab crcForCrypting \<sigma> =
     (if bufSize < RAND_HEAD_LEN then (None, \<sigma>)
      else
        (let calls = sys_calls \<sigma> + 1;
             \<sigma> = \<sigma>\<lparr>sys_calls := calls\<rparr>;
             \<sigma> = (if calls = 1 then libc_srand (ucast (sys_time \<sigma> XOR ZCR_SEED2)) \<sigma> else \<sigma>);
             keys = init_keys passwd tab;
             (header, keys, \<sigma>) = crypthead_rand (RAND_HEAD_LEN - 2) tab keys \<sigma>;
             keys = init_keys passwd tab;
             (buf, keys) = zencode_buf tab header keys;
             (b1, keys) = zencode tab (ucast (drop_bit 16 crcForCrypting) AND 0xff) keys;
             (b2, keys) = zencode tab (ucast (drop_bit 24 crcForCrypting) AND 0xff) keys
         in (Some (buf @ [ucast b1, ucast b2], keys), \<sigma>)))"

section \<open>Decoding inverts encoding\<close>

text \<open>Only the low byte of the plain text enters the key schedule.\<close>

lemma low_byte_and_ff:
  assumes "(ucast b :: byte) = ucast b'"
  shows "(x XOR b) AND 0xff = (x XOR b') AND (0xff :: uInt)"
proof -
  have "bit b n = bit b' n" if "n < 8" for n
  proof -
    have "bit (ucast b :: byte) n = bit (ucast b' :: byte) n" by (simp only: assms)
    with that show ?thesis by (simp add: bit_ucast_iff)
  qed
  then show ?thesis by (intro bit_word_eqI) (auto simp: and_ff bit_simps)
qed

lemma update_keys_low_byte:
  "(ucast b :: byte) = ucast b' \<Longrightarrow> update_keys tab b k = update_keys tab b' k"
  by (simp add: update_keys_def CRC32_def low_byte_and_ff [of b b'])

lemma ucast_scast_byte: "(ucast (scast (c :: byte) :: uInt) :: byte) = c"
  by (intro bit_word_eqI) (auto simp: bit_simps)

lemma ucast_ucast_byte: "(ucast (ucast (c :: byte) :: uInt) :: byte) = c"
  by (intro bit_word_eqI) (auto simp: bit_simps)

lemma zdecode_zencode:
  "zdecode tab (ucast (fst (zencode tab (ucast c) k))) k = (c, snd (zencode tab (ucast c) k))"
proof -
  have "(ucast ((scast (ucast (decrypt_byte k XOR ucast c) :: byte) :: uInt) XOR decrypt_byte k) :: byte) = c"
    by (intro bit_word_eqI) (auto simp: bit_simps)
  moreover have "update_keys tab (scast c) k = update_keys tab (ucast c) k"
    by (rule update_keys_low_byte) (simp add: ucast_scast_byte ucast_ucast_byte)
  ultimately show ?thesis by (simp add: zdecode_def zencode_def Let_def)
qed

lemma zdecode_buf_zencode_buf:
  "zdecode_buf tab (fst (zencode_buf tab cs k)) k = (cs, snd (zencode_buf tab cs k))"
proof (induction cs arbitrary: k)
  case Nil
  show ?case by simp
next
  case (Cons c cs)
  let ?k = "snd (zencode tab (ucast c) k)"
  show ?case using zdecode_zencode [of tab c k] Cons.IH [of ?k]
    by (simp add: split_beta Let_def)
qed

lemma length_zencode_buf [simp]: "length (fst (zencode_buf tab cs k)) = length cs"
  by (induction cs arbitrary: k) (auto simp: split_beta Let_def)

lemma length_zdecode_buf [simp]: "length (fst (zdecode_buf tab cs k)) = length cs"
  by (induction cs arbitrary: k) (auto simp: split_beta Let_def)

lemma zencode_buf_append:
  "zencode_buf tab (xs @ ys) k =
     (let (es, k) = zencode_buf tab xs k; (fs, k) = zencode_buf tab ys k in (es @ fs, k))"
  by (induction xs arbitrary: k) (auto simp: split_beta Let_def)

lemma zdecode_buf_append:
  "zdecode_buf tab (xs @ ys) k =
     (let (es, k) = zdecode_buf tab xs k; (fs, k) = zdecode_buf tab ys k in (es @ fs, k))"
  by (induction xs arbitrary: k) (auto simp: split_beta Let_def)

section \<open>Refinement of the 32-bit algorithm\<close>

text \<open>
  The published algorithm keeps three 32-bit keys. \<open>abs_keys\<close> truncates the code's
  64-bit keys; \<open>keys_ok\<close> is the invariant under which truncation commutes with every
  operation. It says nothing of \<open>key1\<close>, which does overflow into the upper half.
\<close>

type_synonym keys32 = "uInt \<times> uInt \<times> uInt"
type_synonym crctab32 = "nat \<Rightarrow> uInt"

definition crc32_spec :: "crctab32 \<Rightarrow> uInt \<Rightarrow> byte \<Rightarrow> uInt" where
  "crc32_spec tab c b = tab (unat ((ucast c :: byte) XOR b)) XOR drop_bit 8 c"

definition update_keys_spec :: "crctab32 \<Rightarrow> byte \<Rightarrow> keys32 \<Rightarrow> keys32" where
  "update_keys_spec tab c k =
     (case k of (k0, k1, k2) \<Rightarrow>
        let k0 = crc32_spec tab k0 c;
            k1 = (k1 + take_bit 8 k0) * 134775813 + 1
        in (k0, k1, crc32_spec tab k2 (ucast (drop_bit 24 k1))))"

definition decrypt_byte_spec :: "keys32 \<Rightarrow> byte" where
  "decrypt_byte_spec k =
     (case k of (k0, k1, k2) \<Rightarrow>
        let temp = (ucast (ucast k2 :: 16 word) :: uInt) OR 2 in ucast (drop_bit 8 (temp * (temp XOR 1))))"

fun encrypt_spec :: "crctab32 \<Rightarrow> byte list \<Rightarrow> keys32 \<Rightarrow> byte list \<times> keys32" where
  "encrypt_spec tab [] k = ([], k)"
| "encrypt_spec tab (c # cs) k =
     (let (es, k') = encrypt_spec tab cs (update_keys_spec tab c k) in ((decrypt_byte_spec k XOR c) # es, k'))"

definition init_keys_spec :: "crctab32 \<Rightarrow> byte list \<Rightarrow> keys32" where
  "init_keys_spec tab pw = fold (update_keys_spec tab) pw (0x12345678, 0x23456789, 0x34567890)"

definition abs_keys :: "zkeys \<Rightarrow> keys32" where
  "abs_keys k = (ucast (key0 k), ucast (key1 k), ucast (key2 k))"

definition keys_ok :: "zkeys \<Rightarrow> bool" where
  "keys_ok k \<longleftrightarrow> take_bit 32 (key0 k) = key0 k \<and> take_bit 32 (key2 k) = key2 k"

definition crctab_ok :: "crctab \<Rightarrow> bool" where
  "crctab_ok tab \<longleftrightarrow> (\<forall>i<256. take_bit 32 (tab i) = tab i)"

definition abs_tab :: "crctab \<Rightarrow> crctab32" where
  "abs_tab tab i = ucast (tab i)"

lemma ucast_drop8:
  assumes "take_bit 32 c = c"
  shows "(ucast (drop_bit 8 (c :: uLong)) :: uInt) = drop_bit 8 (ucast c)"
proof (rule bit_word_eqI)
  fix n
  have b: "k < 32" if "bit c k" for k using assms that by (metis bit_take_bit_iff)
  have "bit c (8 + n) \<Longrightarrow> n < 24" using b [of "8 + n"] by simp
  then show "n < LENGTH(32) \<Longrightarrow> bit (ucast (drop_bit 8 c) :: uInt) n = bit (drop_bit 8 (ucast c :: uInt)) n"
    by (auto simp: bit_simps)
qed

lemma crc_index:
  "((ucast (c :: uLong) :: uInt) XOR b) AND 0xff = ucast ((ucast (ucast c :: uInt) :: byte) XOR ucast b)"
  by (intro bit_word_eqI) (auto simp: and_ff bit_simps)

lemma unat_ucast_byte: "unat (ucast (x :: byte) :: uInt) = unat x"
  by (simp add: unsigned_ucast_eq take_bit_nat_eq_self less_trans [OF unat_byte_less])

lemma ucast_xor_word: "(ucast (a XOR b :: uLong) :: uInt) = ucast a XOR ucast b"
  by (intro bit_word_eqI) (auto simp: bit_simps)

lemma CRC32_refines:
  "take_bit 32 c = c \<Longrightarrow> ucast (CRC32 tab c b) = crc32_spec (abs_tab tab) (ucast c) (ucast b)"
  by (simp add: CRC32_def crc32_spec_def abs_tab_def ucast_xor_word ucast_drop8 crc_index unat_ucast_byte)

lemma take_bit_xor_word: "take_bit n (a XOR b :: 'a::len word) = take_bit n a XOR take_bit n b"
  by (intro bit_word_eqI) (auto simp: bit_simps)

lemma CRC32_small:
  assumes "crctab_ok tab" "take_bit 32 c = c"
  shows "take_bit 32 (CRC32 tab c b) = CRC32 tab c b"
proof -
  let ?i = "unat (((ucast c :: uInt) XOR b) AND 0xff)"
  have "?i < 256" by (simp add: crc_index unat_ucast_byte)
  then have t: "take_bit 32 (tab ?i) = tab ?i" using assms(1) by (simp add: crctab_ok_def)
  have "bit c k \<Longrightarrow> k < 32" for k using assms(2) by (metis bit_take_bit_iff)
  then have "take_bit 32 (drop_bit 8 c) = drop_bit 8 c"
    by (intro bit_word_eqI) (fastforce simp: bit_simps)
  with t show ?thesis by (simp only: CRC32_def take_bit_xor_word)
qed

lemma update_keys_ok: "crctab_ok tab \<Longrightarrow> keys_ok k \<Longrightarrow> keys_ok (update_keys tab c k)"
  by (simp add: keys_ok_def update_keys_def Let_def CRC32_small)

lemma ucast_take_bit8: "(ucast (take_bit 8 (x :: uLong)) :: uInt) = take_bit 8 (ucast x)"
  by (intro bit_word_eqI) (auto simp: bit_simps)

lemma keyshift_low:
  "(ucast (ucast (drop_bit 24 (k :: uLong)) :: uInt) :: byte) = ucast (drop_bit 24 (ucast k :: uInt))"
  by (intro bit_word_eqI) (auto simp: bit_simps)

text \<open>One step of the key schedule, and one byte of the key stream.\<close>

lemma update_keys_refines:
  assumes "keys_ok k"
  shows "abs_keys (update_keys tab c k) = update_keys_spec (abs_tab tab) (ucast c) (abs_keys k)"
proof -
  let ?k0 = "CRC32 tab (key0 k) c"
  let ?k1 = "(key1 k + take_bit 8 ?k0) * 134775813 + 1"
  have k1: "ucast ?k1 = (ucast (key1 k) + take_bit 8 (ucast ?k0)) * 134775813 + (1 :: uInt)"
    by (simp add: ucast_add_64_32 ucast_mult_64_32 ucast_take_bit8)
  have "ucast (CRC32 tab (key2 k) (ucast (drop_bit 24 ?k1))) =
      crc32_spec (abs_tab tab) (ucast (key2 k)) (ucast (drop_bit 24 (ucast ?k1 :: uInt)))"
    using assms by (simp only: keys_ok_def CRC32_refines keyshift_low)
  with k1 assms show ?thesis
    by (simp add: abs_keys_def update_keys_def update_keys_spec_def Let_def and_ff CRC32_refines keys_ok_def)
qed

lemma decrypt_byte_refines: "ucast (decrypt_byte k) = decrypt_byte_spec (abs_keys k)"
proof -
  have t: "(ucast (key2 k) :: uInt) AND 0xffff = ucast (ucast (ucast (key2 k) :: uInt) :: 16 word)"
    by (intro bit_word_eqI) (auto simp: and_ffff bit_simps)
  have "(ucast (take_bit 8 x :: uInt) :: byte) = ucast x" for x
    by (intro bit_word_eqI) (auto simp: bit_simps)
  then show ?thesis by (simp add: decrypt_byte_def decrypt_byte_spec_def abs_keys_def Let_def t and_ff)
qed

lemma zencode_refines:
  "keys_ok k \<Longrightarrow> ucast (fst (zencode tab (ucast c) k)) = decrypt_byte_spec (abs_keys k) XOR c
     \<and> abs_keys (snd (zencode tab (ucast c) k)) = update_keys_spec (abs_tab tab) c (abs_keys k)"
proof -
  assume k: "keys_ok k"
  have "(ucast (x XOR ucast c :: uInt) :: byte) = ucast x XOR c" for x
    by (intro bit_word_eqI) (auto simp: bit_simps)
  then show ?thesis
    by (simp add: zencode_def Let_def update_keys_refines [OF k] decrypt_byte_refines ucast_ucast_byte)
qed

lemma zencode_keys: "snd (zencode tab c k) = update_keys tab c k"
  by (simp add: zencode_def Let_def)

lemma zencode_buf_refines:
  "crctab_ok tab \<Longrightarrow> keys_ok k \<Longrightarrow>
   (fst (zencode_buf tab cs k), abs_keys (snd (zencode_buf tab cs k))) =
   encrypt_spec (abs_tab tab) cs (abs_keys k)"
proof (induction cs arbitrary: k)
  case Nil
  show ?case by simp
next
  case (Cons c cs)
  let ?k = "snd (zencode tab (ucast c) k)"
  have "keys_ok ?k" using Cons.prems by (simp add: zencode_keys update_keys_ok)
  from Cons.IH [OF Cons.prems(1) this] zencode_refines [OF Cons.prems(2), of tab c]
  show ?case by (simp add: split_beta Let_def prod_eq_iff)
qed

lemma init_keys_loop_refines:
  "crctab_ok tab \<Longrightarrow> keys_ok k \<Longrightarrow>
   keys_ok (init_keys_loop pw tab k) \<and>
   abs_keys (init_keys_loop pw tab k) = fold (update_keys_spec (abs_tab tab)) pw (abs_keys k)"
  by (induction pw arbitrary: k) (simp_all add: update_keys_ok update_keys_refines ucast_scast_byte)

lemma init_keys_refines:
  "crctab_ok tab \<Longrightarrow> keys_ok (init_keys pw tab) \<and> abs_keys (init_keys pw tab) = init_keys_spec (abs_tab tab) pw"
  using init_keys_loop_refines [of tab "\<lparr>key0 = 305419896, key1 = 591751049, key2 = 878082192\<rparr>" pw]
  by (simp add: init_keys_def init_keys_spec_def abs_keys_def keys_ok_def)

section \<open>The header\<close>

lemma length_crypthead_rand [simp]: "length (fst (crypthead_rand n tab k \<sigma>)) = n"
  by (induction n arbitrary: k \<sigma>) (auto simp: split_beta Let_def)

lemma crypthead_fits:
  "12 \<le> n \<Longrightarrow> \<exists>buf keys \<sigma>'. crypthead pw n tab crc \<sigma> = (Some (buf, keys), \<sigma>') \<and> length buf = 12"
  by (simp add: crypthead_def RAND_HEAD_LEN_def Let_def split_beta)

text \<open>A header decrypts, under the same password, to a block that ends in the CRC's high word.\<close>

lemma crypthead_decodes:
  assumes "crypthead pw n tab crc \<sigma> = (Some (buf, keys), \<sigma>')"
  shows "\<exists>h. length h = 10 \<and>
    zdecode_buf tab buf (init_keys pw tab) =
      (h @ [ucast (drop_bit 16 crc), ucast (drop_bit 24 crc)], keys)"
proof -
  let ?c1 = "ucast (drop_bit 16 crc) :: byte" and ?c2 = "ucast (drop_bit 24 crc) :: byte"
  have b: "(ucast (drop_bit m crc) AND 0xff) = (ucast (ucast (drop_bit m crc) :: byte) :: uInt)" for m
    by (intro bit_word_eqI) (auto simp: and_ff bit_simps)
  let ?h = "\<lambda>\<sigma>. fst (crypthead_rand 10 tab (init_keys pw tab) \<sigma>)"
  obtain \<sigma>2 where eq: "(buf, keys) = zencode_buf tab (?h \<sigma>2 @ [?c1, ?c2]) (init_keys pw tab)"
    using assms
    by (auto simp: crypthead_def RAND_HEAD_LEN_def Let_def split_beta b zencode_buf_append prod_eq_iff
        split: if_splits)
  have "zdecode_buf tab buf (init_keys pw tab) = (?h \<sigma>2 @ [?c1, ?c2], keys)"
    using zdecode_buf_zencode_buf [of tab "?h \<sigma>2 @ [?c1, ?c2]" "init_keys pw tab"]
    by (metis eq fst_conv snd_conv)
  then show ?thesis by (metis length_crypthead_rand)
qed

end
