(* ===== verification/Zlib.thy ===== *)
theory Zlib
  imports Crypt
begin

text \<open>
  zlib, which is not part of the repository: a table of the functions \<open>zip.c\<close> and
  \<open>unzip.c\<close> call, and the \<open>z_stream\<close> structure through which they call them. The
  table is a parameter of every definition that uses it. Only the fields the archive code
  touches are kept; everything else of a stream is its state \<open>'z\<close>.
\<close>

definition Z_OK :: int where [simp]: "Z_OK = 0"
definition Z_STREAM_END :: int where [simp]: "Z_STREAM_END = 1"
definition Z_DATA_ERROR :: int where [simp]: "Z_DATA_ERROR = -3"
definition Z_NO_FLUSH :: int where [simp]: "Z_NO_FLUSH = 0"
definition Z_SYNC_FLUSH :: int where [simp]: "Z_SYNC_FLUSH = 2"
definition Z_FINISH :: int where [simp]: "Z_FINISH = 4"
definition Z_BINARY :: int where [simp]: "Z_BINARY = 0"
definition Z_ASCII :: int where [simp]: "Z_ASCII = 1"
definition Z_DEFLATED :: int where [simp]: "Z_DEFLATED = 8"
definition Z_BZIP2ED :: int where [simp]: "Z_BZIP2ED = 12"
definition Z_DEFAULT_STRATEGY :: int where [simp]: "Z_DEFAULT_STRATEGY = 0"
definition MAX_WBITS :: int where [simp]: "MAX_WBITS = 15"
definition DEF_MEM_LEVEL :: int where [simp]: "DEF_MEM_LEVEL = 8"

text \<open>
  \<open>next_in\<close> is the input that lies ahead, so \<open>avail_in\<close> is its length;
  \<open>next_out\<close> is an offset into the caller's output buffer.
\<close>

record 'z z_stream =
  next_in :: "byte list"
  next_out :: nat
  avail_out :: nat
  total_in :: uLong
  total_out :: uLong
  data_type :: int
  msg_set :: bool
  zstate :: 'z

abbreviation avail_in :: "'z z_stream \<Rightarrow> nat" where
  "avail_in strm \<equiv> length (next_in strm)"

text \<open>
  \<open>deflate\<close> and \<open>inflate\<close> return their code, the bytes they stored at
  \<open>next_out\<close> and the updated stream.
\<close>

record 'z zlib =
  zl_crc32 :: "uLong \<Rightarrow> byte list \<Rightarrow> uLong"
  zl_crc_table :: crctab
  zl_deflateInit2 :: "'z z_stream \<Rightarrow> int \<Rightarrow> int \<Rightarrow> int \<Rightarrow> int \<Rightarrow> int \<Rightarrow> int \<times> 'z z_stream"
  zl_deflate :: "'z z_stream \<Rightarrow> int \<Rightarrow> int \<times> byte list \<times> 'z z_stream"
  zl_deflateEnd :: "'z z_stream \<Rightarrow> int \<times> 'z z_stream"
  zl_inflateInit2 :: "'z z_stream \<Rightarrow> int \<Rightarrow> int \<times> 'z z_stream"
  zl_inflate :: "'z z_stream \<Rightarrow> int \<Rightarrow> int \<times> byte list \<times> 'z z_stream"
  zl_inflateEnd :: "'z z_stream \<Rightarrow> int \<times> 'z z_stream"

text \<open>
  What zlib documents of one call: it consumes a prefix of the input, produces at most
  \<open>avail_out\<close> bytes, and keeps the four counters. \<open>strm_step s bs s'\<close> states it for
  a call that took stream \<open>s\<close> to \<open>s'\<close> and stored \<open>bs\<close>.
\<close>

definition strm_step :: "'z z_stream \<Rightarrow> byte list \<Rightarrow> 'z z_stream \<Rightarrow> bool" where
  "strm_step s bs s' \<longleftrightarrow>
     suffix (next_in s') (next_in s)
     \<and> length bs \<le> avail_out s
     \<and> avail_out s' + length bs = avail_out s
     \<and> next_out s' = next_out s + length bs
     \<and> total_out s' = total_out s + of_nat (length bs)
     \<and> total_in s' = total_in s + of_nat (avail_in s - avail_in s')"

definition deflate_steps :: "'z zlib \<Rightarrow> bool" where
  "deflate_steps Z \<longleftrightarrow> (\<forall>s flush. case zl_deflate Z s flush of (err, bs, s') \<Rightarrow> strm_step s bs s')"

text \<open>The running CRC: of nothing, and of a string in two parts.\<close>

definition crc32_streams :: "'z zlib \<Rightarrow> bool" where
  "crc32_streams Z \<longleftrightarrow> (\<forall>c. zl_crc32 Z c [] = c)
     \<and> (\<forall>c xs ys. zl_crc32 Z (zl_crc32 Z c xs) ys = zl_crc32 Z c (xs @ ys))"

text \<open>The CRC is a 32-bit value.\<close>

definition crc32_small :: "'z zlib \<Rightarrow> bool" where
  "crc32_small Z \<longleftrightarrow> (\<forall>c xs. unat c < 2 ^ 32 \<longrightarrow> unat (zl_crc32 Z c xs) < 2 ^ 32)"

end
