(* ===== verification/Mztools.thy ===== *)
theory Mztools
  imports ZipBytes Zlib
begin

text \<open>
  \<open>minizip/mztools.c\<close>: \<open>unzRepair\<close> copies the local entries of a damaged archive, as far as it finds
  them, and builds a new central directory in a temporary file, which it appends. It uses stdio
  directly.
\<close>

section \<open>Fields of a header\<close>

definition READ_16 :: "byte list \<Rightarrow> nat \<Rightarrow> uInt" where
  "READ_16 header adr = ucast (header ! adr) OR push_bit 8 (ucast (header ! (adr + 1)))"

definition READ_32 :: "byte list \<Rightarrow> nat \<Rightarrow> uInt" where
  "READ_32 header adr = READ_16 header adr OR push_bit 16 (READ_16 header (adr + 2))"

text \<open>The bytes that the \<open>WRITE\<close> macros store.\<close>

definition bytes_16 :: "uInt \<Rightarrow> byte list" where
  "bytes_16 n = [ucast (n AND 0xff), ucast (drop_bit 8 n AND 0xff)]"

definition bytes_32 :: "uInt \<Rightarrow> byte list" where
  "bytes_32 n = bytes_16 (n AND 0xffff) @ bytes_16 (drop_bit 16 n)"

definition WRITE_16 :: "nat \<Rightarrow> uInt \<Rightarrow> byte list \<Rightarrow> byte list" where
  "WRITE_16 buff n header = mem_write buff (bytes_16 n) header"

definition WRITE_32 :: "nat \<Rightarrow> uInt \<Rightarrow> byte list \<Rightarrow> byte list" where
  "WRITE_32 buff n header = mem_write buff (bytes_32 n) header"

section \<open>One entry\<close>

definition Z_STREAM_ERROR :: int where [simp]: "Z_STREAM_ERROR = -2"
definition Z_MEM_ERROR :: int where [simp]: "Z_MEM_ERROR = -4"

text \<open>
  The local variables of the loop. \<open>offset\<close> and \<open>offsetCD\<close> are \<open>int\<close>, to which unsigned sizes are
  added: sums modulo \<open>2 ^ 32\<close>.
\<close>

record repair =
  rp_entries :: int
  rp_totalBytes :: uLong
  rp_offset :: uInt
  rp_offsetCD :: uInt

text \<open>
  Reading \<open>n\<close> bytes into an array of \<open>room\<close> bytes and writing them to \<open>fpOut\<close>. The arrays are smaller
  than the sizes a header can ask for; storing past the end is undefined behaviour (\<open>None\<close>).
\<close>

definition repair_copy ::
    "nat \<Rightarrow> nat \<Rightarrow> voidpf \<Rightarrow> voidpf \<Rightarrow> repair \<Rightarrow> stdio \<Rightarrow> (int \<times> byte list \<times> repair \<times> stdio) option" where
  "repair_copy room n fpZip fpOut r w =
     (let (bs, w) = libc_fread n fpZip w
      in if length bs > room then None
         else if length bs = n then
           (let (k, w) = libc_fwrite bs fpOut w
            in if k = n then Some (Z_OK, bs, r\<lparr>rp_offset := rp_offset r + of_nat n\<rparr>, w) else Some (Z_ERRNO, bs, r, w))
         else Some (Z_ERRNO, bs, r, w))"

text \<open>The data, through a heap block.\<close>

definition repair_data ::
    "uInt \<Rightarrow> uInt \<Rightarrow> voidpf \<Rightarrow> voidpf \<Rightarrow> repair \<Rightarrow> sys \<Rightarrow> stdio \<Rightarrow> (int \<times> repair \<times> sys \<times> stdio) option" where
  "repair_data cpsize uncpsize fpZip fpOut r \<sigma> w =
     (let dataSize = sint cpsize;
          dataSize = (if dataSize = 0 then sint uncpsize else dataSize)
      in if dataSize > 0 then
           (let (ok, \<sigma>) = malloc (nat dataSize) \<sigma>
            in if \<not> ok then Some (Z_MEM_ERROR, r, \<sigma>, w)
               else do {
                 (err, _, r, w) \<leftarrow> repair_copy (nat dataSize) (nat dataSize) fpZip fpOut r w;
                 Some (err, if err = Z_OK then r\<lparr>rp_totalBytes := rp_totalBytes r + of_int dataSize\<rparr> else r, \<sigma>, w) })
         else Some (Z_OK, r, \<sigma>, w))"

text \<open>The entry of the central directory, in an uninitialised array.\<close>

definition repair_central :: "byte list \<Rightarrow> byte list \<Rightarrow> uInt \<Rightarrow> byte list" where
  "repair_central junk header currentOffset =
     (let h = junk;
          h = WRITE_32 0 0x02014b50 h;
          h = WRITE_16 4 (READ_16 header 4) h;
          h = WRITE_16 6 (READ_16 header 4) h;
          h = WRITE_16 8 (READ_16 header 6) h;
          h = WRITE_16 10 (READ_16 header 8) h;
          h = WRITE_16 12 (READ_16 header 10) h;
          h = WRITE_16 14 (READ_16 header 12) h;
          h = WRITE_32 16 (READ_32 header 14) h;
          h = WRITE_32 20 (READ_32 header 18) h;
          h = WRITE_32 24 (READ_32 header 22) h;
          h = WRITE_16 28 (READ_16 header 26) h;
          h = WRITE_16 30 (READ_16 header 28) h;
          h = WRITE_16 32 0 h;
          h = WRITE_16 34 0 h;
          h = WRITE_16 36 0 h;
          h = WRITE_32 38 0 h;
          h = WRITE_32 42 currentOffset h
      in h)"

text \<open>Writing it: the comment is empty.\<close>

definition repair_write_cd ::
    "voidpf \<Rightarrow> byte list \<Rightarrow> byte list \<Rightarrow> byte list \<Rightarrow> repair \<Rightarrow> stdio \<Rightarrow> int \<times> repair \<times> stdio" where
  "repair_write_cd fpOutCD header filename extra r w =
     (let (n, w) = libc_fwrite header fpOutCD w
      in if n \<noteq> 46 then (Z_ERRNO, r, w)
         else
           (let r = r\<lparr>rp_offsetCD := rp_offsetCD r + 46\<rparr>
            in if filename = [] then (Z_STREAM_ERROR, r, w)
               else
                 (let (n, w) = libc_fwrite filename fpOutCD w
                  in if n \<noteq> length filename then (Z_ERRNO, r, w)
                     else
                       (let r = r\<lparr>rp_offsetCD := rp_offsetCD r + of_nat n\<rparr>
                        in if extra = [] then (Z_OK, r, w)
                           else
                             (let (n, w) = libc_fwrite extra fpOutCD w
                              in if n \<noteq> length extra then (Z_ERRNO, r, w)
                                 else (Z_OK, r\<lparr>rp_offsetCD := rp_offsetCD r + of_nat n\<rparr>, w))))))"

text \<open>The body of the loop for a header with the signature of a local entry.\<close>

definition repair_entry ::
    "byte list \<Rightarrow> voidpf \<Rightarrow> voidpf \<Rightarrow> voidpf \<Rightarrow> byte list \<Rightarrow> repair \<Rightarrow> sys \<Rightarrow> stdio
     \<Rightarrow> (int \<times> repair \<times> sys \<times> stdio) option" where
  "repair_entry junk fpZip fpOut fpOutCD header r \<sigma> w =
     (let currentOffset = rp_offset r; fnsize = unat (READ_16 header 26); extsize = unat (READ_16 header 28);
          (n, w) = libc_fwrite header fpOut w
      in if n \<noteq> 30 then Some (Z_ERRNO, r, \<sigma>, w)
         else
           (let r = r\<lparr>rp_offset := rp_offset r + 30\<rparr>
            in if fnsize = 0 then Some (Z_STREAM_ERROR, r, \<sigma>, w)
               else do {
                 (err, filename, r, w) \<leftarrow> repair_copy 256 fnsize fpZip fpOut r w;
                 if err \<noteq> Z_OK then Some (err, r, \<sigma>, w)
                 else do {
                   (err, extra, r, w) \<leftarrow> (if extsize > 0 then repair_copy 1024 extsize fpZip fpOut r w else Some (Z_OK, [], r, w));
                   if err \<noteq> Z_OK then Some (err, r, \<sigma>, w)
                   else do {
                     (err, r, \<sigma>, w) \<leftarrow> repair_data (READ_32 header 18) (READ_32 header 22) fpZip fpOut r \<sigma> w;
                     if err \<noteq> Z_OK then Some (err, r, \<sigma>, w)
                     else
                       (let (err, r, w) = repair_write_cd fpOutCD (repair_central junk header currentOffset) filename extra r w
                        in Some (err, if err = Z_OK then r\<lparr>rp_entries := rp_entries r + 1\<rparr> else r, \<sigma>, w)) } } }))"

section \<open>The loops\<close>

partial_function (option) repair_loop ::
    "byte list \<Rightarrow> voidpf \<Rightarrow> voidpf \<Rightarrow> voidpf \<Rightarrow> repair \<Rightarrow> sys \<Rightarrow> stdio \<Rightarrow> (int \<times> repair \<times> sys \<times> stdio) option" where
  "repair_loop junk fpZip fpOut fpOutCD r \<sigma> w =
     (let (header, w) = libc_fread 30 fpZip w
      in if length header = 30 \<and> READ_32 header 0 = 0x04034b50 then do {
           (err, r, \<sigma>, w) \<leftarrow> repair_entry junk fpZip fpOut fpOutCD header r \<sigma> w;
           if err \<noteq> Z_OK then Some (err, r, \<sigma>, w) else repair_loop junk fpZip fpOut fpOutCD r \<sigma> w }
         else Some (Z_OK, r, \<sigma>, w))"

text \<open>The end record.\<close>

definition repair_end :: "byte list \<Rightarrow> repair \<Rightarrow> byte list" where
  "repair_end junk r =
     (let entriesZip = of_int (if rp_entries r > 0xffff then 0xffff else rp_entries r);
          h = take 22 junk;
          h = WRITE_32 0 0x06054b50 h;
          h = WRITE_16 4 0 h;
          h = WRITE_16 6 0 h;
          h = WRITE_16 8 entriesZip h;
          h = WRITE_16 10 entriesZip h;
          h = WRITE_32 12 (rp_offsetCD r) h;
          h = WRITE_32 16 (rp_offset r) h;
          h = WRITE_16 20 0 h
      in h)"

text \<open>Appending the temporary file.\<close>

partial_function (option) repair_merge :: "voidpf \<Rightarrow> voidpf \<Rightarrow> stdio \<Rightarrow> (int \<times> stdio) option" where
  "repair_merge fpOutCD fpOut w =
     (let (buffer, w) = libc_fread 8192 fpOutCD w
      in if buffer = [] then Some (Z_OK, w)
         else
           (let (n, w) = libc_fwrite buffer fpOut w
            in if n \<noteq> length buffer then Some (Z_ERRNO, w) else repair_merge fpOutCD fpOut w))"

definition libc_remove :: "path \<Rightarrow> stdio \<Rightarrow> stdio" where
  "libc_remove p w = w\<lparr>w_files := (w_files w)(p := None)\<rparr>"

text \<open>
  The result has the counts that are stored in \<open>nRecovered\<close> and \<open>bytesRecovered\<close>. \<open>fpOutCD\<close> is not
  tested when it is opened first, and using a NULL stream is undefined behaviour.
\<close>

definition unzRepair ::
    "byte list \<Rightarrow> path \<Rightarrow> path \<Rightarrow> path \<Rightarrow> sys \<Rightarrow> stdio \<Rightarrow> (int \<times> (uLong \<times> uLong) option \<times> sys \<times> stdio) option" where
  "unzRepair junk file fileOut fileOutTmp \<sigma> w =
     (let (fpZip, w) = libc_fopen file ''rb'' w;
          (fpOut, w) = libc_fopen fileOut ''wb'' w;
          (fpOutCD, w) = libc_fopen fileOutTmp ''wb'' w
      in if fpZip = NULL \<or> fpOut = NULL then Some (Z_STREAM_ERROR, None, \<sigma>, w)
         else if fpOutCD = NULL then None
         else do {
           (err, r, \<sigma>, w) \<leftarrow> repair_loop junk fpZip fpOut fpOutCD
              \<lparr>rp_entries = 0, rp_totalBytes = 0, rp_offset = 0, rp_offsetCD = 0\<rparr> \<sigma> w;
           let (n, w) = libc_fwrite (repair_end junk r) fpOutCD w;
           let err = (if n \<noteq> 22 then Z_ERRNO else err);
           let (_, w) = libc_fclose fpOutCD w;
           (err, w) \<leftarrow>
             (if err = Z_OK then
                (let (fpOutCD, w) = libc_fopen fileOutTmp ''rb'' w
                 in if fpOutCD = NULL then Some (err, w)
                    else do {
                      (err, w) \<leftarrow> repair_merge fpOutCD fpOut w;
                      let (_, w) = libc_fclose fpOutCD w;
                      Some (err, w) })
              else Some (err, w));
           let (_, w) = libc_fclose fpZip w;
           let (_, w) = libc_fclose fpOut w;
           Some (err, if err = Z_OK then Some (of_int (rp_entries r), rp_totalBytes r) else None, \<sigma>, libc_remove fileOutTmp w) })"

end
