(* ===== verification/DataBlocks.thy ===== *)
theory DataBlocks
  imports Prelude
begin

text \<open>
  The chunked buffer of \<open>zip.c\<close> in which the central directory is built: a linked list
  of blocks of \<open>SIZEDATA_INDATABLOCK\<close> bytes (\<open>linkedlist_data\<close>,
  \<open>add_data_in_datablock\<close> and their helpers). It refines a plain byte string to which
  data is appended.
\<close>

section \<open>Blocks and lists of blocks\<close>

definition SIZEDATA_INDATABLOCK :: nat where "SIZEDATA_INDATABLOCK = 4096 - 4 * 4"

definition sizeof_datablock :: nat where "sizeof_datablock = SIZEDATA_INDATABLOCK + 4 * 8"

text \<open>
  The list of blocks in \<open>next_datablock\<close> order; \<open>first_block\<close> is its head and
  \<open>last_block\<close> its last element, both NULL when it is empty. The array of a block is
  only read below \<open>filled_in_this_block\<close>; \<open>bdata\<close> is that part of it.
\<close>

record linkedlist_datablock_internal =
  avail_in_this_block :: nat
  filled_in_this_block :: nat
  bdata :: "byte list"

type_synonym linkedlist_data = "linkedlist_datablock_internal list"

definition allocate_new_datablock :: "sys \<Rightarrow> linkedlist_datablock_internal option \<times> sys" where
  "allocate_new_datablock \<sigma> =
     (let (ok, \<sigma>) = malloc sizeof_datablock \<sigma> in
      (if ok then Some \<lparr>avail_in_this_block = SIZEDATA_INDATABLOCK, filled_in_this_block = 0, bdata = []\<rparr>
       else None, \<sigma>))"

definition init_linkedlist :: linkedlist_data where "init_linkedlist = []"

text \<open>Freeing every block leaves both pointers NULL.\<close>

fun free_datablock :: "linkedlist_data \<Rightarrow> linkedlist_data" where
  "free_datablock [] = []"
| "free_datablock (ldi # ldinext) = free_datablock ldinext"

definition free_linkedlist :: "linkedlist_data \<Rightarrow> linkedlist_data" where
  "free_linkedlist ll = free_datablock ll"

lemma allocate_avail: "allocate_new_datablock \<sigma> = (Some b, \<sigma>') \<Longrightarrow> avail_in_this_block b = 4080"
  by (auto simp: allocate_new_datablock_def SIZEDATA_INDATABLOCK_def split: if_splits prod.splits)

text \<open>Copying a chunk into the last block.\<close>

definition fill_block :: "byte list \<Rightarrow> linkedlist_datablock_internal \<Rightarrow> linkedlist_datablock_internal" where
  "fill_block bs ldi =
     ldi\<lparr>bdata := bdata ldi @ bs,
         filled_in_this_block := filled_in_this_block ldi + length bs,
         avail_in_this_block := avail_in_this_block ldi - length bs\<rparr>"

function add_data_loop ::
    "linkedlist_data \<Rightarrow> linkedlist_datablock_internal \<Rightarrow> byte list \<Rightarrow> sys \<Rightarrow> int \<times> linkedlist_data \<times> sys" where
  "add_data_loop pre ldi buf \<sigma> =
     (if buf = [] then (ZIP_OK, pre @ [ldi], \<sigma>)
      else if avail_in_this_block ldi = 0 then
        (case allocate_new_datablock \<sigma> of
           (None, \<sigma>) \<Rightarrow> (ZIP_INTERNALERROR, pre @ [ldi], \<sigma>)
         | (Some new, \<sigma>) \<Rightarrow>
             (let copy_this = min (avail_in_this_block new) (length buf)
              in add_data_loop (pre @ [ldi]) (fill_block (take copy_this buf) new) (drop copy_this buf) \<sigma>))
      else
        (let copy_this = min (avail_in_this_block ldi) (length buf)
         in add_data_loop pre (fill_block (take copy_this buf) ldi) (drop copy_this buf) \<sigma>))"
  by pat_completeness auto
termination
  by (relation "measure (\<lambda>(pre, ldi, buf, \<sigma>). length buf)") (auto dest!: sym [THEN allocate_avail])

declare add_data_loop.simps [simp del]

text \<open>\<open>add_data_in_datablock\<close>; a NULL list pointer is \<open>None\<close>.\<close>

definition add_data_in_datablock ::
    "linkedlist_data option \<Rightarrow> byte list \<Rightarrow> sys \<Rightarrow> int \<times> linkedlist_data option \<times> sys" where
  "add_data_in_datablock ll buf \<sigma> =
     (case ll of None \<Rightarrow> (ZIP_INTERNALERROR, None, \<sigma>)
      | Some [] \<Rightarrow>
          (case allocate_new_datablock \<sigma> of
             (None, \<sigma>) \<Rightarrow> (ZIP_INTERNALERROR, Some [], \<sigma>)
           | (Some ldi, \<sigma>) \<Rightarrow> (let (err, ll, \<sigma>) = add_data_loop [] ldi buf \<sigma> in (err, Some ll, \<sigma>)))
      | Some (b # bs) \<Rightarrow>
          (let (err, ll, \<sigma>) = add_data_loop (butlast (b # bs)) (last (b # bs)) buf \<sigma> in (err, Some ll, \<sigma>)))"

section \<open>Refinement of a byte string\<close>

definition block_ok :: "linkedlist_datablock_internal \<Rightarrow> bool" where
  "block_ok b \<longleftrightarrow> filled_in_this_block b = length (bdata b)
     \<and> avail_in_this_block b + filled_in_this_block b = SIZEDATA_INDATABLOCK"

text \<open>Every block is consistent, and all but the last are full.\<close>

definition ll_ok :: "linkedlist_data \<Rightarrow> bool" where
  "ll_ok ll \<longleftrightarrow> (\<forall>b \<in> set ll. block_ok b) \<and> (\<forall>b \<in> set (butlast ll). avail_in_this_block b = 0)"

definition ll_bytes :: "linkedlist_data \<Rightarrow> byte list" where
  "ll_bytes ll = concat (map bdata ll)"

definition ll_size :: "linkedlist_data \<Rightarrow> nat" where
  "ll_size ll = sum_list (map filled_in_this_block ll)"

lemma ll_bytes_simps [simp]:
  "ll_bytes [] = []" "ll_bytes (b # ll) = bdata b @ ll_bytes ll" "ll_bytes (xs @ ys) = ll_bytes xs @ ll_bytes ys"
  by (simp_all add: ll_bytes_def)

lemma ll_size_bytes: "ll_ok ll \<Longrightarrow> ll_size ll = length (ll_bytes ll)"
proof -
  assume "ll_ok ll"
  then have "\<forall>b \<in> set ll. filled_in_this_block b = length (bdata b)" by (auto simp: ll_ok_def block_ok_def)
  then show ?thesis by (induction ll) (auto simp: ll_size_def)
qed

lemma ll_ok_init [simp]: "ll_ok init_linkedlist" "ll_bytes init_linkedlist = []"
  by (simp_all add: ll_ok_def init_linkedlist_def)

lemma ll_ok_snoc: "ll_ok (pre @ [b]) \<longleftrightarrow> (\<forall>c \<in> set pre. block_ok c \<and> avail_in_this_block c = 0) \<and> block_ok b"
  by (auto simp: ll_ok_def)

lemma block_ok_fill: "block_ok b \<Longrightarrow> length bs \<le> avail_in_this_block b \<Longrightarrow> block_ok (fill_block bs b)"
  by (auto simp: block_ok_def fill_block_def)

lemma allocate_block_ok: "allocate_new_datablock \<sigma> = (Some b, \<sigma>') \<Longrightarrow> block_ok b \<and> bdata b = [] \<and> avail_in_this_block b = 4080"
  by (auto simp: allocate_new_datablock_def block_ok_def SIZEDATA_INDATABLOCK_def malloc_def split: if_splits)

lemma bdata_fill [simp]: "bdata (fill_block bs b) = bdata b @ bs"
  by (simp add: fill_block_def)

text \<open>
  Appending keeps the invariant; on success the string grows by exactly the data, and when
  an allocation fails it has grown by a prefix of it.
\<close>

lemma add_data_loop_spec:
  assumes "add_data_loop pre ldi buf \<sigma> = (err, ll, \<sigma>')" "ll_ok (pre @ [ldi])"
  shows "ll_ok ll \<and> (\<exists>p. prefix p buf \<and> ll_bytes ll = ll_bytes (pre @ [ldi]) @ p
    \<and> (if err = ZIP_OK then p = buf else err = ZIP_INTERNALERROR))"
  using assms
proof (induction pre ldi buf \<sigma> rule: add_data_loop.induct)
  case (1 pre ldi buf \<sigma>)
  show ?case
  proof (cases "buf = []")
    case True
    with 1 show ?thesis by (auto simp: add_data_loop.simps)
  next
    case ne: False
    have app: "take k buf @ p' = p \<Longrightarrow> prefix p' (drop k buf) \<Longrightarrow> prefix p buf" for k p p'
      by (metis append_take_drop_id same_prefix_prefix)
    show ?thesis
    proof (cases "avail_in_this_block ldi = 0")
      case full: True
      obtain mb \<sigma>1 where al: "allocate_new_datablock \<sigma> = (mb, \<sigma>1)" by fastforce
      show ?thesis
      proof (cases mb)
        case None
        with 1 ne full al show ?thesis by (auto simp: add_data_loop.simps)
      next
        case (Some new)
        let ?k = "min (avail_in_this_block new) (length buf)"
        have new: "block_ok new" "bdata new = []" "avail_in_this_block new = 4080"
          using allocate_block_ok al Some by auto
        have run: "add_data_loop (pre @ [ldi]) (fill_block (take ?k buf) new) (drop ?k buf) \<sigma>1 = (err, ll, \<sigma>')"
          using "1.prems"(1) ne full al Some new by (simp add: add_data_loop.simps [of pre] Let_def)
        have "ll_ok ((pre @ [ldi]) @ [fill_block (take ?k buf) new])"
          using "1.prems"(2) full new block_ok_fill [OF new(1), of "take ?k buf"]
          unfolding ll_ok_snoc by auto
        from "1.IH"(1) [OF ne full al [symmetric] Some refl run this] ne new
        show ?thesis using app [of ?k] by (fastforce)
      qed
    next
      case False
      let ?k = "min (avail_in_this_block ldi) (length buf)"
      have run: "add_data_loop pre (fill_block (take ?k buf) ldi) (drop ?k buf) \<sigma> = (err, ll, \<sigma>')"
        using "1.prems"(1) ne False by (simp add: add_data_loop.simps [of pre] Let_def)
      have "ll_ok (pre @ [fill_block (take ?k buf) ldi])"
        using "1.prems"(2) block_ok_fill [of ldi "take ?k buf"] by (auto simp: ll_ok_snoc)
      from "1.IH"(2) [OF ne False refl run this]
      show ?thesis using app [of ?k] by (fastforce)
    qed
  qed
qed

lemma add_data_in_datablock_spec:
  assumes "add_data_in_datablock (Some ll) buf \<sigma> = (err, ll', \<sigma>')" "ll_ok ll"
  shows "\<exists>l p. ll' = Some l \<and> ll_ok l \<and> prefix p buf \<and> ll_bytes l = ll_bytes ll @ p
    \<and> (if err = ZIP_OK then p = buf else err = ZIP_INTERNALERROR)"
proof (cases ll)
  case Nil
  obtain mb \<sigma>1 where al: "allocate_new_datablock \<sigma> = (mb, \<sigma>1)" by fastforce
  show ?thesis
  proof (cases mb)
    case None
    with assms al Nil show ?thesis by (auto simp: add_data_in_datablock_def)
  next
    case (Some b)
    obtain l \<sigma>2 where run: "add_data_loop [] b buf \<sigma>1 = (err, l, \<sigma>2)" and l: "ll' = Some l"
      using assms(1) al Nil Some by (auto simp: add_data_in_datablock_def split: prod.splits)
    have "ll_ok ([] @ [b])" and "bdata b = []" using allocate_block_ok al Some by (auto simp: ll_ok_def)
    with add_data_loop_spec [OF run] l Nil show ?thesis by auto
  qed
next
  case (Cons b bs)
  obtain l \<sigma>2 where run: "add_data_loop (butlast ll) (last ll) buf \<sigma> = (err, l, \<sigma>2)" and l: "ll' = Some l"
    using assms(1) Cons by (auto simp: add_data_in_datablock_def split: prod.splits)
  have "butlast ll @ [last ll] = ll" using Cons by simp
  with add_data_loop_spec [OF run] assms(2) l show ?thesis by metis
qed

text \<open>No allocation fails: the append succeeds.\<close>

definition malloc_total :: "sys \<Rightarrow> bool" where
  "malloc_total \<sigma> \<longleftrightarrow> sys_malloc \<sigma> = (\<lambda>k n. True)"

lemma malloc_total_malloc: "malloc_total \<sigma> \<Longrightarrow> \<exists>\<sigma>'. malloc n \<sigma> = (True, \<sigma>') \<and> malloc_total \<sigma>'"
  by (auto simp: malloc_total_def malloc_def)

lemma allocate_total:
  "malloc_total \<sigma> \<Longrightarrow> \<exists>b \<sigma>'. allocate_new_datablock \<sigma> = (Some b, \<sigma>') \<and> malloc_total \<sigma>'"
  by (auto simp: malloc_total_def malloc_def allocate_new_datablock_def)

lemma add_data_loop_total:
  "malloc_total \<sigma> \<Longrightarrow> \<exists>ll \<sigma>'. add_data_loop pre ldi buf \<sigma> = (ZIP_OK, ll, \<sigma>') \<and> malloc_total \<sigma>'"
proof (induction pre ldi buf \<sigma> rule: add_data_loop.induct)
  case (1 pre ldi buf \<sigma>)
  obtain b \<sigma>1 where al: "allocate_new_datablock \<sigma> = (Some b, \<sigma>1)" "malloc_total \<sigma>1"
    using allocate_total [OF "1.prems"] by blast
  show ?case
  proof (cases "buf = [] \<or> avail_in_this_block ldi \<noteq> 0")
    case True
    then show ?thesis using 1 by (cases "buf = []") (auto simp: add_data_loop.simps [of pre] Let_def)
  next
    case False
    then show ?thesis
      using "1.IH"(1) [OF _ _ al(1) [symmetric]] al
      by (auto simp: add_data_loop.simps [of pre] Let_def)
  qed
qed

lemma add_data_in_datablock_total:
  "malloc_total \<sigma> \<Longrightarrow>
   \<exists>l \<sigma>'. add_data_in_datablock (Some ll) buf \<sigma> = (ZIP_OK, Some l, \<sigma>') \<and> malloc_total \<sigma>'"
proof (cases ll)
  case Nil
  assume t: "malloc_total \<sigma>"
  from allocate_total [OF t] obtain b \<sigma>1 where "allocate_new_datablock \<sigma> = (Some b, \<sigma>1)" "malloc_total \<sigma>1" by blast
  with Nil add_data_loop_total [of \<sigma>1 "[]" b buf] show ?thesis by (auto simp: add_data_in_datablock_def)
next
  case (Cons b bs)
  assume t: "malloc_total \<sigma>"
  from Cons add_data_loop_total [OF t, of "butlast (b # bs)" "last (b # bs)" buf] show ?thesis
    by (auto simp: add_data_in_datablock_def)
qed

lemma free_linkedlist_empty [simp]: "free_linkedlist ll = []"
proof -
  have "free_datablock ll = []" by (induction ll) auto
  then show ?thesis by (simp add: free_linkedlist_def)
qed

end
