(* ===== verification/ZipState.thy ===== *)
theory ZipState
  imports ZipBytes DataBlocks Zlib
begin

text \<open>
  The state of an archive being written (\<open>zip64_internal\<close> and \<open>curfile64_info\<close> of
  \<open>zip.c\<close>, \<open>tm_zip\<close> and \<open>zip_fileinfo\<close> of \<open>zip.h\<close>), the DOS date, the
  local file header and the start of a new entry.
\<close>

definition VERSIONMADEBY :: uLong where "VERSIONMADEBY = 0"
definition Z_BUFSIZE :: nat where "Z_BUFSIZE = 64 * 1024"
definition LOCALHEADERMAGIC :: uLong where [simp]: "LOCALHEADERMAGIC = 0x04034b50"
definition CENTRALHEADERMAGIC :: uLong where [simp]: "CENTRALHEADERMAGIC = 0x02014b50"
definition ENDHEADERMAGIC :: uLong where [simp]: "ENDHEADERMAGIC = 0x06054b50"
definition ZIP64ENDHEADERMAGIC :: uLong where [simp]: "ZIP64ENDHEADERMAGIC = 0x06064b50"
definition ZIP64ENDLOCHEADERMAGIC :: uLong where [simp]: "ZIP64ENDLOCHEADERMAGIC = 0x07064b50"
definition SIZECENTRALHEADER :: nat where [simp]: "SIZECENTRALHEADER = 0x2e"

section \<open>State\<close>

record tm_zip =
  tm_sec :: uInt
  tm_min :: uInt
  tm_hour :: uInt
  tm_mday :: uInt
  tm_mon :: uInt
  tm_year :: uInt

record zip_fileinfo =
  tmz_date :: tm_zip
  dosDate :: uLong
  internal_fa :: uLong
  external_fa :: uLong

text \<open>
  The entry being written. \<open>buffered_data\<close> is an array of \<open>Z_BUFSIZE\<close> bytes;
  \<open>central_header\<close> is the allocated header with its 32 spare bytes.
\<close>

record 'z curfile64_info =
  ci_stream :: "'z z_stream"
  ci_stream_initialised :: int
  ci_pos_in_buffered_data :: nat
  ci_pos_local_header :: ZPOS64_T
  ci_central_header :: "byte list"
  ci_size_centralExtra :: uLong
  ci_size_centralheader :: uLong
  ci_size_centralExtraFree :: uLong
  ci_flag :: uLong
  ci_method :: int
  ci_raw :: int
  ci_buffered_data :: "nat \<Rightarrow> byte"
  ci_dosDate :: uLong
  ci_crc32 :: uLong
  ci_encrypt :: int
  ci_zip64 :: int
  ci_pos_zip64extrainfo :: ZPOS64_T
  ci_totalCompressedData :: ZPOS64_T
  ci_totalUncompressedData :: ZPOS64_T
  ci_keys :: zkeys
  ci_pcrc_32_tab :: crctab
  ci_crypt_header_size :: int

record ('w, 'z) zip64_internal =
  zi_filefunc :: "'w zlib_filefunc64_32_def"
  zi_filestream :: voidpf
  zi_central_dir :: linkedlist_data
  zi_in_opened_file_inzip :: int
  zi_ci :: "'z curfile64_info"
  zi_begin_pos :: ZPOS64_T
  zi_add_position :: ZPOS64_T
  zi_number_entry :: ZPOS64_T
  zi_globalcomment :: "byte list option"

section \<open>DOS dates\<close>

definition zip64local_TmzDateToDosDate :: "tm_zip \<Rightarrow> uLong" where
  "zip64local_TmzDateToDosDate ptm =
     (let year = (ucast (tm_year ptm) :: uLong);
          year = (if year \<ge> 1980 then year - 1980 else if year \<ge> 80 then year - 80 else year)
      in push_bit 16 (ucast (tm_mday ptm + 32 * (tm_mon ptm + 1)) + 512 * year)
         OR (ucast (tm_sec ptm div 2 + 32 * tm_min ptm) + 2048 * ucast (tm_hour ptm)))"

section \<open>The local file header\<close>

text \<open>\<open>if (size > 0) if (ZWRITE64(buf, size) != size) err = ZIP_ERRNO\<close>\<close>

definition zip_write_bytes ::
    "'w zlib_filefunc64_32_def \<Rightarrow> voidpf \<Rightarrow> byte list \<Rightarrow> 'w \<Rightarrow> int \<times> 'w" where
  "zip_write_bytes ff filestream buf w =
     (if buf = [] then (ZIP_OK, w)
      else (let (n, w) = ZWRITE64 ff filestream buf w
            in (if n \<noteq> of_nat (length buf) then ZIP_ERRNO else ZIP_OK, w)))"

text \<open>
  In the ZIP64 block at the end each result overwrites the one before, so that only the
  last write decides.
\<close>

definition Write_LocalFileHeader ::
    "('w, 'z) zip64_internal \<Rightarrow> byte list \<Rightarrow> byte list \<Rightarrow> 'w \<Rightarrow> int \<times> ('w, 'z) zip64_internal \<times> 'w" where
  "Write_LocalFileHeader zi filename extrafield_local w =
     (let ci = zi_ci zi;
          put = zip64local_putValue (zi_filefunc zi) (zi_filestream zi);
          size_filename = of_nat (length filename);
          size_extrafield = of_nat (length extrafield_local) + (if ci_zip64 ci \<noteq> 0 then 20 else 0);
          (err, w) = run_ok
            [put LOCALHEADERMAGIC 4,
             put (if ci_zip64 ci \<noteq> 0 then 45 else 20) 2,
             put (ci_flag ci) 2,
             put (of_int (ci_method ci)) 2,
             put (ci_dosDate ci) 4,
             put 0 4,
             put (if ci_zip64 ci \<noteq> 0 then 0xFFFFFFFF else 0) 4,
             put (if ci_zip64 ci \<noteq> 0 then 0xFFFFFFFF else 0) 4,
             put size_filename 2,
             put size_extrafield 2,
             zip_write_bytes (zi_filefunc zi) (zi_filestream zi) filename,
             zip_write_bytes (zi_filefunc zi) (zi_filestream zi) extrafield_local] w
      in if err = ZIP_OK \<and> ci_zip64 ci \<noteq> 0 then
           (let (pos, w) = ZTELL64 (zi_filefunc zi) (zi_filestream zi) w;
                zi = zi\<lparr>zi_ci := ci\<lparr>ci_pos_zip64extrainfo := pos\<rparr>\<rparr>;
                (err, w) = put 1 2 w;
                (err, w) = put 16 2 w;
                (err, w) = put 0 8 w;
                (err, w) = put 0 8 w
            in (err, zi, w))
         else (err, zi, w))"

section \<open>The write buffer\<close>

definition zip64FlushWriteBuffer ::
    "('w, 'z) zip64_internal \<Rightarrow> 'w \<Rightarrow> int \<times> ('w, 'z) zip64_internal \<times> 'w" where
  "zip64FlushWriteBuffer zi w =
     (let ci = zi_ci zi;
          pos = ci_pos_in_buffered_data ci;
          ci = (if ci_encrypt ci \<noteq> 0 then
                  (let (bs, keys) = zencode_buf (ci_pcrc_32_tab ci) (buf_take pos (ci_buffered_data ci)) (ci_keys ci)
                   in ci\<lparr>ci_buffered_data := buf_write 0 bs (ci_buffered_data ci), ci_keys := keys\<rparr>)
                else ci);
          (n, w) = ZWRITE64 (zi_filefunc zi) (zi_filestream zi) (buf_take pos (ci_buffered_data ci)) w;
          err = (if n \<noteq> of_nat pos then ZIP_ERRNO else ZIP_OK);
          ci = ci\<lparr>ci_totalCompressedData := ci_totalCompressedData ci + of_nat pos,
                  ci_totalUncompressedData := ci_totalUncompressedData ci + total_in (ci_stream ci),
                  ci_stream := (ci_stream ci)\<lparr>total_in := 0\<rparr>,
                  ci_pos_in_buffered_data := 0\<rparr>
      in (err, zi\<lparr>zi_ci := ci\<rparr>, w))"

text \<open>
  \<open>if (avail_out == 0)\<close>: flush, and point \<open>next_out\<close> at the start of the buffer
  again. A failed flush sets \<open>err\<close>.
\<close>

definition zip_refill ::
    "int \<Rightarrow> ('w, 'z) zip64_internal \<Rightarrow> 'w \<Rightarrow> int \<times> ('w, 'z) zip64_internal \<times> 'w" where
  "zip_refill err zi w =
     (if avail_out (ci_stream (zi_ci zi)) = 0 then
        (let (e, zi, w) = zip64FlushWriteBuffer zi w;
             err = (if e = ZIP_ERRNO then ZIP_ERRNO else err);
             ci = zi_ci zi;
             ci = ci\<lparr>ci_stream := (ci_stream ci)\<lparr>avail_out := Z_BUFSIZE, next_out := 0\<rparr>\<rparr>
         in (err, zi\<lparr>zi_ci := ci\<rparr>, w))
      else (err, zi, w))"

text \<open>A call of \<open>deflate\<close>: its output lands in the buffer, and the fill count grows with \<open>total_out\<close>.\<close>

definition zip_deflate_step :: "'z zlib \<Rightarrow> int \<Rightarrow> 'z curfile64_info \<Rightarrow> int \<times> 'z curfile64_info" where
  "zip_deflate_step Z flush ci =
     (let uTotalOutBefore = total_out (ci_stream ci);
          (err, bs, strm) = zl_deflate Z (ci_stream ci) flush
      in (err, ci\<lparr>ci_buffered_data := buf_write (next_out (ci_stream ci)) bs (ci_buffered_data ci),
                  ci_stream := strm,
                  ci_pos_in_buffered_data := ci_pos_in_buffered_data ci
                    + unat (ucast (total_out strm - uTotalOutBefore) :: uInt)\<rparr>))"

text \<open>The stored (or raw) case: copy what fits.\<close>

definition zip_copy_step :: "'z curfile64_info \<Rightarrow> 'z curfile64_info" where
  "zip_copy_step ci =
     (let strm = ci_stream ci;
          copy_this = (if avail_in strm < avail_out strm then avail_in strm else avail_out strm)
      in ci\<lparr>ci_buffered_data := buf_write (next_out strm) (take copy_this (next_in strm)) (ci_buffered_data ci),
            ci_stream := strm\<lparr>next_in := drop copy_this (next_in strm),
                              avail_out := avail_out strm - copy_this,
                              next_out := next_out strm + copy_this,
                              total_in := total_in strm + of_nat copy_this,
                              total_out := total_out strm + of_nat copy_this\<rparr>,
            ci_pos_in_buffered_data := ci_pos_in_buffered_data ci + copy_this\<rparr>)"

text \<open>The loop of \<open>zipWriteInFileInZip\<close>; \<open>None\<close> is a run that does not end.\<close>

partial_function (option) zip_write_loop ::
    "'z zlib \<Rightarrow> int \<Rightarrow> ('w, 'z) zip64_internal \<Rightarrow> 'w \<Rightarrow> (int \<times> ('w, 'z) zip64_internal \<times> 'w) option" where
  "zip_write_loop Z err zi w =
     (if err = ZIP_OK \<and> avail_in (ci_stream (zi_ci zi)) > 0 then
        (let (err, zi, w) = zip_refill err zi w in
         if err \<noteq> ZIP_OK then Some (err, zi, w)
         else
           (let ci = zi_ci zi;
                (err, ci) = (if ci_method ci = Z_DEFLATED \<and> ci_raw ci = 0 then zip_deflate_step Z Z_NO_FLUSH ci
                             else (err, zip_copy_step ci))
            in zip_write_loop Z err (zi\<lparr>zi_ci := ci\<rparr>) w))
      else Some (err, zi, w))"

definition zipWriteInFileInZip ::
    "'z zlib \<Rightarrow> ('w, 'z) zip64_internal option \<Rightarrow> byte list \<Rightarrow> 'w
     \<Rightarrow> (int \<times> ('w, 'z) zip64_internal option \<times> 'w) option" where
  "zipWriteInFileInZip Z file buf w =
     (case file of None \<Rightarrow> Some (ZIP_PARAMERROR, None, w)
      | Some zi \<Rightarrow>
          if zi_in_opened_file_inzip zi = 0 then Some (ZIP_PARAMERROR, Some zi, w)
          else
            (let ci = zi_ci zi;
                 ci = ci\<lparr>ci_crc32 := zl_crc32 Z (ci_crc32 ci) buf,
                         ci_stream := (ci_stream ci)\<lparr>next_in := buf\<rparr>\<rparr>
             in map_option (\<lambda>(err, zi, w). (err, Some zi, w))
                  (zip_write_loop Z ZIP_OK (zi\<lparr>zi_ci := ci\<rparr>) w)))"

end
