(* ===== verification/ZipWrite.thy ===== *)
theory ZipWrite
  imports ZipState
begin

text \<open>
  What writing entry data does (\<open>zipWriteInFileInZip\<close> and \<open>zip64FlushWriteBuffer\<close>):
  the buffer invariant, and the refinement of the buffered, possibly encrypted writer by a
  plain append to the data of the entry.
\<close>

section \<open>The buffer\<close>

lemma length_buf_take [simp]: "length (buf_take n f) = n"
  by (simp add: buf_take_def)

lemma nth_buf_take [simp]: "i < n \<Longrightarrow> buf_take n f ! i = f i"
  by (simp add: buf_take_def)

lemma buf_take_0 [simp]: "buf_take 0 f = []"
  by (simp add: buf_take_def)

lemma buf_take_write: "n = p + length bs \<Longrightarrow> buf_take n (buf_write p bs f) = buf_take p f @ bs"
  by (rule nth_equalityI) (auto simp: buf_write_def nth_append)

lemma buf_take_write0: "n = length bs \<Longrightarrow> buf_take n (buf_write 0 bs f) = bs"
  using buf_take_write [of n 0 bs f] by simp

text \<open>
  The fill count is the number of bytes before \<open>next_out\<close>, and with \<open>avail_out\<close> it
  makes up the buffer.
\<close>

definition buf_ok :: "'z curfile64_info \<Rightarrow> bool" where
  "buf_ok ci \<longleftrightarrow> ci_pos_in_buffered_data ci + avail_out (ci_stream ci) = Z_BUFSIZE
     \<and> next_out (ci_stream ci) = ci_pos_in_buffered_data ci"

definition pending :: "'z curfile64_info \<Rightarrow> byte list" where
  "pending ci = buf_take (ci_pos_in_buffered_data ci) (ci_buffered_data ci)"

lemma length_pending [simp]: "length (pending ci) = ci_pos_in_buffered_data ci"
  by (simp add: pending_def)

lemma pending_empty: "ci_pos_in_buffered_data ci = 0 \<Longrightarrow> pending ci = []"
  by (simp add: pending_def)

section \<open>What will be in the file\<close>

text \<open>Data as it is stored: encrypted with the current keys, for an entry with a password.\<close>

definition enc_bytes :: "'z curfile64_info \<Rightarrow> byte list \<Rightarrow> byte list" where
  "enc_bytes ci bs = (if ci_encrypt ci \<noteq> 0 then fst (zencode_buf (ci_pcrc_32_tab ci) bs (ci_keys ci)) else bs)"

definition enc_keys :: "'z curfile64_info \<Rightarrow> byte list \<Rightarrow> zkeys" where
  "enc_keys ci bs = (if ci_encrypt ci \<noteq> 0 then snd (zencode_buf (ci_pcrc_32_tab ci) bs (ci_keys ci)) else ci_keys ci)"

lemma length_enc_bytes [simp]: "length (enc_bytes ci bs) = length bs"
  by (simp add: enc_bytes_def)

lemma enc_bytes_Nil [simp]: "enc_bytes ci [] = []"
  by (simp add: enc_bytes_def)

text \<open>The same entry, except for what writing data changes.\<close>

definition same_entry :: "'z curfile64_info \<Rightarrow> 'z curfile64_info \<Rightarrow> bool" where
  "same_entry ci ci' \<longleftrightarrow>
     ci' = ci\<lparr>ci_stream := ci_stream ci', ci_pos_in_buffered_data := ci_pos_in_buffered_data ci',
             ci_buffered_data := ci_buffered_data ci', ci_keys := ci_keys ci',
             ci_totalCompressedData := ci_totalCompressedData ci',
             ci_totalUncompressedData := ci_totalUncompressedData ci'\<rparr>
     \<and> data_type (ci_stream ci') = data_type (ci_stream ci)"

lemma same_entry_refl [simp]: "same_entry ci ci"
  by (simp add: same_entry_def)

lemma same_entry_trans: "same_entry a b \<Longrightarrow> same_entry b c \<Longrightarrow> same_entry a c"
  unfolding same_entry_def by (cases a, cases b, cases c) simp

lemma same_entry_sel:
  assumes "same_entry ci ci'"
  shows "ci_method ci' = ci_method ci" "ci_raw ci' = ci_raw ci" "ci_encrypt ci' = ci_encrypt ci"
    "ci_pcrc_32_tab ci' = ci_pcrc_32_tab ci" "ci_crypt_header_size ci' = ci_crypt_header_size ci"
    "ci_central_header ci' = ci_central_header ci" "ci_pos_local_header ci' = ci_pos_local_header ci"
    "ci_crc32 ci' = ci_crc32 ci" "ci_size_centralheader ci' = ci_size_centralheader ci"
    "ci_size_centralExtraFree ci' = ci_size_centralExtraFree ci" "ci_size_centralExtra ci' = ci_size_centralExtra ci"
    "ci_pos_zip64extrainfo ci' = ci_pos_zip64extrainfo ci" "ci_zip64 ci' = ci_zip64 ci"
    "ci_flag ci' = ci_flag ci" "ci_dosDate ci' = ci_dosDate ci"
    "data_type (ci_stream ci') = data_type (ci_stream ci)"
  using assms unfolding same_entry_def by (cases ci, cases ci', simp)+

text \<open>
  The contents of the archive file once the buffer is flushed and \<open>xs\<close> is written after
  it, and the running sizes.
\<close>

definition out :: "stream \<Rightarrow> 'z curfile64_info \<Rightarrow> byte list \<Rightarrow> byte list" where
  "out s ci xs = s_data s @ enc_bytes ci (pending ci @ xs)"

definition size_c :: "'z curfile64_info \<Rightarrow> ZPOS64_T" where
  "size_c ci = ci_totalCompressedData ci + of_nat (ci_pos_in_buffered_data ci)"

definition size_u :: "'z curfile64_info \<Rightarrow> ZPOS64_T" where
  "size_u ci = ci_totalUncompressedData ci + total_in (ci_stream ci)"

text \<open>A stream that is written at its end.\<close>

definition at_end :: "stream \<Rightarrow> bool" where
  "at_end s \<longleftrightarrow> s_wr s \<and> s_pos s = length (s_data s)"

lemma at_end_write [simp]: "at_end s \<Longrightarrow> at_end (s_write bs s)"
  by (simp add: at_end_def s_write_def overwrite_end)

lemma at_end_data: "at_end s \<Longrightarrow> s_data (s_write bs s) = s_data s @ bs"
  by (simp add: at_end_def s_write_def overwrite_end)

section \<open>Flushing\<close>

definition flushed :: "'z curfile64_info \<Rightarrow> 'z curfile64_info" where
  "flushed ci =
     ci\<lparr>ci_buffered_data := (if ci_encrypt ci \<noteq> 0 then buf_write 0 (enc_bytes ci (pending ci)) (ci_buffered_data ci)
                            else ci_buffered_data ci),
        ci_keys := enc_keys ci (pending ci),
        ci_totalCompressedData := size_c ci,
        ci_totalUncompressedData := size_u ci,
        ci_stream := (ci_stream ci)\<lparr>total_in := 0\<rparr>,
        ci_pos_in_buffered_data := 0\<rparr>"

lemma flush_eq:
  "zip64FlushWriteBuffer zi w =
     (let (n, w) = ZWRITE64 (zi_filefunc zi) (zi_filestream zi) (enc_bytes (zi_ci zi) (pending (zi_ci zi))) w
      in (if n \<noteq> of_nat (ci_pos_in_buffered_data (zi_ci zi)) then ZIP_ERRNO else ZIP_OK,
          zi\<lparr>zi_ci := flushed (zi_ci zi)\<rparr>, w))"
proof (cases "ci_encrypt (zi_ci zi) = 0")
  case True
  then show ?thesis
    by (simp add: zip64FlushWriteBuffer_def flushed_def enc_bytes_def enc_keys_def size_c_def size_u_def
        pending_def Let_def case_prod_beta)
next
  case False
  let ?ci = "zi_ci zi"
  obtain bs keys where e: "zencode_buf (ci_pcrc_32_tab ?ci) (pending ?ci) (ci_keys ?ci) = (bs, keys)" by fastforce
  then have "length bs = ci_pos_in_buffered_data ?ci" by (metis fst_conv length_pending length_zencode_buf)
  then have "buf_take (ci_pos_in_buffered_data ?ci) (buf_write 0 bs (ci_buffered_data ?ci)) = bs"
    by (simp add: buf_take_write0)
  with False e show ?thesis
    by (simp add: zip64FlushWriteBuffer_def flushed_def enc_bytes_def enc_keys_def size_c_def size_u_def
        pending_def Let_def case_prod_beta)
qed

lemma flushed_sel [simp]:
  "ci_pos_in_buffered_data (flushed ci) = 0" "pending (flushed ci) = []"
  "next_in (ci_stream (flushed ci)) = next_in (ci_stream ci)"
  "avail_out (ci_stream (flushed ci)) = avail_out (ci_stream ci)"
  "next_out (ci_stream (flushed ci)) = next_out (ci_stream ci)"
  "size_c (flushed ci) = size_c ci" "size_u (flushed ci) = size_u ci"
  "ci_encrypt (flushed ci) = ci_encrypt ci"
  by (simp_all add: flushed_def size_c_def size_u_def pending_def)

lemma same_entry_flushed: "same_entry ci (flushed ci)"
  by (simp add: same_entry_def flushed_def)

lemma enc_flushed: "enc_bytes ci (pending ci @ xs) = enc_bytes ci (pending ci) @ enc_bytes (flushed ci) xs"
  by (simp add: enc_bytes_def enc_keys_def flushed_def zencode_buf_append case_prod_beta)

lemma out_flushed: "at_end s \<Longrightarrow> out (s_write (enc_bytes ci (pending ci)) s) (flushed ci) xs = out s ci xs"
  by (simp add: out_def at_end_data enc_flushed)

text \<open>Resetting \<open>next_out\<close> and \<open>avail_out\<close> after a flush.\<close>

definition rewound :: "'z curfile64_info \<Rightarrow> 'z curfile64_info" where
  "rewound ci = ci\<lparr>ci_stream := (ci_stream ci)\<lparr>avail_out := Z_BUFSIZE, next_out := 0\<rparr>\<rparr>"

lemma rewound_sel [simp]:
  "ci_pos_in_buffered_data (rewound ci) = ci_pos_in_buffered_data ci" "pending (rewound ci) = pending ci"
  "next_in (ci_stream (rewound ci)) = next_in (ci_stream ci)"
  "size_c (rewound ci) = size_c ci" "size_u (rewound ci) = size_u ci"
  "enc_bytes (rewound ci) = enc_bytes ci" "out s (rewound ci) = out s ci"
  "avail_out (ci_stream (rewound ci)) = Z_BUFSIZE"
  by (simp_all add: rewound_def size_c_def size_u_def pending_def enc_bytes_def out_def fun_eq_iff)

lemma same_entry_rewound: "same_entry ci (rewound ci)"
  by (simp add: same_entry_def rewound_def)

lemma buf_ok_rewound: "ci_pos_in_buffered_data ci = 0 \<Longrightarrow> buf_ok (rewound ci)"
  by (simp add: buf_ok_def rewound_def)

section \<open>The stored case\<close>

text \<open>Without a compressor, what was taken since the last flush is what is in the buffer.\<close>

definition stored :: "'z curfile64_info \<Rightarrow> bool" where
  "stored ci \<longleftrightarrow> \<not> (ci_method ci = Z_DEFLATED \<and> ci_raw ci = 0)
     \<and> total_in (ci_stream ci) = of_nat (ci_pos_in_buffered_data ci)"

definition copied :: "nat \<Rightarrow> 'z curfile64_info \<Rightarrow> 'z curfile64_info" where
  "copied k ci =
     ci\<lparr>ci_buffered_data := buf_write (next_out (ci_stream ci)) (take k (next_in (ci_stream ci))) (ci_buffered_data ci),
        ci_stream := (ci_stream ci)\<lparr>next_in := drop k (next_in (ci_stream ci)),
                                    avail_out := avail_out (ci_stream ci) - k,
                                    next_out := next_out (ci_stream ci) + k,
                                    total_in := total_in (ci_stream ci) + of_nat k,
                                    total_out := total_out (ci_stream ci) + of_nat k\<rparr>,
        ci_pos_in_buffered_data := ci_pos_in_buffered_data ci + k\<rparr>"

lemma copy_step_eq: "zip_copy_step ci = copied (min (avail_in (ci_stream ci)) (avail_out (ci_stream ci))) ci"
  by (auto simp: zip_copy_step_def copied_def Let_def min_def)

lemma pending_copied:
  assumes "buf_ok ci" "k \<le> avail_in (ci_stream ci)"
  shows "pending (copied k ci) = pending ci @ take k (next_in (ci_stream ci))"
proof -
  have "buf_take (ci_pos_in_buffered_data ci + k)
      (buf_write (ci_pos_in_buffered_data ci) (take k (next_in (ci_stream ci))) (ci_buffered_data ci))
      = buf_take (ci_pos_in_buffered_data ci) (ci_buffered_data ci) @ take k (next_in (ci_stream ci))"
    using assms(2) by (intro buf_take_write) simp
  with assms(1) show ?thesis by (simp add: pending_def copied_def buf_ok_def)
qed

lemma copied_simps:
  "next_in (ci_stream (copied k ci)) = drop k (next_in (ci_stream ci))"
  "same_entry ci (copied k ci)"
  "size_c (copied k ci) = size_c ci + of_nat k"
  "size_u (copied k ci) = size_u ci + of_nat k"
  "enc_bytes (copied k ci) = enc_bytes ci"
  by (simp_all add: copied_def same_entry_def size_c_def size_u_def enc_bytes_def fun_eq_iff)

lemma stored_steps: "stored ci \<Longrightarrow> stored (rewound (flushed ci))" "stored ci \<Longrightarrow> stored (copied k ci)"
  by (simp_all add: stored_def rewound_def flushed_def copied_def)

lemma copy_step:
  assumes "buf_ok ci" "0 < avail_out (ci_stream ci)" "next_in (ci_stream ci) \<noteq> []"
  obtains k where "0 < k" "k \<le> avail_in (ci_stream ci)" "zip_copy_step ci = copied k ci" "buf_ok (copied k ci)"
proof
  show "buf_ok (copied (min (avail_in (ci_stream ci)) (avail_out (ci_stream ci))) ci)"
    using assms(1) by (auto simp: buf_ok_def copied_def)
qed (use assms in \<open>auto simp: copy_step_eq\<close>)

context filefunc
begin

lemma flush_ok:
  assumes "zi_filefunc zi = ff" "fetch w (zi_filestream zi) = Some s" "at_end s"
    "length (out s (zi_ci zi) []) \<le> limit w"
  shows "zip64FlushWriteBuffer zi w = (ZIP_OK, zi\<lparr>zi_ci := flushed (zi_ci zi)\<rparr>,
      store (zi_filestream zi) (s_write (enc_bytes (zi_ci zi) (pending (zi_ci zi))) s) w)"
proof -
  have "s_pos s + length (enc_bytes (zi_ci zi) (pending (zi_ci zi))) \<le> limit w"
    using assms(3,4) by (simp add: at_end_def out_def)
  with assms show ?thesis
    by (simp add: flush_eq io_write at_end_def del: length_enc_bytes length_pending) simp
qed

text \<open>\<open>zip_refill\<close> leaves room in the buffer and does not change what will be in the file.\<close>

lemma refill_ok:
  assumes "zi_filefunc zi = ff" "fetch w (zi_filestream zi) = Some s" "at_end s" "buf_ok (zi_ci zi)"
    "length (out s (zi_ci zi) xs) \<le> limit w"
  shows "\<exists>ci s' w'. zip_refill err zi w = (err, zi\<lparr>zi_ci := ci\<rparr>, w')
    \<and> fetch w' (zi_filestream zi) = Some s' \<and> at_end s' \<and> limit w' = limit w \<and> s_rd s' = s_rd s \<and> s_err s' = s_err s
    \<and> w' = store (zi_filestream zi) s' w
    \<and> buf_ok ci \<and> 0 < avail_out (ci_stream ci) \<and> same_entry (zi_ci zi) ci
    \<and> next_in (ci_stream ci) = next_in (ci_stream (zi_ci zi))
    \<and> (\<forall>xs. out s' ci xs = out s (zi_ci zi) xs)
    \<and> size_c ci = size_c (zi_ci zi) \<and> size_u ci = size_u (zi_ci zi) \<and> (stored (zi_ci zi) \<longrightarrow> stored ci)"
proof (cases "avail_out (ci_stream (zi_ci zi)) = 0")
  case False
  then show ?thesis using assms store_fetch [OF assms(2)]
    by (intro exI [of _ "zi_ci zi"] exI [of _ s] exI [of _ w]) (simp add: zip_refill_def)
next
  case True
  let ?ci = "rewound (flushed (zi_ci zi))"
  let ?s = "s_write (enc_bytes (zi_ci zi) (pending (zi_ci zi))) s"
  let ?w = "store (zi_filestream zi) ?s w"
  have "length (out s (zi_ci zi) []) \<le> limit w" using assms(5) by (simp add: out_def)
  note fl = flush_ok [OF assms(1-3) this]
  have "zip_refill err zi w = (err, zi\<lparr>zi_ci := ?ci\<rparr>, ?w)"
    using True fl by (simp add: zip_refill_def rewound_def Let_def)
  moreover have "same_entry (zi_ci zi) ?ci"
    by (rule same_entry_trans [OF same_entry_flushed same_entry_rewound])
  moreover have "buf_ok ?ci" by (rule buf_ok_rewound) simp
  moreover have "\<forall>xs. out ?s ?ci xs = out s (zi_ci zi) xs" by (simp add: out_flushed [OF assms(3)])
  ultimately show ?thesis using assms fetch_store [OF assms(2)]
    by (intro exI [of _ ?ci] exI [of _ ?s] exI [of _ ?w]) (simp add: limit_store Z_BUFSIZE_def stored_steps)
qed

text \<open>
  The loop of \<open>zipWriteInFileInZip\<close> on a stored entry ends, succeeds, and has the effect
  of appending the data.
\<close>

lemma write_loop_stored:
  assumes "zi_filefunc zi = ff" "fetch w (zi_filestream zi) = Some s" "at_end s" "buf_ok (zi_ci zi)"
    "stored (zi_ci zi)" "length (out s (zi_ci zi) (next_in (ci_stream (zi_ci zi)))) \<le> limit w"
  shows "\<exists>ci s' w'. zip_write_loop Z ZIP_OK zi w = Some (ZIP_OK, zi\<lparr>zi_ci := ci\<rparr>, w')
    \<and> fetch w' (zi_filestream zi) = Some s' \<and> at_end s' \<and> limit w' = limit w \<and> s_rd s' = s_rd s \<and> s_err s' = s_err s
    \<and> w' = store (zi_filestream zi) s' w
    \<and> buf_ok ci \<and> stored ci \<and> same_entry (zi_ci zi) ci \<and> next_in (ci_stream ci) = []
    \<and> (\<forall>xs. out s' ci xs = out s (zi_ci zi) (next_in (ci_stream (zi_ci zi)) @ xs))
    \<and> size_c ci = size_c (zi_ci zi) + of_nat (avail_in (ci_stream (zi_ci zi)))
    \<and> size_u ci = size_u (zi_ci zi) + of_nat (avail_in (ci_stream (zi_ci zi)))"
  using assms
proof (induction "avail_in (ci_stream (zi_ci zi))" arbitrary: zi w s rule: less_induct)
  case less
  let ?h = "zi_filestream zi" and ?ci = "zi_ci zi" and ?in = "next_in (ci_stream (zi_ci zi))"
  show ?case
  proof (cases "?in = []")
    case True
    then show ?thesis using less.prems store_fetch [OF less.prems(2)]
      by (intro exI [of _ ?ci] exI [of _ s] exI [of _ w]) (simp add: zip_write_loop.simps [of Z _ zi])
  next
    case False
    obtain ci1 s1 w1 where r: "zip_refill 0 zi w = (0, zi\<lparr>zi_ci := ci1\<rparr>, w1)"
      "fetch w1 ?h = Some s1" "at_end s1" "limit w1 = limit w" "s_rd s1 = s_rd s" "s_err s1 = s_err s"
      "w1 = store ?h s1 w"
      "buf_ok ci1" "0 < avail_out (ci_stream ci1)" "same_entry ?ci ci1" "next_in (ci_stream ci1) = ?in"
      "\<forall>xs. out s1 ci1 xs = out s ?ci xs" "size_c ci1 = size_c ?ci" "size_u ci1 = size_u ?ci"
      "stored ci1"
      using refill_ok [OF less.prems(1-4,6), of 0] less.prems(5) by blast
    obtain k where k0: "0 < k" "k \<le> length ?in" "zip_copy_step ci1 = copied k ci1" "buf_ok (copied k ci1)"
      using copy_step [OF r(8,9)] r(11) False by metis
    let ?ci2 = "copied k ci1"
    let ?zi2 = "zi\<lparr>zi_ci := ?ci2\<rparr>"
    note k = k0(1,2) copied_simps(1) [of k ci1, unfolded r(11)] pending_copied [OF r(8), of k, unfolded r(11), OF k0(2)]
      k0(4) copied_simps(2) [of ci1 k] copied_simps(3-5) [of k ci1]
    have out2: "out s1 ?ci2 xs = out s ?ci (take k ?in @ xs)" for xs
    proof -
      have "out s1 ?ci2 xs = out s1 ci1 (take k ?in @ xs)" by (simp add: out_def k(4,9))
      with r(12) show ?thesis by simp
    qed
    have st: "stored ci1" by (rule r(15))
    have loop: "zip_write_loop Z ZIP_OK zi w = zip_write_loop Z ZIP_OK ?zi2 w1"
      using False r(1) st by (auto simp: zip_write_loop.simps [of Z _ zi] stored_def Let_def k0(3))
    have "\<exists>ci s' w'. zip_write_loop Z ZIP_OK ?zi2 w1 = Some (ZIP_OK, ?zi2\<lparr>zi_ci := ci\<rparr>, w')
      \<and> fetch w' (zi_filestream ?zi2) = Some s' \<and> at_end s' \<and> limit w' = limit w1 \<and> s_rd s' = s_rd s1
      \<and> s_err s' = s_err s1 \<and> w' = store (zi_filestream ?zi2) s' w1
      \<and> buf_ok ci \<and> stored ci \<and> same_entry (zi_ci ?zi2) ci \<and> next_in (ci_stream ci) = []
      \<and> (\<forall>xs. out s' ci xs = out s1 (zi_ci ?zi2) (next_in (ci_stream (zi_ci ?zi2)) @ xs))
      \<and> size_c ci = size_c (zi_ci ?zi2) + of_nat (avail_in (ci_stream (zi_ci ?zi2)))
      \<and> size_u ci = size_u (zi_ci ?zi2) + of_nat (avail_in (ci_stream (zi_ci ?zi2)))"
    proof (rule less.hyps)
      show "avail_in (ci_stream (zi_ci ?zi2)) < length ?in" using k(1-3) by simp
      show "stored (zi_ci ?zi2)" using st by (simp add: stored_steps)
      show "length (out s1 (zi_ci ?zi2) (next_in (ci_stream (zi_ci ?zi2)))) \<le> limit w1"
        using less.prems(6) r(4) k(3) out2 [of "drop k ?in"] by simp
    qed (use less.prems r k in simp_all)
    then obtain ci s' w' where f: "zip_write_loop Z ZIP_OK ?zi2 w1 = Some (ZIP_OK, ?zi2\<lparr>zi_ci := ci\<rparr>, w')"
      "fetch w' ?h = Some s'" "at_end s'" "limit w' = limit w1" "s_rd s' = s_rd s1" "s_err s' = s_err s1"
      "w' = store ?h s' w1" "buf_ok ci" "same_entry ?ci2 ci" "stored ci"
      "next_in (ci_stream ci) = []" "\<forall>xs. out s' ci xs = out s1 ?ci2 (drop k ?in @ xs)"
      "size_c ci = size_c ?ci2 + of_nat (length (drop k ?in))" "size_u ci = size_u ?ci2 + of_nat (length (drop k ?in))"
      by (auto simp: k(3))
    have sz: "of_nat k + (of_nat (length (drop k ?in)) :: 64 word) = of_nat (length ?in)"
      using k(2) by (simp flip: of_nat_add)
    have "same_entry ?ci ci" by (rule same_entry_trans [OF r(10) same_entry_trans [OF k(6) f(9)]])
    moreover have "\<forall>xs. out s' ci xs = out s ?ci (?in @ xs)"
    proof
      fix xs
      have "out s' ci xs = out s ?ci (take k ?in @ drop k ?in @ xs)" by (simp only: f(12) out2)
      then show "out s' ci xs = out s ?ci (?in @ xs)" by (metis append.assoc append_take_drop_id)
    qed
    moreover have "size_c ci = size_c ?ci + of_nat (length ?in)" "size_u ci = size_u ?ci + of_nat (length ?in)"
      using f(13,14) k(7,8) r(13,14) sz by (simp_all only: add.assoc)
    moreover have "w' = store ?h s' w" using f(7) r(7) by (simp add: store_store)
    ultimately show ?thesis using loop f r(4-6) by (intro exI [of _ ci] exI [of _ s'] exI [of _ w']) simp
  qed
qed

end

context filefunc
begin

lemma write_stored:
  assumes "zi_filefunc zi = ff" "fetch w (zi_filestream zi) = Some s" "at_end s" "buf_ok (zi_ci zi)"
    "stored (zi_ci zi)" "zi_in_opened_file_inzip zi \<noteq> 0" "length (out s (zi_ci zi) buf) \<le> limit w"
  shows "\<exists>ci s'. zipWriteInFileInZip Z (Some zi) buf w
      = Some (ZIP_OK, Some (zi\<lparr>zi_ci := ci\<rparr>), store (zi_filestream zi) s' w)
    \<and> at_end s' \<and> s_rd s' = s_rd s \<and> s_err s' = s_err s \<and> buf_ok ci \<and> stored ci
    \<and> same_entry ((zi_ci zi)\<lparr>ci_crc32 := zl_crc32 Z (ci_crc32 (zi_ci zi)) buf\<rparr>) ci
    \<and> (\<forall>xs. out s' ci xs = out s (zi_ci zi) (buf @ xs))
    \<and> size_c ci = size_c (zi_ci zi) + of_nat (length buf)
    \<and> size_u ci = size_u (zi_ci zi) + of_nat (length buf)"
proof -
  let ?ci = "(zi_ci zi)\<lparr>ci_crc32 := zl_crc32 Z (ci_crc32 (zi_ci zi)) buf,
      ci_stream := (ci_stream (zi_ci zi))\<lparr>next_in := buf\<rparr>\<rparr>"
  let ?zi = "zi\<lparr>zi_ci := ?ci\<rparr>"
  have eq: "next_in (ci_stream (zi_ci ?zi)) = buf" "size_c (zi_ci ?zi) = size_c (zi_ci zi)"
    "size_u (zi_ci ?zi) = size_u (zi_ci zi)" "out s (zi_ci ?zi) xs = out s (zi_ci zi) xs" for s xs
    by (simp_all add: size_c_def size_u_def out_def enc_bytes_def pending_def)
  have "\<exists>ci s' w'. zip_write_loop Z ZIP_OK ?zi w = Some (ZIP_OK, ?zi\<lparr>zi_ci := ci\<rparr>, w')
    \<and> fetch w' (zi_filestream ?zi) = Some s' \<and> at_end s' \<and> limit w' = limit w \<and> s_rd s' = s_rd s \<and> s_err s' = s_err s
    \<and> w' = store (zi_filestream ?zi) s' w
    \<and> buf_ok ci \<and> stored ci \<and> same_entry (zi_ci ?zi) ci \<and> next_in (ci_stream ci) = []
    \<and> (\<forall>xs. out s' ci xs = out s (zi_ci ?zi) (next_in (ci_stream (zi_ci ?zi)) @ xs))
    \<and> size_c ci = size_c (zi_ci ?zi) + of_nat (avail_in (ci_stream (zi_ci ?zi)))
    \<and> size_u ci = size_u (zi_ci ?zi) + of_nat (avail_in (ci_stream (zi_ci ?zi)))"
  proof (rule write_loop_stored)
    show "length (out s (zi_ci ?zi) (next_in (ci_stream (zi_ci ?zi)))) \<le> limit w" unfolding eq by (rule assms)
  qed (use assms in \<open>simp_all add: buf_ok_def stored_def\<close>)
  then obtain ci s' w' where r: "zip_write_loop Z ZIP_OK ?zi w = Some (ZIP_OK, ?zi\<lparr>zi_ci := ci\<rparr>, w')"
    "at_end s'" "s_rd s' = s_rd s" "s_err s' = s_err s" "w' = store (zi_filestream zi) s' w" "buf_ok ci"
    "same_entry ?ci ci" "\<forall>xs. out s' ci xs = out s (zi_ci zi) (buf @ xs)"
    "size_c ci = size_c (zi_ci zi) + of_nat (length buf)" "size_u ci = size_u (zi_ci zi) + of_nat (length buf)"
    "stored ci"
    unfolding eq by auto
  have "same_entry ((zi_ci zi)\<lparr>ci_crc32 := zl_crc32 Z (ci_crc32 (zi_ci zi)) buf\<rparr>) ci"
    by (rule same_entry_trans [OF _ r(7)]) (simp add: same_entry_def)
  with r assms(6) show ?thesis
    by (intro exI [of _ ci] exI [of _ s']) (simp add: zipWriteInFileInZip_def Let_def)
qed

end

section \<open>No overflow of the buffer\<close>

text \<open>
  The buffer invariant holds whatever the callbacks return, and for any compressor that
  respects the output space it is given.
\<close>

lemma buf_ok_deflate:
  assumes "deflate_steps Z" "buf_ok ci" "zip_deflate_step Z flush ci = (err, ci')"
  shows "buf_ok ci'"
proof -
  obtain e bs strm where d: "zl_deflate Z (ci_stream ci) flush = (e, bs, strm)" by (metis prod_cases3)
  then have st: "strm_step (ci_stream ci) bs strm" using assms(1) by (auto simp: deflate_steps_def split: prod.splits)
  have ci': "ci' = ci\<lparr>ci_buffered_data := buf_write (next_out (ci_stream ci)) bs (ci_buffered_data ci),
      ci_stream := strm, ci_pos_in_buffered_data := ci_pos_in_buffered_data ci
        + unat (ucast (total_out strm - total_out (ci_stream ci)) :: uInt)\<rparr>"
    using assms(3) d by (simp add: zip_deflate_step_def)
  have "length bs \<le> Z_BUFSIZE" using st assms(2) by (auto simp: strm_step_def buf_ok_def)
  then have "length bs < 2 ^ LENGTH(32)" by (simp add: Z_BUFSIZE_def)
  moreover have "(ucast (of_nat (length bs) :: 64 word) :: 32 word) = of_nat (length bs)"
    by transfer (simp add: take_bit_of_nat)
  ultimately have "unat (ucast (total_out strm - total_out (ci_stream ci)) :: uInt) = length bs"
    using st unat_of_nat_small [of "length bs", where ?'a = 32] by (simp add: strm_step_def)
  with st assms(2) show ?thesis by (simp add: buf_ok_def ci' strm_step_def)
qed

lemma buf_ok_copy: "buf_ok ci \<Longrightarrow> buf_ok (zip_copy_step ci)"
  by (auto simp: copy_step_eq buf_ok_def copied_def)

lemma buf_ok_refill:
  assumes "buf_ok (zi_ci zi)" "zip_refill err zi w = (err', zi', w')"
  shows "buf_ok (zi_ci zi')"
proof (cases "avail_out (ci_stream (zi_ci zi)) = 0")
  case True
  obtain n w1 where "ZWRITE64 (zi_filefunc zi) (zi_filestream zi) (enc_bytes (zi_ci zi) (pending (zi_ci zi))) w = (n, w1)"
    by fastforce
  then obtain e where "zip64FlushWriteBuffer zi w = (e, zi\<lparr>zi_ci := flushed (zi_ci zi)\<rparr>, w1)"
    by (simp add: flush_eq)
  with True assms(2) have "zi_ci zi' = rewound (flushed (zi_ci zi))"
    by (auto simp: zip_refill_def rewound_def Let_def)
  then show ?thesis by (simp add: buf_ok_rewound)
qed (use assms in \<open>simp add: zip_refill_def\<close>)

text \<open>What every step of the loop keeps, the loop keeps.\<close>

lemma write_loop_keeps:
  fixes Z :: "'z zlib" and zi :: "('w, 'z) zip64_internal"
  assumes run: "zip_write_loop Z err zi w = Some (err', zi', w')" and P: "P zi"
    and refill: "\<And>err zi w err' zi' w'. P zi \<Longrightarrow> zip_refill err zi w = (err', zi', w') \<Longrightarrow> P zi'"
    and deflate: "\<And>zi flush e ci. P zi \<Longrightarrow> zip_deflate_step Z flush (zi_ci zi) = (e, ci) \<Longrightarrow> P (zi\<lparr>zi_ci := ci\<rparr>)"
    and copy: "\<And>zi. P zi \<Longrightarrow> P (zi\<lparr>zi_ci := zip_copy_step (zi_ci zi)\<rparr>)"
  shows "P zi'"
proof -
  have "Z = Z \<longrightarrow> P zi \<longrightarrow> P (fst (snd (err', zi', w')))"
  proof (rule zip_write_loop.raw_induct [OF _ run,
        where P = "\<lambda>Z' err zi w r. Z' = Z \<longrightarrow> P zi \<longrightarrow> P (fst (snd r))"], intro impI)
    fix loop Z' err and zi :: "('w, 'z) zip64_internal" and w r
    assume IH: "\<And>Z' err zi w r. loop Z' err zi w = Some r \<Longrightarrow> Z' = Z \<longrightarrow> P zi \<longrightarrow> P (fst (snd r))"
      and body: "(if err = ZIP_OK \<and> avail_in (ci_stream (zi_ci zi)) > 0 then
        (let (err, zi, w) = zip_refill err zi w in
         if err \<noteq> ZIP_OK then Some (err, zi, w)
         else
           (let ci = zi_ci zi;
                (err, ci) = (if ci_method ci = Z_DEFLATED \<and> ci_raw ci = 0 then zip_deflate_step Z' Z_NO_FLUSH ci
                             else (err, zip_copy_step ci))
            in loop Z' err (zi\<lparr>zi_ci := ci\<rparr>) w))
      else Some (err, zi, w)) = Some r"
      and Z': "Z' = Z" and Pzi: "P zi"
    obtain e1 zi1 w1 where rf: "zip_refill err zi w = (e1, zi1, w1)" by (metis prod_cases3)
    have P1: "P zi1" by (rule refill [OF Pzi rf])
    obtain e2 ci2 where st: "(if ci_method (zi_ci zi1) = Z_DEFLATED \<and> ci_raw (zi_ci zi1) = 0
        then zip_deflate_step Z Z_NO_FLUSH (zi_ci zi1) else (e1, zip_copy_step (zi_ci zi1))) = (e2, ci2)" by fastforce
    then have P2: "P (zi1\<lparr>zi_ci := ci2\<rparr>)" using deflate [OF P1] copy [OF P1] by (auto split: if_splits)
    show "P (fst (snd r))"
    proof (cases "err = ZIP_OK \<and> avail_in (ci_stream (zi_ci zi)) > 0 \<and> e1 = ZIP_OK")
      case True
      then have "loop Z e2 (zi1\<lparr>zi_ci := ci2\<rparr>) w1 = Some r" using body rf st Z'
        by (cases "ci_method (zi_ci zi1) = Z_DEFLATED \<and> ci_raw (zi_ci zi1) = 0") (auto simp: Let_def)
      from IH [OF this] P2 show ?thesis by simp
    next
      case False
      then have "r = (err, zi, w) \<or> r = (e1, zi1, w1)" using body rf by (auto split: if_splits)
      with P1 Pzi show ?thesis by auto
    qed
  qed
  with P show ?thesis by simp
qed

lemma buf_ok_write_loop:
  assumes "deflate_steps Z" "buf_ok (zi_ci zi)" "zip_write_loop Z err zi w = Some (err', zi', w')"
  shows "buf_ok (zi_ci zi')"
  by (rule write_loop_keeps [where P = "\<lambda>zi. buf_ok (zi_ci zi)", OF assms(3,2)])
    (auto intro: buf_ok_refill buf_ok_deflate [OF assms(1)] buf_ok_copy)

end
