(* ===== verification/ZipEntry.thy ===== *)
theory ZipEntry
  imports ZipState
begin

text \<open>
  Finishing an entry (\<open>zipCloseFileInZipRaw64\<close> and its wrappers) and starting one
  (\<open>zipOpenNewFileInZip4_64\<close> and its wrappers).
\<close>

section \<open>Finishing an entry\<close>

text \<open>
  The loop that drains \<open>deflate\<close>. Unlike the loop of \<open>zipWriteInFileInZip\<close> it goes on
  after a failed flush, and the result of \<open>deflate\<close> then replaces the error code.
\<close>

partial_function (option) zip_finish_loop ::
    "'z zlib \<Rightarrow> int \<Rightarrow> ('w, 'z) zip64_internal \<Rightarrow> 'w \<Rightarrow> (int \<times> ('w, 'z) zip64_internal \<times> 'w) option" where
  "zip_finish_loop Z err zi w =
     (if err = ZIP_OK then
        (let (err, zi, w) = zip_refill err zi w;
             (err, ci) = zip_deflate_step Z Z_FINISH (zi_ci zi)
         in zip_finish_loop Z err (zi\<lparr>zi_ci := ci\<rparr>) w)
      else Some (err, zi, w))"

text \<open>
  Lines 1573-1607: \<open>Z_STREAM_END\<close> is success, the last partial buffer is written, the
  compressor is shut down, and the sizes and the CRC are settled.
\<close>

definition zip_close_flush ::
    "'z zlib \<Rightarrow> int \<Rightarrow> ('w, 'z) zip64_internal \<Rightarrow> 'w \<Rightarrow> int \<times> ('w, 'z) zip64_internal \<times> 'w" where
  "zip_close_flush Z err zi w =
     (let err = (if err = Z_STREAM_END then ZIP_OK else err);
          (err, zi, w) =
            (if ci_pos_in_buffered_data (zi_ci zi) > 0 \<and> err = ZIP_OK then
               (let (e, zi, w) = zip64FlushWriteBuffer zi w
                in (if e = ZIP_ERRNO then ZIP_ERRNO else err, zi, w))
             else (err, zi, w));
          ci = zi_ci zi;
          (err, ci) =
            (if ci_method ci = Z_DEFLATED \<and> ci_raw ci = 0 then
               (let (tmp_err, strm) = zl_deflateEnd Z (ci_stream ci)
                in (if err = ZIP_OK then tmp_err else err, ci\<lparr>ci_stream := strm, ci_stream_initialised := 0\<rparr>))
             else (err, ci))
      in (err, zi\<lparr>zi_ci := ci\<rparr>, w))"

definition invalidValue :: uLong where [simp]: "invalidValue = 0xffffffff"

text \<open>
  Lines 1610-1635: the CRC, the sizes and the file type go into the central header.
  \<open>Z_ASCII\<close> sets the internal attributes.
\<close>

definition zip_close_header :: "'z curfile64_info \<Rightarrow> uLong \<Rightarrow> ZPOS64_T \<Rightarrow> ZPOS64_T \<Rightarrow> byte list" where
  "zip_close_header ci crc compressed_size uncompressed_size =
     (let h = ci_central_header ci;
          h = (if compressed_size \<ge> 0xffffffff \<or> uncompressed_size \<ge> 0xffffffff \<or> ci_pos_local_header ci \<ge> 0xffffffff
               then zip64local_putValue_inmemory 6 45 2 (zip64local_putValue_inmemory 4 45 2 h) else h);
          h = zip64local_putValue_inmemory 16 crc 4 h;
          h = (if compressed_size \<ge> 0xffffffff then zip64local_putValue_inmemory 20 invalidValue 4 h
               else zip64local_putValue_inmemory 20 compressed_size 4 h);
          h = (if data_type (ci_stream ci) = Z_ASCII then zip64local_putValue_inmemory 36 1 2 h else h);
          h = (if uncompressed_size \<ge> 0xffffffff then zip64local_putValue_inmemory 24 invalidValue 4 h
               else zip64local_putValue_inmemory 24 uncompressed_size 4 h)
      in h)"

text \<open>
  Lines 1637-1694: the ZIP64 extra block. It is appended at \<open>size_centralheader\<close>, after
  the comment, and only the extra field's length is updated. \<open>None\<close> is the early return
  of \<open>ZIP_BADZIPFILE\<close> when the spare bytes do not suffice.
\<close>

definition zip64_datasize :: "'z curfile64_info \<Rightarrow> ZPOS64_T \<Rightarrow> ZPOS64_T \<Rightarrow> nat" where
  "zip64_datasize ci compressed_size uncompressed_size =
     (if uncompressed_size \<ge> 0xffffffff then 8 else 0)
     + (if compressed_size \<ge> 0xffffffff then 8 else 0)
     + (if ci_pos_local_header ci \<ge> 0xffffffff then 8 else 0)"

definition zip_close_zip64 ::
    "'z curfile64_info \<Rightarrow> ZPOS64_T \<Rightarrow> ZPOS64_T \<Rightarrow> 'z curfile64_info option" where
  "zip_close_zip64 ci compressed_size uncompressed_size =
     (let datasize = zip64_datasize ci compressed_size uncompressed_size in
      if datasize > 0 then
        (if of_nat (datasize + 4) > ci_size_centralExtraFree ci then None
         else
           (let h = ci_central_header ci;
                p = unat (ci_size_centralheader ci);
                h = zip64local_putValue_inmemory p 1 2 h;
                p = p + 2;
                h = zip64local_putValue_inmemory p (of_nat datasize) 2 h;
                p = p + 2;
                (p, h) = (if uncompressed_size \<ge> 0xffffffff
                          then (p + 8, zip64local_putValue_inmemory p uncompressed_size 8 h) else (p, h));
                (p, h) = (if compressed_size \<ge> 0xffffffff
                          then (p + 8, zip64local_putValue_inmemory p compressed_size 8 h) else (p, h));
                (p, h) = (if ci_pos_local_header ci \<ge> 0xffffffff
                          then (p + 8, zip64local_putValue_inmemory p (ci_pos_local_header ci) 8 h) else (p, h));
                centralExtra = ci_size_centralExtra ci + of_nat (datasize + 4);
                h = zip64local_putValue_inmemory 30 centralExtra 2 h
            in Some (ci\<lparr>ci_central_header := h,
                        ci_size_centralExtraFree := ci_size_centralExtraFree ci - of_nat (datasize + 4),
                        ci_size_centralheader := ci_size_centralheader ci + of_nat (datasize + 4),
                        ci_size_centralExtra := centralExtra\<rparr>)))
      else Some ci)"

text \<open>
  Lines 1701-1739: the CRC and the sizes are written back into the local header. With a
  large uncompressed size they go to the ZIP64 block, if the local header has one.
\<close>

definition zip_update_local ::
    "('w, 'z) zip64_internal \<Rightarrow> uLong \<Rightarrow> ZPOS64_T \<Rightarrow> ZPOS64_T \<Rightarrow> 'w \<Rightarrow> int \<times> 'w" where
  "zip_update_local zi crc compressed_size uncompressed_size w =
     (let ff = zi_filefunc zi; fs = zi_filestream zi; ci = zi_ci zi;
          put = zip64local_putValue ff fs;
          (cur_pos_inzip, w) = ZTELL64 ff fs w;
          (r, w) = ZSEEK64 ff fs (ci_pos_local_header ci + 14) ZLIB_FILEFUNC_SEEK_SET w;
          err = (if r \<noteq> 0 then ZIP_ERRNO else ZIP_OK);
          (err, w) = (if err = ZIP_OK then put crc 4 w else (err, w));
          (err, w) =
            (if uncompressed_size \<ge> 0xffffffff then
               (if ci_pos_zip64extrainfo ci > 0 then
                  (let (r, w) = ZSEEK64 ff fs (ci_pos_zip64extrainfo ci + 4) ZLIB_FILEFUNC_SEEK_SET w;
                       err = (if r \<noteq> 0 then ZIP_ERRNO else err)
                   in if err = ZIP_OK then run_ok [put uncompressed_size 8, put compressed_size 8] w else (err, w))
                else (err, w))
             else if err = ZIP_OK then run_ok [put compressed_size 4, put uncompressed_size 4] w
             else (err, w));
          (r, w) = ZSEEK64 ff fs cur_pos_inzip ZLIB_FILEFUNC_SEEK_SET w;
          err = (if r \<noteq> 0 then ZIP_ERRNO else err)
      in (err, w))"

text \<open>Lines 1599-1744, everything after the compressor is shut down.\<close>

definition zip_close_record ::
    "int \<Rightarrow> ('w, 'z) zip64_internal \<Rightarrow> ZPOS64_T \<Rightarrow> uLong \<Rightarrow> sys \<Rightarrow> 'w
     \<Rightarrow> int \<times> ('w, 'z) zip64_internal \<times> sys \<times> 'w" where
  "zip_close_record err zi uncompressed_size crc \<sigma> w =
     (let ci = zi_ci zi;
          crc = (if ci_raw ci = 0 then ci_crc32 ci else crc);
          uncompressed_size = (if ci_raw ci = 0 then ci_totalUncompressedData ci else uncompressed_size);
          compressed_size = ci_totalCompressedData ci + of_int (ci_crypt_header_size ci);
          ci = ci\<lparr>ci_central_header := zip_close_header ci crc compressed_size uncompressed_size\<rparr>
      in case zip_close_zip64 ci compressed_size uncompressed_size of
           None \<Rightarrow> (ZIP_BADZIPFILE, zi\<lparr>zi_ci := ci\<rparr>, \<sigma>, w)
         | Some ci \<Rightarrow>
             (let zi = zi\<lparr>zi_ci := ci\<rparr>;
                  (err, cd, \<sigma>) =
                    (if err = ZIP_OK then
                       add_data_in_datablock (Some (zi_central_dir zi))
                         (take (unat (ci_size_centralheader ci)) (ci_central_header ci)) \<sigma>
                     else (err, Some (zi_central_dir zi), \<sigma>));
                  zi = zi\<lparr>zi_central_dir := the cd\<rparr>;
                  (err, w) =
                    (if err = ZIP_OK then zip_update_local zi crc compressed_size uncompressed_size w else (err, w))
              in (err, zi\<lparr>zi_number_entry := zi_number_entry zi + 1, zi_in_opened_file_inzip := 0\<rparr>, \<sigma>, w)))"

definition zipCloseFileInZipRaw64_zi ::
    "'z zlib \<Rightarrow> ('w, 'z) zip64_internal \<Rightarrow> ZPOS64_T \<Rightarrow> uLong \<Rightarrow> sys \<Rightarrow> 'w
     \<Rightarrow> (int \<times> ('w, 'z) zip64_internal \<times> sys \<times> 'w) option" where
  "zipCloseFileInZipRaw64_zi Z zi uncompressed_size crc \<sigma> w =
     (if zi_in_opened_file_inzip zi = 0 then Some (ZIP_PARAMERROR, zi, \<sigma>, w)
      else
        (let ci = zi_ci zi;
             zi = zi\<lparr>zi_ci := ci\<lparr>ci_stream := (ci_stream ci)\<lparr>next_in := []\<rparr>\<rparr>\<rparr>
         in do {
           (err, zi, w) \<leftarrow>
             (if ci_method ci = Z_DEFLATED \<and> ci_raw ci = 0 then zip_finish_loop Z ZIP_OK zi w
              else Some (ZIP_OK, zi, w));
           let (err, zi, w) = zip_close_flush Z err zi w;
           Some (zip_close_record err zi uncompressed_size crc \<sigma> w)
         }))"

definition zipCloseFileInZipRaw64 ::
    "'z zlib \<Rightarrow> ('w, 'z) zip64_internal option \<Rightarrow> ZPOS64_T \<Rightarrow> uLong \<Rightarrow> sys \<Rightarrow> 'w
     \<Rightarrow> (int \<times> ('w, 'z) zip64_internal option \<times> sys \<times> 'w) option" where
  "zipCloseFileInZipRaw64 Z file uncompressed_size crc \<sigma> w =
     (case file of None \<Rightarrow> Some (ZIP_PARAMERROR, None, \<sigma>, w)
      | Some zi \<Rightarrow> map_option (\<lambda>(err, zi, \<sigma>, w). (err, Some zi, \<sigma>, w))
          (zipCloseFileInZipRaw64_zi Z zi uncompressed_size crc \<sigma> w))"

definition zipCloseFileInZipRaw ::
    "'z zlib \<Rightarrow> ('w, 'z) zip64_internal option \<Rightarrow> uLong \<Rightarrow> uLong \<Rightarrow> sys \<Rightarrow> 'w
     \<Rightarrow> (int \<times> ('w, 'z) zip64_internal option \<times> sys \<times> 'w) option" where
  "zipCloseFileInZipRaw Z file uncompressed_size crc =
     zipCloseFileInZipRaw64 Z file (ucast uncompressed_size) crc"

definition zipCloseFileInZip ::
    "'z zlib \<Rightarrow> ('w, 'z) zip64_internal option \<Rightarrow> sys \<Rightarrow> 'w
     \<Rightarrow> (int \<times> ('w, 'z) zip64_internal option \<times> sys \<times> 'w) option" where
  "zipCloseFileInZip Z file = zipCloseFileInZipRaw Z file 0 0"

section \<open>Starting an entry\<close>

text \<open>The arguments of \<open>zipOpenNewFileInZip4_64\<close> after the archive. NULL pointers are \<open>None\<close>.\<close>

record new_file =
  nf_filename :: "byte list option"
  nf_zipfi :: "zip_fileinfo option"
  nf_extrafield_local :: "byte list"
  nf_extrafield_global :: "byte list"
  nf_comment :: "byte list option"
  nf_method :: int
  nf_level :: int
  nf_raw :: int
  nf_windowBits :: int
  nf_memLevel :: int
  nf_strategy :: int
  nf_password :: "byte list option"
  nf_crcForCrypting :: uLong
  nf_versionMadeBy :: uLong
  nf_flagBase :: uLong
  nf_zip64 :: int

definition new_file_name :: "new_file \<Rightarrow> byte list" where
  "new_file_name nf = (case nf_filename nf of None \<Rightarrow> [0x2d] | Some f \<Rightarrow> f)"

definition new_file_comment :: "new_file \<Rightarrow> byte list" where
  "new_file_comment nf = (case nf_comment nf of None \<Rightarrow> [] | Some c \<Rightarrow> c)"

text \<open>Lines 1104-1130: the date, the flags and the reset of the entry's fields.\<close>

definition new_file_dosDate :: "new_file \<Rightarrow> uLong" where
  "new_file_dosDate nf =
     (case nf_zipfi nf of None \<Rightarrow> 0
      | Some zipfi \<Rightarrow> if dosDate zipfi \<noteq> 0 then dosDate zipfi else zip64local_TmzDateToDosDate (tmz_date zipfi))"

definition new_file_flag :: "new_file \<Rightarrow> uLong" where
  "new_file_flag nf =
     (let level = nf_level nf;
          flag = nf_flagBase nf;
          flag = (if level = 8 \<or> level = 9 then flag OR 2 else flag);
          flag = (if level = 2 then flag OR 4 else flag);
          flag = (if level = 1 then flag OR 6 else flag);
          flag = (if nf_password nf \<noteq> None then flag OR 1 else flag)
      in flag)"

definition new_file_reset :: "new_file \<Rightarrow> ZPOS64_T \<Rightarrow> 'z curfile64_info \<Rightarrow> 'z curfile64_info" where
  "new_file_reset nf pos ci =
     ci\<lparr>ci_dosDate := new_file_dosDate nf,
        ci_flag := new_file_flag nf,
        ci_crc32 := 0,
        ci_method := nf_method nf,
        ci_encrypt := 0,
        ci_stream_initialised := 0,
        ci_pos_in_buffered_data := 0,
        ci_raw := nf_raw nf,
        ci_pos_local_header := pos,
        ci_size_centralheader :=
          of_nat (SIZECENTRALHEADER + length (new_file_name nf) + length (nf_extrafield_global nf)
                  + length (new_file_comment nf)),
        ci_size_centralExtraFree := 32,
        ci_size_centralExtra := of_nat (length (nf_extrafield_global nf))\<rparr>"

text \<open>Lines 1138-1177: the fields of the central header, stored one after another.\<close>

definition new_file_central :: "new_file \<Rightarrow> ZPOS64_T \<Rightarrow> 'z curfile64_info \<Rightarrow> byte list \<Rightarrow> byte list" where
  "new_file_central nf add_position ci h =
     (let put = zip64local_putValue_inmemory;
          name = new_file_name nf; extra = nf_extrafield_global nf; comment = new_file_comment nf;
          h = put 0 CENTRALHEADERMAGIC 4 h;
          h = put 4 (nf_versionMadeBy nf) 2 h;
          h = put 6 20 2 h;
          h = put 8 (ci_flag ci) 2 h;
          h = put 10 (of_int (ci_method ci)) 2 h;
          h = put 12 (ci_dosDate ci) 4 h;
          h = put 16 0 4 h;
          h = put 20 0 4 h;
          h = put 24 0 4 h;
          h = put 28 (of_nat (length name)) 2 h;
          h = put 30 (of_nat (length extra)) 2 h;
          h = put 32 (of_nat (length comment)) 2 h;
          h = put 34 0 2 h;
          h = put 36 (case nf_zipfi nf of None \<Rightarrow> 0 | Some zipfi \<Rightarrow> internal_fa zipfi) 2 h;
          h = put 38 (case nf_zipfi nf of None \<Rightarrow> 0 | Some zipfi \<Rightarrow> external_fa zipfi) 4 h;
          h = (if ci_pos_local_header ci \<ge> 0xffffffff then put 42 0xffffffff 4 h
               else put 42 (ci_pos_local_header ci - add_position) 4 h);
          h = mem_write SIZECENTRALHEADER name h;
          h = mem_write (SIZECENTRALHEADER + length name) extra h;
          h = mem_write (SIZECENTRALHEADER + length name + length extra) comment h
      in h)"

text \<open>Lines 1198-1239: the stream is set up, and the compressor started for a deflated entry.\<close>

definition new_file_compressor ::
    "'z zlib \<Rightarrow> new_file \<Rightarrow> int \<Rightarrow> 'z curfile64_info \<Rightarrow> int \<times> 'z curfile64_info" where
  "new_file_compressor Z nf err ci =
     (let strm = (ci_stream ci)\<lparr>next_in := [], avail_out := Z_BUFSIZE, next_out := 0, total_in := 0,
                                total_out := 0, data_type := Z_BINARY\<rparr>;
          ci = ci\<lparr>ci_stream := strm\<rparr>
      in if err = ZIP_OK \<and> ci_method ci = Z_DEFLATED \<and> ci_raw ci = 0 then
           (let windowBits = (if nf_windowBits nf > 0 then - nf_windowBits nf else nf_windowBits nf);
                (err, strm) = zl_deflateInit2 Z strm (nf_level nf) Z_DEFLATED windowBits (nf_memLevel nf) (nf_strategy nf);
                ci = ci\<lparr>ci_stream := strm\<rparr>
            in (err, if err = Z_OK then ci\<lparr>ci_stream_initialised := Z_DEFLATED\<rparr> else ci))
         else (err, ci))"

text \<open>Lines 1242-1256: the encryption header of an entry with a password.\<close>

definition new_file_crypt ::
    "'z zlib \<Rightarrow> new_file \<Rightarrow> int \<Rightarrow> ('w, 'z) zip64_internal \<Rightarrow> sys \<Rightarrow> 'w
     \<Rightarrow> int \<times> ('w, 'z) zip64_internal \<times> sys \<times> 'w" where
  "new_file_crypt Z nf err zi \<sigma> w =
     (let zi = zi\<lparr>zi_ci := (zi_ci zi)\<lparr>ci_crypt_header_size := 0\<rparr>\<rparr> in
      case nf_password nf of
        None \<Rightarrow> (err, zi, \<sigma>, w)
      | Some password \<Rightarrow>
          if err \<noteq> Z_OK then (err, zi, \<sigma>, w)
          else
            (let tab = zl_crc_table Z;
                 (r, \<sigma>) = crypthead password RAND_HEAD_LEN tab (nf_crcForCrypting nf) \<sigma>;
                 (bufHead, keys) = (case r of Some x \<Rightarrow> x | None \<Rightarrow> ([], ci_keys (zi_ci zi)));
                 zi = zi\<lparr>zi_ci := (zi_ci zi)\<lparr>ci_encrypt := 1, ci_pcrc_32_tab := tab, ci_keys := keys,
                                             ci_crypt_header_size := int (length bufHead)\<rparr>\<rparr>;
                 (n, w) = ZWRITE64 (zi_filefunc zi) (zi_filestream zi) bufHead w
             in (if n \<noteq> of_nat (length bufHead) then ZIP_ERRNO else err, zi, \<sigma>, w)))"

definition sizeof_spare :: nat where "sizeof_spare = 32"

text \<open>
  Lines 1094-1261. The header is written through the result of \<open>malloc\<close> before that
  result is tested, so that a failed allocation is undefined behaviour: \<open>None\<close>. The
  allocated bytes are taken to be zero; those that reach the file are all written first.
\<close>

definition new_file_open ::
    "'z zlib \<Rightarrow> ('w, 'z) zip64_internal \<Rightarrow> new_file \<Rightarrow> sys \<Rightarrow> 'w
     \<Rightarrow> (int \<times> ('w, 'z) zip64_internal \<times> sys \<times> 'w) option" where
  "new_file_open Z zi nf \<sigma> w =
     (let (pos, w) = ZTELL64 (zi_filefunc zi) (zi_filestream zi) w;
          ci = new_file_reset nf pos (zi_ci zi);
          alloc_size = unat (ci_size_centralheader ci) + sizeof_spare;
          (ok, \<sigma>) = malloc alloc_size \<sigma>
      in if \<not> ok then None
         else
           (let ci = ci\<lparr>ci_central_header :=
                          new_file_central nf (zi_add_position zi) ci (replicate alloc_size 0),
                        ci_zip64 := nf_zip64 nf, ci_totalCompressedData := 0, ci_totalUncompressedData := 0,
                        ci_pos_zip64extrainfo := 0\<rparr>;
                (err, zi, w) = Write_LocalFileHeader (zi\<lparr>zi_ci := ci\<rparr>) (new_file_name nf) (nf_extrafield_local nf) w;
                (err, ci) = new_file_compressor Z nf err (zi_ci zi);
                (err, zi, \<sigma>, w) = new_file_crypt Z nf err (zi\<lparr>zi_ci := ci\<rparr>) \<sigma> w;
                zi = (if err = Z_OK then zi\<lparr>zi_in_opened_file_inzip := 1\<rparr> else zi)
            in Some (err, zi, \<sigma>, w)))"

text \<open>An entry that is still open is closed first.\<close>

definition zipOpenNewFileInZip4_64 ::
    "'z zlib \<Rightarrow> ('w, 'z) zip64_internal option \<Rightarrow> new_file \<Rightarrow> sys \<Rightarrow> 'w
     \<Rightarrow> (int \<times> ('w, 'z) zip64_internal option \<times> sys \<times> 'w) option" where
  "zipOpenNewFileInZip4_64 Z file nf \<sigma> w =
     (case file of None \<Rightarrow> Some (ZIP_PARAMERROR, None, \<sigma>, w)
      | Some zi \<Rightarrow>
          if nf_method nf \<noteq> 0 \<and> nf_method nf \<noteq> Z_DEFLATED then Some (ZIP_PARAMERROR, Some zi, \<sigma>, w)
          else do {
            (err, zi, \<sigma>, w) \<leftarrow>
              (if zi_in_opened_file_inzip zi = 1 then zipCloseFileInZipRaw64_zi Z zi 0 0 \<sigma> w
               else Some (ZIP_OK, zi, \<sigma>, w));
            if err \<noteq> ZIP_OK then Some (err, Some zi, \<sigma>, w)
            else map_option (\<lambda>(err, zi, \<sigma>, w). (err, Some zi, \<sigma>, w)) (new_file_open Z zi nf \<sigma> w)
          })"

text \<open>
  The wrappers fix some of the arguments. The buffers of the extra fields come with their
  sizes in C, so that here each is one list.
\<close>

definition zipOpenNewFileInZip4 where
  "zipOpenNewFileInZip4 Z file filename zipfi extra_local extra_global comment method level raw
      windowBits memLevel strategy password crcForCrypting versionMadeBy flagBase =
     zipOpenNewFileInZip4_64 Z file
       \<lparr>nf_filename = filename, nf_zipfi = zipfi, nf_extrafield_local = extra_local,
        nf_extrafield_global = extra_global, nf_comment = comment, nf_method = method, nf_level = level,
        nf_raw = raw, nf_windowBits = windowBits, nf_memLevel = memLevel, nf_strategy = strategy,
        nf_password = password, nf_crcForCrypting = crcForCrypting, nf_versionMadeBy = versionMadeBy,
        nf_flagBase = flagBase, nf_zip64 = 0\<rparr>"

definition zipOpenNewFileInZip3 where
  "zipOpenNewFileInZip3 Z file filename zipfi extra_local extra_global comment method level raw
      windowBits memLevel strategy password crcForCrypting =
     zipOpenNewFileInZip4_64 Z file
       \<lparr>nf_filename = filename, nf_zipfi = zipfi, nf_extrafield_local = extra_local,
        nf_extrafield_global = extra_global, nf_comment = comment, nf_method = method, nf_level = level,
        nf_raw = raw, nf_windowBits = windowBits, nf_memLevel = memLevel, nf_strategy = strategy,
        nf_password = password, nf_crcForCrypting = crcForCrypting, nf_versionMadeBy = VERSIONMADEBY,
        nf_flagBase = 0, nf_zip64 = 0\<rparr>"

definition zipOpenNewFileInZip3_64 where
  "zipOpenNewFileInZip3_64 Z file filename zipfi extra_local extra_global comment method level raw
      windowBits memLevel strategy password crcForCrypting zip64 =
     zipOpenNewFileInZip4_64 Z file
       \<lparr>nf_filename = filename, nf_zipfi = zipfi, nf_extrafield_local = extra_local,
        nf_extrafield_global = extra_global, nf_comment = comment, nf_method = method, nf_level = level,
        nf_raw = raw, nf_windowBits = windowBits, nf_memLevel = memLevel, nf_strategy = strategy,
        nf_password = password, nf_crcForCrypting = crcForCrypting, nf_versionMadeBy = VERSIONMADEBY,
        nf_flagBase = 0, nf_zip64 = zip64\<rparr>"

definition zipOpenNewFileInZip2_64 where
  "zipOpenNewFileInZip2_64 Z file filename zipfi extra_local extra_global comment method level raw zip64 =
     zipOpenNewFileInZip4_64 Z file
       \<lparr>nf_filename = filename, nf_zipfi = zipfi, nf_extrafield_local = extra_local,
        nf_extrafield_global = extra_global, nf_comment = comment, nf_method = method, nf_level = level,
        nf_raw = raw, nf_windowBits = - MAX_WBITS, nf_memLevel = DEF_MEM_LEVEL,
        nf_strategy = Z_DEFAULT_STRATEGY, nf_password = None, nf_crcForCrypting = 0,
        nf_versionMadeBy = VERSIONMADEBY, nf_flagBase = 0, nf_zip64 = zip64\<rparr>"

definition zipOpenNewFileInZip2 where
  "zipOpenNewFileInZip2 Z file filename zipfi extra_local extra_global comment method level raw =
     zipOpenNewFileInZip4_64 Z file
       \<lparr>nf_filename = filename, nf_zipfi = zipfi, nf_extrafield_local = extra_local,
        nf_extrafield_global = extra_global, nf_comment = comment, nf_method = method, nf_level = level,
        nf_raw = raw, nf_windowBits = - MAX_WBITS, nf_memLevel = DEF_MEM_LEVEL,
        nf_strategy = Z_DEFAULT_STRATEGY, nf_password = None, nf_crcForCrypting = 0,
        nf_versionMadeBy = VERSIONMADEBY, nf_flagBase = 0, nf_zip64 = 0\<rparr>"

definition zipOpenNewFileInZip64 where
  "zipOpenNewFileInZip64 Z file filename zipfi extra_local extra_global comment method level zip64 =
     zipOpenNewFileInZip4_64 Z file
       \<lparr>nf_filename = filename, nf_zipfi = zipfi, nf_extrafield_local = extra_local,
        nf_extrafield_global = extra_global, nf_comment = comment, nf_method = method, nf_level = level,
        nf_raw = 0, nf_windowBits = - MAX_WBITS, nf_memLevel = DEF_MEM_LEVEL,
        nf_strategy = Z_DEFAULT_STRATEGY, nf_password = None, nf_crcForCrypting = 0,
        nf_versionMadeBy = VERSIONMADEBY, nf_flagBase = 0, nf_zip64 = zip64\<rparr>"

definition zipOpenNewFileInZip where
  "zipOpenNewFileInZip Z file filename zipfi extra_local extra_global comment method level =
     zipOpenNewFileInZip4_64 Z file
       \<lparr>nf_filename = filename, nf_zipfi = zipfi, nf_extrafield_local = extra_local,
        nf_extrafield_global = extra_global, nf_comment = comment, nf_method = method, nf_level = level,
        nf_raw = 0, nf_windowBits = - MAX_WBITS, nf_memLevel = DEF_MEM_LEVEL,
        nf_strategy = Z_DEFAULT_STRATEGY, nf_password = None, nf_crcForCrypting = 0,
        nf_versionMadeBy = VERSIONMADEBY, nf_flagBase = 0, nf_zip64 = 0\<rparr>"

end
