(* ===== verification/ZipClose.thy ===== *)
theory ZipClose
  imports ZipEntry
begin

text \<open>
  Closing an archive (\<open>zipClose\<close>, the central directory, the end records and the global
  comment), and \<open>zipRemoveExtraInfoBlock\<close>, which filters an extra field in memory.
\<close>

section \<open>The end records\<close>

definition Write_Zip64EndOfCentralDirectoryLocator ::
    "('w, 'z) zip64_internal \<Rightarrow> ZPOS64_T \<Rightarrow> 'w \<Rightarrow> int \<times> 'w" where
  "Write_Zip64EndOfCentralDirectoryLocator zi zip64eocd_pos_inzip w =
     (let put = zip64local_putValue (zi_filefunc zi) (zi_filestream zi);
          pos = zip64eocd_pos_inzip - zi_add_position zi
      in run_ok [put ZIP64ENDLOCHEADERMAGIC 4, put 0 4, put pos 8, put 1 4] w)"

definition Write_Zip64EndOfCentralDirectoryRecord ::
    "('w, 'z) zip64_internal \<Rightarrow> uLong \<Rightarrow> ZPOS64_T \<Rightarrow> 'w \<Rightarrow> int \<times> 'w" where
  "Write_Zip64EndOfCentralDirectoryRecord zi size_centraldir centraldir_pos_inzip w =
     (let put = zip64local_putValue (zi_filefunc zi) (zi_filestream zi);
          Zip64DataSize = 44
      in run_ok
           [put ZIP64ENDHEADERMAGIC 4,
            put Zip64DataSize 8,
            put 45 2,
            put 45 2,
            put 0 4,
            put 0 4,
            put (zi_number_entry zi) 8,
            put (zi_number_entry zi) 8,
            put size_centraldir 8,
            put (centraldir_pos_inzip - zi_add_position zi) 8] w)"

definition Write_EndOfCentralDirectoryRecord ::
    "('w, 'z) zip64_internal \<Rightarrow> uLong \<Rightarrow> ZPOS64_T \<Rightarrow> 'w \<Rightarrow> int \<times> 'w" where
  "Write_EndOfCentralDirectoryRecord zi size_centraldir centraldir_pos_inzip w =
     (let put = zip64local_putValue (zi_filefunc zi) (zi_filestream zi);
          pos = centraldir_pos_inzip - zi_add_position zi
      in run_ok
           [put ENDHEADERMAGIC 4,
            put 0 2,
            put 0 2,
            (if zi_number_entry zi \<ge> 0xFFFF then put 0xffff 2 else put (zi_number_entry zi) 2),
            (if zi_number_entry zi \<ge> 0xFFFF then put 0xffff 2 else put (zi_number_entry zi) 2),
            put size_centraldir 4,
            (if pos \<ge> 0xffffffff then put 0xffffffff 4
             else put (centraldir_pos_inzip - zi_add_position zi) 4)] w)"

definition Write_GlobalComment ::
    "('w, 'z) zip64_internal \<Rightarrow> byte list option \<Rightarrow> 'w \<Rightarrow> int \<times> 'w" where
  "Write_GlobalComment zi global_comment w =
     (let comment = (case global_comment of None \<Rightarrow> [] | Some c \<Rightarrow> c);
          size_global_comment = length comment;
          (err, w) = zip64local_putValue (zi_filefunc zi) (zi_filestream zi) (of_nat size_global_comment) 2 w
      in if err = ZIP_OK \<and> size_global_comment > 0 then
           (let (n, w) = ZWRITE64 (zi_filefunc zi) (zi_filestream zi) comment w
            in (if n \<noteq> of_nat size_global_comment then ZIP_ERRNO else err, w))
         else (err, w))"

section \<open>Closing the archive\<close>

text \<open>The loop over the blocks of the central directory; sizes are counted even after an error.\<close>

fun write_central_dir ::
    "'w zlib_filefunc64_32_def \<Rightarrow> voidpf \<Rightarrow> linkedlist_data \<Rightarrow> int \<Rightarrow> uLong \<Rightarrow> 'w \<Rightarrow> int \<times> uLong \<times> 'w" where
  "write_central_dir ff fs [] err size_centraldir w = (err, size_centraldir, w)"
| "write_central_dir ff fs (ldi # ldis) err size_centraldir w =
     (let (err, w) =
        (if err = ZIP_OK \<and> filled_in_this_block ldi > 0 then
           (let (n, w) = ZWRITE64 ff fs (bdata ldi) w
            in (if n \<noteq> of_nat (filled_in_this_block ldi) then ZIP_ERRNO else err, w))
         else (err, w))
      in write_central_dir ff fs ldis err (size_centraldir + of_nat (filled_in_this_block ldi)) w)"

text \<open>
  Lines 1900-1945. The results of the two ZIP64 writers are dropped, and they run even
  after an error. The freed archive is gone, so that only the result code remains.
\<close>

definition zip_close_tail ::
    "('w, 'z) zip64_internal \<Rightarrow> byte list option \<Rightarrow> int \<Rightarrow> 'w \<Rightarrow> int \<times> 'w" where
  "zip_close_tail zi global_comment err w =
     (let ff = zi_filefunc zi; fs = zi_filestream zi;
          global_comment = (if global_comment = None then zi_globalcomment zi else global_comment);
          (centraldir_pos_inzip, w) = ZTELL64 ff fs w;
          (err, size_centraldir, w) =
            (if err = ZIP_OK then write_central_dir ff fs (zi_central_dir zi) err 0 w else (err, 0, w));
          zi = zi\<lparr>zi_central_dir := free_linkedlist (zi_central_dir zi)\<rparr>;
          pos = centraldir_pos_inzip - zi_add_position zi;
          w = (if pos \<ge> 0xffffffff then
                 (let (Zip64EOCDpos, w) = ZTELL64 ff fs w;
                      (_, w) = Write_Zip64EndOfCentralDirectoryRecord zi size_centraldir centraldir_pos_inzip w;
                      (_, w) = Write_Zip64EndOfCentralDirectoryLocator zi Zip64EOCDpos w
                  in w)
               else w);
          (err, w) = (if err = ZIP_OK then Write_EndOfCentralDirectoryRecord zi size_centraldir centraldir_pos_inzip w
                      else (err, w));
          (err, w) = (if err = ZIP_OK then Write_GlobalComment zi global_comment w else (err, w));
          (r, w) = ZCLOSE64 ff fs w;
          err = (if r \<noteq> 0 then (if err = ZIP_OK then ZIP_ERRNO else err) else err)
      in (err, w))"

definition zipClose ::
    "'z zlib \<Rightarrow> ('w, 'z) zip64_internal option \<Rightarrow> byte list option \<Rightarrow> sys \<Rightarrow> 'w \<Rightarrow> (int \<times> sys \<times> 'w) option" where
  "zipClose Z file global_comment \<sigma> w =
     (case file of None \<Rightarrow> Some (ZIP_PARAMERROR, \<sigma>, w)
      | Some zi \<Rightarrow> do {
          (err, file, \<sigma>, w) \<leftarrow>
            (if zi_in_opened_file_inzip zi = 1 then zipCloseFileInZip Z (Some zi) \<sigma> w
             else Some (0, Some zi, \<sigma>, w));
          let (err, w) = zip_close_tail (the file) global_comment err w;
          Some (err, \<sigma>, w)
        })"

section \<open>Removing a block from an extra field\<close>

text \<open>
  A block of an extra field is a header identifier, a data size (both signed 16-bit) and
  the data. The loop copies each kept block to the \<^emph>\<open>start\<close> of the new buffer: \<open>pTmp\<close>
  is never advanced. \<open>None\<close> is a run that does not end or that leaves one of the two
  buffers (undefined behaviour); \<open>p\<close> is an offset, which a negative data size can take
  backwards.
\<close>

definition short_at :: "byte list \<Rightarrow> nat \<Rightarrow> 16 word" where
  "short_at d i = ucast (d ! i) OR push_bit 8 (ucast (d ! (i + 1)))"

partial_function (option) remove_extra_loop ::
    "byte list \<Rightarrow> 16 word \<Rightarrow> int \<Rightarrow> int \<Rightarrow> byte list \<Rightarrow> (int \<times> byte list) option" where
  "remove_extra_loop pData sHeader p sz pNewHeader =
     (if p < int (length pData) then
        (if p < 0 \<or> p + 4 > int (length pData) then None
         else
           (let header = short_at pData (nat p);
                dataSize = sint (short_at pData (nat p + 2))
            in if header = sHeader then remove_extra_loop pData sHeader (p + (dataSize + 4)) sz pNewHeader
               else if dataSize + 4 < 0 \<or> p + (dataSize + 4) > int (length pData)
                 \<or> dataSize + 4 > int (length pNewHeader) then None
               else remove_extra_loop pData sHeader (p + (dataSize + 4)) (sz + (dataSize + 4))
                      (mem_write 0 (take (nat (dataSize + 4)) (drop (nat p) pData)) pNewHeader)))
      else Some (sz, pNewHeader))"

text \<open>
  \<open>pNewHeader\<close> is empty when its \<open>malloc\<close> failed. \<open>pData\<close> is the buffer of \<open>*dataLen\<close> bytes. \<open>junk\<close> is what \<open>malloc\<close> left in the
  new buffer. The result has the buffer as it is afterwards and the new \<open>*dataLen\<close>.
\<close>

definition zipRemoveExtraInfoBlock ::
    "byte list option \<Rightarrow> 16 word \<Rightarrow> (nat \<Rightarrow> byte) \<Rightarrow> sys \<Rightarrow> (int \<times> byte list option \<times> int \<times> sys) option" where
  "zipRemoveExtraInfoBlock pData sHeader junk \<sigma> =
     (case pData of None \<Rightarrow> Some (ZIP_PARAMERROR, None, 0, \<sigma>)
      | Some d \<Rightarrow>
          if length d < 4 then Some (ZIP_PARAMERROR, Some d, int (length d), \<sigma>)
          else
            (let (ok, \<sigma>) = malloc (length d) \<sigma>;
                 pNewHeader = (if ok then buf_take (length d) junk else [])
             in case remove_extra_loop d sHeader 0 0 pNewHeader of None \<Rightarrow> None
                | Some (sz, pNewHeader) \<Rightarrow>
                    if sz < int (length d) then
                      Some (ZIP_OK, Some (take (nat sz) pNewHeader @ replicate (length d - nat sz) 0), sz, \<sigma>)
                    else Some (ZIP_ERRNO, Some d, int (length d), \<sigma>)))"

end
