(* ===== verification/ZipFormat.thy ===== *)
theory ZipFormat
  imports ZipWrite ZipClose
begin

text \<open>
  The file format as byte strings (local header, central header, end record), and what the
  writers of \<open>zip.c\<close> put into the file in terms of them.
\<close>

section \<open>Steps that write\<close>

text \<open>
  A step writes \<open>bs\<close> when it puts exactly these bytes at the current offset, or, when the
  file may not grow that far, returns \<open>ZIP_ERRNO\<close>.
\<close>

context filefunc
begin

definition writes :: "voidpf \<Rightarrow> ('w \<Rightarrow> int \<times> 'w) \<Rightarrow> byte list \<Rightarrow> bool" where
  "writes h f bs \<longleftrightarrow>
     (\<forall>w s. fetch w h = Some s \<longrightarrow> s_wr s \<longrightarrow> (bs = [] \<or> s_pos s + length bs \<le> limit w) \<longrightarrow>
        f w = (ZIP_OK, store h (s_write bs s) w))
     \<and> (\<forall>w s. fetch w h = Some s \<longrightarrow> s_wr s \<longrightarrow> bs \<noteq> [] \<longrightarrow> limit w < s_pos s + length bs \<longrightarrow>
        (\<exists>w'. f w = (ZIP_ERRNO, w')))"

lemma writesD:
  assumes "writes h f bs" "fetch w h = Some s" "s_wr s" "bs = [] \<or> s_pos s + length bs \<le> limit w"
  shows "f w = (ZIP_OK, store h (s_write bs s) w)"
  using assms unfolding writes_def by blast

lemma writes_shortD:
  assumes "writes h f bs" "fetch w h = Some s" "s_wr s" "bs \<noteq> []" "limit w < s_pos s + length bs"
  shows "\<exists>w'. f w = (ZIP_ERRNO, w')"
  using assms unfolding writes_def by metis

lemma writes_put:
  assumes "0 < n" "n \<le> 8"
  shows "writes h (zip64local_putValue ff h x n) (putValue_buf x n)"
  unfolding writes_def
proof (intro conjI allI impI)
  fix w s
  assume s: "fetch w h = Some s" "s_wr s"
  show "zip64local_putValue ff h x n w = (ZIP_OK, store h (s_write (putValue_buf x n) s) w)"
    if "putValue_buf x n = [] \<or> s_pos s + length (putValue_buf x n) \<le> limit w"
    using putValue_ok [OF s _ assms(2)] that assms(1) by simp
  show "\<exists>w'. zip64local_putValue ff h x n w = (ZIP_ERRNO, w')"
    if "limit w < s_pos s + length (putValue_buf x n)"
    using putValue_short [OF s assms, of x] that by auto
qed

lemma writes_bytes:
  assumes "length bs < 2 ^ 64"
  shows "writes h (zip_write_bytes ff h bs) bs"
  unfolding writes_def
proof (intro conjI allI impI)
  fix w s
  assume s: "fetch w h = Some s" "s_wr s"
  show "zip_write_bytes ff h bs w = (ZIP_OK, store h (s_write bs s) w)"
    if "bs = [] \<or> s_pos s + length bs \<le> limit w"
    using io_write [OF s that] store_fetch [OF s(1)] by (auto simp: zip_write_bytes_def)
  assume ne: "bs \<noteq> []" and "limit w < s_pos s + length bs"
  from io_write_short [OF s this] obtain k s' where "k < length bs" "ZWRITE64 ff h bs w = (of_nat k, store h s' w)" by blast
  moreover from this assms have "(of_nat k :: 64 word) \<noteq> of_nat (length bs)"
    by (simp add: word_unat_eq_iff unat_of_nat_small)
  ultimately show "\<exists>w'. zip_write_bytes ff h bs w = (ZIP_ERRNO, w')" using ne by (simp add: zip_write_bytes_def)
qed

lemma writes_Nil: "writes h (run_ok []) []"
  by (simp add: writes_def store_fetch)

lemma writes_Cons:
  assumes "writes h f bs" "writes h (run_ok fs) cs"
  shows "writes h (run_ok (f # fs)) (bs @ cs)"
  unfolding writes_def
proof (intro conjI allI impI)
  fix w s
  assume s: "fetch w h = Some s" "s_wr s"
  have f: "fetch (store h (s_write bs s) w) h = Some (s_write bs s)" by (rule fetch_store [OF s(1)])
  show "run_ok (f # fs) w = (ZIP_OK, store h (s_write (bs @ cs) s) w)"
    if b: "bs @ cs = [] \<or> s_pos s + length (bs @ cs) \<le> limit w"
  proof -
    have "f w = (ZIP_OK, store h (s_write bs s) w)" using b by (intro writesD [OF assms(1) s]) auto
    moreover have "run_ok fs (store h (s_write bs s) w) = (ZIP_OK, store h (s_write cs (s_write bs s)) (store h (s_write bs s) w))"
      using b s by (intro writesD [OF assms(2) f]) (auto simp: limit_store add.assoc)
    ultimately show ?thesis by (simp add: store_store)
  qed
  assume ne: "bs @ cs \<noteq> []" and short: "limit w < s_pos s + length (bs @ cs)"
  show "\<exists>w'. run_ok (f # fs) w = (ZIP_ERRNO, w')"
  proof (cases "bs \<noteq> [] \<and> limit w < s_pos s + length bs")
    case True
    with writes_shortD [OF assms(1) s] show ?thesis by auto
  next
    case False
    then have 1: "f w = (ZIP_OK, store h (s_write bs s) w)" by (intro writesD [OF assms(1) s]) auto
    have "cs \<noteq> []" using False short ne by auto
    then have "\<exists>w'. run_ok fs (store h (s_write bs s) w) = (ZIP_ERRNO, w')"
      using writes_shortD [OF assms(2) f] s short by (simp add: limit_store add.assoc)
    with 1 show ?thesis by auto
  qed
qed

lemma writes_snoc_Nil: "writes h (run_ok fs) (cs @ []) \<Longrightarrow> writes h (run_ok fs) cs"
  by simp

lemmas writes_intros = writes_Cons writes_Nil writes_put writes_bytes

end

section \<open>Headers\<close>

definition local_header ::
    "uLong \<Rightarrow> int \<Rightarrow> uLong \<Rightarrow> uLong \<Rightarrow> ZPOS64_T \<Rightarrow> ZPOS64_T \<Rightarrow> byte list \<Rightarrow> byte list \<Rightarrow> byte list" where
  "local_header flag method dosdate crc csize usize name extra =
     putValue_buf 0x04034b50 4 @ putValue_buf 20 2 @ putValue_buf flag 2 @ putValue_buf (of_int method) 2
     @ putValue_buf dosdate 4 @ putValue_buf crc 4 @ putValue_buf csize 4 @ putValue_buf usize 4
     @ putValue_buf (of_nat (length name)) 2 @ putValue_buf (of_nat (length extra)) 2 @ name @ extra"

definition central_header ::
    "uLong \<Rightarrow> uLong \<Rightarrow> int \<Rightarrow> uLong \<Rightarrow> uLong \<Rightarrow> ZPOS64_T \<Rightarrow> ZPOS64_T \<Rightarrow> uLong \<Rightarrow> uLong \<Rightarrow> ZPOS64_T
     \<Rightarrow> byte list \<Rightarrow> byte list \<Rightarrow> byte list \<Rightarrow> byte list" where
  "central_header madeby flag method dosdate crc csize usize ifa efa offset name extra comment =
     putValue_buf 0x02014b50 4 @ putValue_buf madeby 2 @ putValue_buf 20 2 @ putValue_buf flag 2
     @ putValue_buf (of_int method) 2 @ putValue_buf dosdate 4 @ putValue_buf crc 4 @ putValue_buf csize 4
     @ putValue_buf usize 4 @ putValue_buf (of_nat (length name)) 2 @ putValue_buf (of_nat (length extra)) 2
     @ putValue_buf (of_nat (length comment)) 2 @ putValue_buf 0 2 @ putValue_buf ifa 2 @ putValue_buf efa 4
     @ putValue_buf offset 4 @ name @ extra @ comment"

definition end_of_central_dir :: "ZPOS64_T \<Rightarrow> uLong \<Rightarrow> ZPOS64_T \<Rightarrow> byte list \<Rightarrow> byte list" where
  "end_of_central_dir entries size_cd offset_cd comment =
     putValue_buf 0x06054b50 4 @ putValue_buf 0 2 @ putValue_buf 0 2 @ putValue_buf entries 2
     @ putValue_buf entries 2 @ putValue_buf size_cd 4 @ putValue_buf offset_cd 4
     @ putValue_buf (of_nat (length comment)) 2 @ comment"

lemma length_headers [simp]:
  "length (local_header flag method dosdate crc csize usize name extra) = 30 + length name + length extra"
  "length (central_header madeby flag method dosdate crc csize usize ifa efa offset name extra comment)
     = 46 + length name + length extra + length comment"
  "length (end_of_central_dir entries size_cd offset_cd comment) = 22 + length comment"
  by (simp_all add: local_header_def central_header_def end_of_central_dir_def)

text \<open>An entry without ZIP64 block: the local header is written as a whole, with zeros for CRC and sizes.\<close>

context filefunc
begin

lemma writes_local_header:
  fixes zi :: "('w, 'z) zip64_internal"
  assumes "ci_zip64 (zi_ci zi) = 0" "zi_filefunc zi = ff" "length name < 2 ^ 64" "length extra < 2 ^ 64"
  shows "\<exists>f. writes (zi_filestream zi) f
      (local_header (ci_flag (zi_ci zi)) (ci_method (zi_ci zi)) (ci_dosDate (zi_ci zi)) 0 0 0 name extra)
    \<and> (\<forall>w. Write_LocalFileHeader zi name extra w = (let (err, w) = f w in (err, zi, w)))"
proof -
  let ?ci = "zi_ci zi" and ?h = "zi_filestream zi"
  let ?put = "zip64local_putValue ff ?h"
  let ?f = "run_ok
            [?put LOCALHEADERMAGIC 4, ?put 20 2, ?put (ci_flag ?ci) 2, ?put (of_int (ci_method ?ci)) 2,
             ?put (ci_dosDate ?ci) 4, ?put 0 4, ?put 0 4, ?put 0 4, ?put (of_nat (length name)) 2,
             ?put (of_nat (length extra)) 2, zip_write_bytes ff ?h name, zip_write_bytes ff ?h extra]"
  have "writes ?h ?f (putValue_buf LOCALHEADERMAGIC 4 @ putValue_buf 20 2 @ putValue_buf (ci_flag ?ci) 2
     @ putValue_buf (of_int (ci_method ?ci)) 2 @ putValue_buf (ci_dosDate ?ci) 4 @ putValue_buf 0 4 @ putValue_buf 0 4
     @ putValue_buf 0 4 @ putValue_buf (of_nat (length name)) 2 @ putValue_buf (of_nat (length extra)) 2
     @ name @ extra @ [])"
    by (intro writes_Cons writes_Nil writes_put writes_bytes assms(3,4)) simp_all
  then have "writes ?h ?f (local_header (ci_flag ?ci) (ci_method ?ci) (ci_dosDate ?ci) 0 0 0 name extra)"
    by (simp add: local_header_def)
  moreover have "Write_LocalFileHeader zi name extra w = (let (err, w) = ?f w in (err, zi, w))" for w
    using assms(1,2) by (simp add: Write_LocalFileHeader_def Let_def del: run_ok.simps)
  ultimately show ?thesis by blast
qed

end

section \<open>The central header\<close>

lemma mem_write_next:
  "length pre = n \<Longrightarrow> mem_write n bs (pre @ replicate k x) = (pre @ bs) @ replicate (k - length bs) x"
  by (simp add: mem_write_def)

lemma put_next:
  "length pre = n \<Longrightarrow>
   zip64local_putValue_inmemory n x m (pre @ replicate k 0) = (pre @ putValue_buf x m) @ replicate (k - m) 0"
  by (simp add: zip64local_putValue_inmemory_def mem_write_next)

lemma put_first:
  "zip64local_putValue_inmemory 0 x m (replicate k 0) = putValue_buf x m @ replicate (k - m) 0"
  using put_next [of "[]" 0 x m k] by simp

definition new_file_internal_fa :: "new_file \<Rightarrow> uLong" where
  "new_file_internal_fa nf = (case nf_zipfi nf of None \<Rightarrow> 0 | Some zipfi \<Rightarrow> internal_fa zipfi)"

definition new_file_external_fa :: "new_file \<Rightarrow> uLong" where
  "new_file_external_fa nf = (case nf_zipfi nf of None \<Rightarrow> 0 | Some zipfi \<Rightarrow> external_fa zipfi)"

lemma new_file_central_eq:
  assumes "unat (ci_pos_local_header ci) < 0xffffffff"
    "N = 46 + (length (new_file_name nf) + length (nf_extrafield_global nf) + length (new_file_comment nf) + k)"
  shows "new_file_central nf add ci (replicate N 0) =
    central_header (nf_versionMadeBy nf) (ci_flag ci) (ci_method ci) (ci_dosDate ci) 0 0 0
      (new_file_internal_fa nf) (new_file_external_fa nf) (ci_pos_local_header ci - add)
      (new_file_name nf) (nf_extrafield_global nf) (new_file_comment nf) @ replicate k 0"
proof -
  have small: "\<not> ci_pos_local_header ci \<ge> 0xffffffff" using assms(1) by (simp add: word_le_nat_alt)
  have "new_file_central nf add ci (replicate N 0) =
    ((((((((((((((((((putValue_buf 0x02014b50 4 @ putValue_buf (nf_versionMadeBy nf) 2) @ putValue_buf 20 2) @ putValue_buf (ci_flag ci) 2)
     @ putValue_buf (of_int (ci_method ci)) 2) @ putValue_buf (ci_dosDate ci) 4) @ putValue_buf 0 4) @ putValue_buf 0 4)
     @ putValue_buf 0 4) @ putValue_buf (of_nat (length (new_file_name nf))) 2)
     @ putValue_buf (of_nat (length (nf_extrafield_global nf))) 2)
     @ putValue_buf (of_nat (length (new_file_comment nf))) 2) @ putValue_buf 0 2)
     @ putValue_buf (new_file_internal_fa nf) 2) @ putValue_buf (new_file_external_fa nf) 4)
     @ putValue_buf (ci_pos_local_header ci - add) 4) @ new_file_name nf) @ nf_extrafield_global nf) @ new_file_comment nf)
     @ replicate k 0"
    unfolding new_file_central_def Let_def assms(2) new_file_internal_fa_def [symmetric] new_file_external_fa_def [symmetric]
    by (simp add: put_first put_next mem_write_next small del: append_assoc)
  then show ?thesis by (simp add: central_header_def)
qed

text \<open>Storing CRC and sizes over the zeros.\<close>

lemma central_header_split:
  obtains pre mid post where "length pre = 16" "length mid = 8"
    "\<And>crc csize usize ifa. central_header mb fl m d crc csize usize ifa efa off name extra comment =
      pre @ putValue_buf crc 4 @ putValue_buf csize 4 @ putValue_buf usize 4 @ mid @ putValue_buf ifa 2 @ post"
proof
  show "length (putValue_buf 0x02014b50 4 @ putValue_buf mb 2 @ putValue_buf 20 2 @ putValue_buf fl 2
     @ putValue_buf (of_int m) 2 @ putValue_buf d 4) = 16" by simp
  show "length (putValue_buf (of_nat (length name)) 2 @ putValue_buf (of_nat (length extra)) 2
     @ putValue_buf (of_nat (length comment)) 2 @ putValue_buf 0 2) = 8" by simp
qed (simp add: central_header_def)

lemma mem_write_at:
  "length xs = k \<Longrightarrow> length bs = length old \<Longrightarrow> mem_write k bs (xs @ old @ ys) = xs @ bs @ ys"
  by (simp add: mem_write_def)

lemma zip_close_header_eq:
  assumes "ci_central_header ci = central_header mb fl m d 0 0 0 ifa efa off name extra comment @ spare"
    "csize < 0xffffffff" "usize < 0xffffffff" "ci_pos_local_header ci < 0xffffffff"
  shows "zip_close_header ci crc csize usize =
    central_header mb fl m d crc csize usize (if data_type (ci_stream ci) = Z_ASCII then 1 else ifa) efa off name extra comment
    @ spare"
proof -
  obtain pre mid post where c: "length pre = 16" "length mid = 8"
    "\<And>crc csize usize ifa. central_header mb fl m d crc csize usize ifa efa off name extra comment =
      pre @ putValue_buf crc 4 @ putValue_buf csize 4 @ putValue_buf usize 4 @ mid @ putValue_buf ifa 2 @ post"
    using central_header_split [of mb fl m d efa off name extra comment] by blast
  have small: "\<not> csize \<ge> 0xffffffff" "\<not> usize \<ge> 0xffffffff" "\<not> ci_pos_local_header ci \<ge> 0xffffffff"
    using assms(2-4) by (simp_all only: linorder_not_le)
  define z where "z = putValue_buf 0 4"
  have z: "length z = 4" by (simp add: z_def)
  note mw = mem_write_at [of pre 16] mem_write_at [of "pre @ putValue_buf crc 4" 20, simplified]
    mem_write_at [of "pre @ putValue_buf crc 4 @ putValue_buf csize 4" 24, simplified]
    mem_write_at [of "pre @ putValue_buf crc 4 @ putValue_buf csize 4 @ z @ mid" 36, simplified]
  show ?thesis
    unfolding zip_close_header_def Let_def assms(1) c(3) zip64local_putValue_inmemory_def z_def [symmetric]
    by (simp add: small mw c z)
qed

section \<open>The end of the archive\<close>

lemma putValue_saturate:
  assumes "256 ^ n - 1 \<le> unat x"
  shows "putValue_buf x n = replicate n 0xff"
proof (cases "unat x < 256 ^ n")
  case True
  then have "unat x = le_val (replicate n 0xff)" using assms by (simp add: le_val_ff)
  then show ?thesis using le_bytes_le_val [of "replicate n 0xff"] by (simp add: putValue_buf_eq)
qed (simp add: putValue_buf_eq)

lemma putValue_saturate16: "0xFFFF \<le> x \<Longrightarrow> putValue_buf 0xffff 2 = putValue_buf x 2"
  by (simp add: putValue_saturate word_le_nat_alt)

lemma putValue_saturate32: "0xFFFFFFFF \<le> x \<Longrightarrow> putValue_buf 0xffffffff 4 = putValue_buf x 4"
  by (simp add: putValue_saturate word_le_nat_alt)

context filefunc
begin

lemma writes_end_record:
  fixes zi :: "('w, 'z) zip64_internal"
  assumes "zi_filefunc zi = ff"
  shows "writes (zi_filestream zi) (Write_EndOfCentralDirectoryRecord zi size_cd pos)
    (take 20 (end_of_central_dir (zi_number_entry zi) size_cd (pos - zi_add_position zi) []))"
proof -
  let ?h = "zi_filestream zi"
  let ?put = "zip64local_putValue ff ?h"
  have 16: "writes ?h (if zi_number_entry zi \<ge> 0xFFFF then ?put 0xffff 2 else ?put (zi_number_entry zi) 2)
      (putValue_buf (zi_number_entry zi) 2)"
    using writes_put [of 2 ?h "0xffff"] writes_put [of 2 ?h "zi_number_entry zi"] putValue_saturate16
    by (cases "zi_number_entry zi \<ge> 0xFFFF") simp_all
  have 32: "writes ?h (if pos - zi_add_position zi \<ge> 0xffffffff then ?put 0xffffffff 4
      else ?put (pos - zi_add_position zi) 4) (putValue_buf (pos - zi_add_position zi) 4)"
    using writes_put [of 4 ?h "0xffffffff"] writes_put [of 4 ?h "pos - zi_add_position zi"] putValue_saturate32
    by (cases "pos - zi_add_position zi \<ge> 0xffffffff") simp_all
  have "writes ?h (Write_EndOfCentralDirectoryRecord zi size_cd pos)
     (putValue_buf ENDHEADERMAGIC 4 @ putValue_buf 0 2 @ putValue_buf 0 2 @ putValue_buf (zi_number_entry zi) 2
     @ putValue_buf (zi_number_entry zi) 2 @ putValue_buf size_cd 4 @ putValue_buf (pos - zi_add_position zi) 4 @ [])"
    unfolding Write_EndOfCentralDirectoryRecord_def Let_def assms
    by (intro writes_Cons writes_Nil writes_put 16 32) simp_all
  then show ?thesis by (simp add: end_of_central_dir_def)
qed

end

end
