(* ===== verification/Archive.thy ===== *)
theory Archive
  imports ZipFormat
begin

text \<open>
  Whole archives as they are written: the effect of opening, writing and closing an entry and
  of closing the archive on the bytes of the file, for entries that are stored or copied raw
  and stay below the ZIP64 limits.
\<close>

section \<open>Settling the local header\<close>

lemma overwrite_at:
  "length xs = k \<Longrightarrow> length bs = length old \<Longrightarrow> overwrite k bs (xs @ old @ ys) = xs @ bs @ ys"
  by (simp add: overwrite_def)

lemma local_header_split:
  obtains pre post where "length pre = 14"
    "\<And>crc csize usize. local_header fl m d crc csize usize name extra =
      pre @ putValue_buf crc 4 @ putValue_buf csize 4 @ putValue_buf usize 4 @ post"
proof
  show "length (putValue_buf 0x04034b50 4 @ putValue_buf 20 2 @ putValue_buf fl 2
     @ putValue_buf (of_int m) 2 @ putValue_buf d 4) = 14" by simp
qed (simp add: local_header_def)

context filefunc
begin

lemma update_local_eq:
  fixes zi :: "('w, 'z) zip64_internal"
  assumes ff: "zi_filefunc zi = ff" and s: "fetch w (zi_filestream zi) = Some s" "at_end s"
    and data: "s_data s = pre @ local_header fl m d 0 0 0 name extra @ body"
    and pos: "ci_pos_local_header (zi_ci zi) = of_nat (length pre)" "length (s_data s) < 2 ^ 63" "length (s_data s) \<le> limit w"
    and us: "usize < 0xffffffff"
  shows "zip_update_local zi crc csize usize w = (ZIP_OK, store (zi_filestream zi)
      (s\<lparr>s_data := pre @ local_header fl m d crc csize usize name extra @ body\<rparr>) w)"
proof -
  let ?h = "zi_filestream zi"
  obtain a b where l: "length a = 14"
    "\<And>crc csize usize. local_header fl m d crc csize usize name extra =
      a @ putValue_buf crc 4 @ putValue_buf csize 4 @ putValue_buf usize 4 @ b"
    using local_header_split [of fl m d name extra] by blast
  have n: "length (s_data s) = s_pos s" "s_wr s" using s(2) by (auto simp: at_end_def)
  have n2: "s_pos s = length pre + 26 + length b + length body" using n(1) data l by simp
  have p14: "ci_pos_local_header (zi_ci zi) + 14 = of_nat (length pre + 14)" by (simp add: pos(1))
  have u: "unat (of_nat (length pre + 14) :: 64 word) = length pre + 14" "unat (of_nat (s_pos s) :: 64 word) = s_pos s"
    by (rule unat_of_nat_small, use pos(2) n n2 in simp)+
  have 1: "ZSEEK64 ff ?h (of_nat (length pre + 14)) ZLIB_FILEFUNC_SEEK_SET w
      = (0, store ?h (s_seek (length pre + 14) s) w)"
    using io_seek_set [OF s(1), of "of_nat (length pre + 14)"] u(1) pos(2) n n2 by (simp del: of_nat_add)
  let ?s1 = "s_seek (length pre + 14) s"
  let ?b1 = "putValue_buf crc 4" and ?b2 = "putValue_buf csize 4 @ putValue_buf usize 4"
  let ?bs = "?b1 @ ?b2"
  have 2: "zip64local_putValue ff ?h crc 4 (store ?h ?s1 w) = (ZIP_OK, store ?h (s_write ?b1 ?s1) w)"
    using putValue_ok [OF fetch_store [OF s(1)], of ?s1 4 crc] pos(3) n n2 by (simp add: limit_store store_store)
  have "writes ?h (run_ok [zip64local_putValue ff ?h csize 4, zip64local_putValue ff ?h usize 4])
      (putValue_buf csize 4 @ putValue_buf usize 4 @ [])"
    by (intro writes_Cons writes_Nil writes_put) simp_all
  from writesD [OF this fetch_store [OF s(1)], of "s_write ?b1 ?s1"] pos(3) n n2
  have 4: "run_ok [zip64local_putValue ff ?h csize 4, zip64local_putValue ff ?h usize 4]
      (store ?h (s_write ?b1 ?s1) w) = (ZIP_OK, store ?h (s_write ?bs ?s1) w)"
    by (simp add: limit_store store_store del: run_ok.simps)
  have 3: "ZSEEK64 ff ?h (of_nat (s_pos s)) ZLIB_FILEFUNC_SEEK_SET (store ?h (s_write ?bs ?s1) w)
      = (0, store ?h (s_seek (s_pos s) (s_write ?bs ?s1)) w)"
    using io_seek_set [OF fetch_store [OF s(1)], of "of_nat (s_pos s)"] u(2) pos(2) n by (simp add: store_store)
  have sd: "s_data (s_write ?bs ?s1) = pre @ local_header fl m d crc csize usize name extra @ body"
    using overwrite_at [of "pre @ a" "length pre + 14" ?bs "putValue_buf 0 4 @ putValue_buf 0 4 @ putValue_buf 0 4" "b @ body"]
    by (simp add: s_write_def s_seek_def data l)
  have s': "s_seek (s_pos s) (s_write ?bs ?s1) = s\<lparr>s_data := pre @ local_header fl m d crc csize usize name extra @ body\<rparr>"
    unfolding sd [symmetric] by (simp add: s_seek_def s_write_def)
  have small: "\<not> usize \<ge> 0xffffffff" using us by (simp only: linorder_not_le)
  have "zip_update_local zi crc csize usize w = (ZIP_OK, store ?h (s_seek (s_pos s) (s_write ?bs ?s1)) w)"
    by (simp add: zip_update_local_def ff io_tell [OF s(1)] p14 1 2 3 4 small Let_def
      del: run_ok.simps of_nat_add s_write_s_write ZLIB_FILEFUNC_SEEK_SET_def)
  then show ?thesis unfolding s' .
qed

end

section \<open>Entries\<close>

text \<open>
  An entry as it was opened, with the bytes stored for it, and the CRC and the uncompressed
  size that its headers give.
\<close>

record zip_entry =
  ze_file :: new_file
  ze_data :: "byte list"
  ze_crc :: uLong
  ze_size :: ZPOS64_T

definition entry_header :: "new_file \<Rightarrow> uLong \<Rightarrow> ZPOS64_T \<Rightarrow> ZPOS64_T \<Rightarrow> byte list" where
  "entry_header nf crc csize usize =
     local_header (new_file_flag nf) (nf_method nf) (new_file_dosDate nf) crc csize usize (new_file_name nf)
       (nf_extrafield_local nf)"

definition entry_local :: "zip_entry \<Rightarrow> byte list" where
  "entry_local e = entry_header (ze_file e) (ze_crc e) (of_nat (length (ze_data e))) (ze_size e) @ ze_data e"

definition dir_header :: "ZPOS64_T \<Rightarrow> new_file \<Rightarrow> uLong \<Rightarrow> ZPOS64_T \<Rightarrow> ZPOS64_T \<Rightarrow> byte list" where
  "dir_header offset nf crc csize usize =
     central_header (nf_versionMadeBy nf) (new_file_flag nf) (nf_method nf) (new_file_dosDate nf) crc csize usize
       (new_file_internal_fa nf) (new_file_external_fa nf) offset
       (new_file_name nf) (nf_extrafield_global nf) (new_file_comment nf)"

definition entry_central :: "ZPOS64_T \<Rightarrow> zip_entry \<Rightarrow> byte list" where
  "entry_central offset e = dir_header offset (ze_file e) (ze_crc e) (of_nat (length (ze_data e))) (ze_size e)"

definition locals :: "zip_entry list \<Rightarrow> byte list" where
  "locals es = concat (map entry_local es)"

fun central_dir :: "ZPOS64_T \<Rightarrow> zip_entry list \<Rightarrow> byte list" where
  "central_dir offset [] = []"
| "central_dir offset (e # es) = entry_central offset e @ central_dir (offset + of_nat (length (entry_local e))) es"

lemma locals_simps [simp]:
  "locals [] = []" "locals (e # es) = entry_local e @ locals es" "locals (es @ es') = locals es @ locals es'"
  by (simp_all add: locals_def)

lemma central_dir_append:
  "central_dir offset (es @ es') = central_dir offset es @ central_dir (offset + of_nat (length (locals es))) es'"
  by (induction es arbitrary: offset) (simp_all add: add.assoc)

lemma length_entry [simp]:
  "length (entry_header nf crc csize usize) = 30 + length (new_file_name nf) + length (nf_extrafield_local nf)"
  "length (dir_header offset nf crc csize usize) =
     46 + length (new_file_name nf) + length (nf_extrafield_global nf) + length (new_file_comment nf)"
  by (simp_all add: entry_header_def dir_header_def)

text \<open>What an entry is opened with: neither encrypted nor compressed by the code, and small headers.\<close>

definition nf_ok :: "new_file \<Rightarrow> bool" where
  "nf_ok nf \<longleftrightarrow> nf_zip64 nf = 0 \<and> nf_password nf = None
     \<and> (nf_method nf = 0 \<or> nf_method nf = Z_DEFLATED \<and> nf_raw nf \<noteq> 0)
     \<and> length (new_file_name nf) < 2 ^ 16 \<and> length (nf_extrafield_local nf) < 2 ^ 16
     \<and> length (nf_extrafield_global nf) < 2 ^ 16 \<and> length (new_file_comment nf) < 2 ^ 16"

text \<open>The same without a condition on the method.\<close>

definition nf_small :: "new_file \<Rightarrow> bool" where
  "nf_small nf \<longleftrightarrow> nf_zip64 nf = 0 \<and> nf_password nf = None
     \<and> length (new_file_name nf) < 2 ^ 16 \<and> length (nf_extrafield_local nf) < 2 ^ 16
     \<and> length (nf_extrafield_global nf) < 2 ^ 16 \<and> length (new_file_comment nf) < 2 ^ 16"

lemma nf_ok_small: "nf_ok nf \<Longrightarrow> nf_small nf"
  by (simp add: nf_ok_def nf_small_def)

text \<open>The file of an entry whose data the compressor found to be text: the internal attributes say so.\<close>

definition marked :: "int \<Rightarrow> new_file \<Rightarrow> new_file" where
  "marked t nf = (if t = Z_ASCII then nf\<lparr>nf_zipfi := Some ((the (nf_zipfi nf))\<lparr>internal_fa := 1\<rparr>)\<rparr> else nf)"

lemma marked_sel:
  assumes "t = Z_ASCII \<Longrightarrow> nf_zipfi nf \<noteq> None"
  shows "new_file_name (marked t nf) = new_file_name nf" "new_file_comment (marked t nf) = new_file_comment nf"
    "new_file_flag (marked t nf) = new_file_flag nf" "new_file_dosDate (marked t nf) = new_file_dosDate nf"
    "new_file_external_fa (marked t nf) = new_file_external_fa nf"
    "new_file_internal_fa (marked t nf) = (if t = Z_ASCII then 1 else new_file_internal_fa nf)"
    "nf_method (marked t nf) = nf_method nf" "nf_extrafield_local (marked t nf) = nf_extrafield_local nf"
    "nf_extrafield_global (marked t nf) = nf_extrafield_global nf" "nf_versionMadeBy (marked t nf) = nf_versionMadeBy nf"
    "nf_zip64 (marked t nf) = nf_zip64 nf" "nf_password (marked t nf) = nf_password nf"
  using assms by (auto simp: marked_def new_file_name_def new_file_comment_def new_file_flag_def new_file_dosDate_def
      new_file_external_fa_def new_file_internal_fa_def split: option.splits)

lemma marked_header: "t = Z_ASCII \<Longrightarrow> nf_zipfi nf \<noteq> None \<Longrightarrow> entry_header (marked t nf) = entry_header nf"
  "t \<noteq> Z_ASCII \<Longrightarrow> marked t nf = nf"
  by (auto simp: entry_header_def marked_sel fun_eq_iff) (simp add: marked_def)

lemma Z_BINARY_not_ASCII: "Z_BINARY \<noteq> Z_ASCII"
  by simp

section \<open>Archives being written\<close>

text \<open>
  What was there before the entries: the bytes of the file, and the headers and the number of
  entries that are already in the directory.
\<close>

record archive_base =
  ab_data :: "byte list"
  ab_dir :: "byte list"
  ab_count :: nat

definition arch_dir :: "archive_base \<Rightarrow> zip_entry list \<Rightarrow> ('w, 'z) zip64_internal \<Rightarrow> bool" where
  "arch_dir b es zi \<longleftrightarrow> ll_ok (zi_central_dir zi)
     \<and> ll_bytes (zi_central_dir zi) = ab_dir b @ central_dir (of_nat (length (ab_data b)) - zi_add_position zi) es
     \<and> zi_number_entry zi = of_nat (ab_count b + length es)"

text \<open>Between entries.\<close>

definition arch_closed :: "archive_base \<Rightarrow> zip_entry list \<Rightarrow> ('w, 'z) zip64_internal \<Rightarrow> stream \<Rightarrow> bool" where
  "arch_closed b es zi s \<longleftrightarrow> at_end s \<and> arch_dir b es zi \<and> zi_in_opened_file_inzip zi = 0
     \<and> s_data s = ab_data b @ locals es"

text \<open>An entry is open: \<open>d\<close> is the data written so far and \<open>c\<close> its running CRC.\<close>

definition arch_open ::
    "archive_base \<Rightarrow> zip_entry list \<Rightarrow> new_file \<Rightarrow> byte list \<Rightarrow> uLong \<Rightarrow> ('w, 'z) zip64_internal \<Rightarrow> stream \<Rightarrow> bool" where
  "arch_open b es nf d c zi s \<longleftrightarrow> at_end s \<and> arch_dir b es zi \<and> zi_in_opened_file_inzip zi = 1
     \<and> buf_ok (zi_ci zi) \<and> stored (zi_ci zi)
     \<and> out s (zi_ci zi) [] = ab_data b @ locals es @ entry_header nf 0 0 0 @ d
     \<and> ci_encrypt (zi_ci zi) = 0 \<and> ci_crypt_header_size (zi_ci zi) = 0 \<and> data_type (ci_stream (zi_ci zi)) = Z_BINARY
     \<and> ci_raw (zi_ci zi) = nf_raw nf \<and> ci_crc32 (zi_ci zi) = c
     \<and> ci_pos_local_header (zi_ci zi) = of_nat (length (ab_data b @ locals es))
     \<and> ci_size_centralheader (zi_ci zi) = of_nat (length (dir_header 0 nf 0 0 0))
     \<and> ci_central_header (zi_ci zi) =
         dir_header (of_nat (length (ab_data b @ locals es)) - zi_add_position zi) nf 0 0 0 @ replicate 32 0
     \<and> size_c (zi_ci zi) = of_nat (length d) \<and> size_u (zi_ci zi) = of_nat (length d)"

text \<open>The fields that no operation on entries changes.\<close>

definition same_archive :: "('w, 'z) zip64_internal \<Rightarrow> ('w, 'z) zip64_internal \<Rightarrow> bool" where
  "same_archive zi zi' \<longleftrightarrow> zi_filefunc zi' = zi_filefunc zi \<and> zi_filestream zi' = zi_filestream zi
     \<and> zi_add_position zi' = zi_add_position zi \<and> zi_begin_pos zi' = zi_begin_pos zi
     \<and> zi_globalcomment zi' = zi_globalcomment zi"

lemma same_archive_refl [simp]: "same_archive zi zi"
  by (simp add: same_archive_def)

lemma same_archive_trans: "same_archive a b \<Longrightarrow> same_archive b c \<Longrightarrow> same_archive a c"
  by (simp add: same_archive_def)

context filefunc
begin

section \<open>Opening an entry\<close>

text \<open>The headers, up to the compressor: the entry starts empty.\<close>

definition entry_begun ::
    "archive_base \<Rightarrow> zip_entry list \<Rightarrow> new_file \<Rightarrow> ('w, 'z) zip64_internal \<Rightarrow> 'z curfile64_info \<Rightarrow> bool" where
  "entry_begun b es nf zi ci \<longleftrightarrow> ci_pos_in_buffered_data ci = 0 \<and> ci_encrypt ci = 0 \<and> ci_crc32 ci = 0
     \<and> ci_method ci = nf_method nf \<and> ci_raw ci = nf_raw nf
     \<and> ci_totalCompressedData ci = 0 \<and> ci_totalUncompressedData ci = 0
     \<and> ci_pos_local_header ci = of_nat (length (ab_data b @ locals es))
     \<and> ci_size_centralheader ci = of_nat (length (dir_header 0 nf 0 0 0))
     \<and> ci_central_header ci = dir_header (of_nat (length (ab_data b @ locals es)) - zi_add_position zi) nf 0 0 0 @ replicate 32 0"

lemma new_file_headers_eq:
  fixes zi :: "('w, 'z) zip64_internal" and Z :: "'z zlib"
  assumes ff: "zi_filefunc zi = ff" "zi_filestream zi = h" and s: "fetch w h = Some s" and arch: "arch_closed b es zi s"
    and nf: "nf_small nf" and mt: "malloc_total \<sigma>"
    and pos: "length (s_data s) < 0xffffffff" "length (s_data s @ entry_header nf 0 0 0) \<le> limit w"
  shows "\<exists>ci \<sigma>'. new_file_open Z zi nf \<sigma> w
      = Some (let (err, ci') = new_file_compressor Z nf ZIP_OK ci; zi' = zi\<lparr>zi_ci := ci'\<lparr>ci_crypt_header_size := 0\<rparr>\<rparr>
              in (err, if err = Z_OK then zi'\<lparr>zi_in_opened_file_inzip := 1\<rparr> else zi', \<sigma>',
                  store h (s_write (entry_header nf 0 0 0) s) w))
    \<and> malloc_total \<sigma>' \<and> entry_begun b es nf zi ci"
proof -
  let ?pos = "of_nat (s_pos s) :: ZPOS64_T"
  define c where c: "c = new_file_reset nf ?pos (zi_ci zi)"
  let ?n = "unat (ci_size_centralheader c) + sizeof_spare"
  let ?ci = "c\<lparr>ci_central_header := new_file_central nf (zi_add_position zi) c (replicate ?n 0),
      ci_zip64 := nf_zip64 nf, ci_totalCompressedData := 0, ci_totalUncompressedData := 0, ci_pos_zip64extrainfo := 0\<rparr>"
  let ?zi = "zi\<lparr>zi_ci := ?ci\<rparr>"
  let ?s = "s_write (entry_header nf 0 0 0) s"
  have nfs: "nf_zip64 nf = 0" "nf_password nf = None"
    "length (new_file_name nf) < 2 ^ 16" "length (nf_extrafield_local nf) < 2 ^ 16"
    "length (nf_extrafield_global nf) < 2 ^ 16" "length (new_file_comment nf) < 2 ^ 16"
    using nf by (auto simp: nf_small_def)
  have p: "s_pos s = length (s_data s)" "s_wr s" "s_data s = ab_data b @ locals es"
    using arch by (auto simp: arch_closed_def at_end_def)
  have up: "unat ?pos = s_pos s" by (rule unat_of_nat_small, use pos(1) p in simp)
  have uc: "unat (ci_size_centralheader c) = length (dir_header 0 nf 0 0 0)"
  proof -
    have "unat (of_nat (length (dir_header 0 nf 0 0 0)) :: 64 word) = length (dir_header 0 nf 0 0 0)"
      by (rule unat_of_nat_small, use nfs in simp)
    then show ?thesis by (simp add: c new_file_reset_def)
  qed
  obtain \<sigma>1 where ml: "malloc ?n \<sigma> = (True, \<sigma>1)" "malloc_total \<sigma>1" using malloc_total_malloc [OF mt] by blast
  have cen: "new_file_central nf (zi_add_position zi) c (replicate ?n 0)
      = dir_header (?pos - zi_add_position zi) nf 0 0 0 @ replicate 32 0"
    unfolding dir_header_def uc
    by (subst new_file_central_eq [where k = 32]) (use up p pos in \<open>simp_all add: c new_file_reset_def sizeof_spare_def\<close>)
  obtain f where f: "writes h f (entry_header nf 0 0 0)"
    "\<And>w. Write_LocalFileHeader ?zi (new_file_name nf) (nf_extrafield_local nf) w = (let (err, w) = f w in (err, ?zi, w))"
    using writes_local_header [of ?zi "new_file_name nf" "nf_extrafield_local nf"] nfs ff
    by (auto simp: entry_header_def c new_file_reset_def)
  have "f w = (ZIP_OK, store h ?s w)"
    using writesD [OF f(1) s] p pos(2) by simp
  then have wl: "Write_LocalFileHeader ?zi (new_file_name nf) (nf_extrafield_local nf) w = (ZIP_OK, ?zi, store h ?s w)"
    using f(2) by simp
  have "new_file_open Z zi nf \<sigma> w
      = Some (let (err, ci') = new_file_compressor Z nf ZIP_OK ?ci; zi' = zi\<lparr>zi_ci := ci'\<lparr>ci_crypt_header_size := 0\<rparr>\<rparr>
              in (err, if err = Z_OK then zi'\<lparr>zi_in_opened_file_inzip := 1\<rparr> else zi', \<sigma>1, store h ?s w))"
    using nfs(2) ml(1) wl
    by (simp add: new_file_open_def ff Let_def io_tell [OF s] c [symmetric] new_file_crypt_def split: prod.split)
  moreover have "entry_begun b es nf zi ?ci"
    using cen uc p by (simp add: entry_begun_def c new_file_reset_def)
  ultimately show ?thesis using ml(2) by blast
qed

lemma new_file_open_eq:
  fixes zi :: "('w, 'z) zip64_internal" and Z :: "'z zlib"
  assumes ff: "zi_filefunc zi = ff" "zi_filestream zi = h" and s: "fetch w h = Some s" and arch: "arch_closed b es zi s"
    and nf: "nf_ok nf" and mt: "malloc_total \<sigma>"
    and pos: "length (s_data s) < 0xffffffff" "length (s_data s @ entry_header nf 0 0 0) \<le> limit w"
  shows "\<exists>zi' \<sigma>'. new_file_open Z zi nf \<sigma> w
      = Some (ZIP_OK, zi', \<sigma>', store h (s_write (entry_header nf 0 0 0) s) w)
    \<and> malloc_total \<sigma>' \<and> same_archive zi zi' \<and> arch_open b es nf [] 0 zi' (s_write (entry_header nf 0 0 0) s)"
proof -
  let ?s = "s_write (entry_header nf 0 0 0) s"
  have m: "\<not> (nf_method nf = Z_DEFLATED \<and> nf_raw nf = 0)" using nf by (auto simp: nf_ok_def)
  obtain ci \<sigma>1 where 1: "new_file_open Z zi nf \<sigma> w
      = Some (let (err, ci') = new_file_compressor Z nf ZIP_OK ci; zi' = zi\<lparr>zi_ci := ci'\<lparr>ci_crypt_header_size := 0\<rparr>\<rparr>
              in (err, if err = Z_OK then zi'\<lparr>zi_in_opened_file_inzip := 1\<rparr> else zi', \<sigma>1, store h ?s w))"
    "malloc_total \<sigma>1" "entry_begun b es nf zi ci"
    using new_file_headers_eq [OF ff s arch nf_ok_small [OF nf] mt pos] by blast
  let ?ci' = "ci\<lparr>ci_stream := (ci_stream ci)\<lparr>next_in := [], avail_out := Z_BUFSIZE, next_out := 0, total_in := 0,
                                total_out := 0, data_type := Z_BINARY\<rparr>, ci_crypt_header_size := 0\<rparr>"
  let ?zi' = "zi\<lparr>zi_ci := ?ci', zi_in_opened_file_inzip := 1\<rparr>"
  note b = 1(3) [unfolded entry_begun_def]
  have "new_file_open Z zi nf \<sigma> w = Some (ZIP_OK, ?zi', \<sigma>1, store h ?s w)"
    using m 1(1) b by (cases "nf_method nf = Z_DEFLATED") (simp_all add: new_file_compressor_def Let_def)
  moreover have "arch_open b es nf [] 0 ?zi' ?s"
  proof -
    have "buf_ok ?ci'" "stored ?ci'" using m b by (simp_all add: buf_ok_def stored_def)
    moreover have "out ?s ?ci' [] = ab_data b @ locals es @ entry_header nf 0 0 0"
      using arch b by (simp add: arch_closed_def out_def pending_def enc_bytes_def at_end_data)
    ultimately show ?thesis
      using arch b by (simp add: arch_open_def arch_closed_def arch_dir_def size_c_def size_u_def)
  qed
  ultimately show ?thesis using 1(2) by (auto simp: same_archive_def)
qed

section \<open>Writing to an entry\<close>

lemma arch_write:
  fixes zi :: "('w, 'z) zip64_internal" and Z :: "'z zlib"
  assumes ff: "zi_filefunc zi = ff" "zi_filestream zi = h" and s: "fetch w h = Some s"
    and arch: "arch_open b es nf d c zi s"
    and room: "length (ab_data b @ locals es @ entry_header nf 0 0 0 @ d @ buf) \<le> limit w"
  shows "\<exists>zi' s'. zipWriteInFileInZip Z (Some zi) buf w = Some (ZIP_OK, Some zi', store h s' w)
    \<and> same_archive zi zi' \<and> s_rd s' = s_rd s \<and> s_err s' = s_err s
    \<and> arch_open b es nf (d @ buf) (zl_crc32 Z c buf) zi' s'"
proof -
  note a = arch [unfolded arch_open_def]
  have plain: "out s ci xs = out s ci [] @ xs" if "ci_encrypt ci = 0" for s and ci :: "'z curfile64_info" and xs
    using that by (simp add: out_def enc_bytes_def)
  have "length (out s (zi_ci zi) buf) \<le> limit w" using a room plain [of "zi_ci zi" s buf] by (simp add: algebra_simps)
  moreover have "fetch w (zi_filestream zi) = Some s" using s ff by simp
  ultimately obtain ci s' where r: "zipWriteInFileInZip Z (Some zi) buf w
      = Some (ZIP_OK, Some (zi\<lparr>zi_ci := ci\<rparr>), store (zi_filestream zi) s' w)"
    "at_end s'" "s_rd s' = s_rd s" "s_err s' = s_err s" "buf_ok ci" "stored ci"
    "same_entry ((zi_ci zi)\<lparr>ci_crc32 := zl_crc32 Z (ci_crc32 (zi_ci zi)) buf\<rparr>) ci"
    "\<forall>xs. out s' ci xs = out s (zi_ci zi) (buf @ xs)"
    "size_c ci = size_c (zi_ci zi) + of_nat (length buf)" "size_u ci = size_u (zi_ci zi) + of_nat (length buf)"
    using write_stored [OF ff(1), of w s buf Z] a by auto
  have "out s' ci [] = ab_data b @ locals es @ entry_header nf 0 0 0 @ d @ buf"
    using a r(8) plain [of "zi_ci zi" s buf] by simp
  then have "arch_open b es nf (d @ buf) (zl_crc32 Z c buf) (zi\<lparr>zi_ci := ci\<rparr>) s'"
    using a r(2,5,6,9,10) same_entry_sel [OF r(7)] by (simp add: arch_open_def arch_dir_def)
  with r(1,3,4) ff show ?thesis by (auto simp: same_archive_def)
qed

section \<open>Closing an entry\<close>

lemma close_flush_stored:
  fixes zi :: "('w, 'z) zip64_internal" and Z :: "'z zlib"
  assumes ff: "zi_filefunc zi = ff" "zi_filestream zi = h" and s: "fetch w h = Some s" "at_end s"
    and st: "stored (zi_ci zi)" and room: "length (out s (zi_ci zi) []) \<le> limit w"
  shows "\<exists>ci s'. zip_close_flush Z ZIP_OK zi w = (ZIP_OK, zi\<lparr>zi_ci := ci\<rparr>, store h s' w)
    \<and> at_end s' \<and> s_rd s' = s_rd s \<and> s_err s' = s_err s \<and> s_data s' = out s (zi_ci zi) []
    \<and> same_entry (zi_ci zi) ci \<and> ci_totalCompressedData ci = size_c (zi_ci zi)
    \<and> ci_totalUncompressedData ci = size_u (zi_ci zi)"
proof (cases "ci_pos_in_buffered_data (zi_ci zi) > 0")
  case True
  have "zip64FlushWriteBuffer zi w = (ZIP_OK, zi\<lparr>zi_ci := flushed (zi_ci zi)\<rparr>,
      store h (s_write (enc_bytes (zi_ci zi) (pending (zi_ci zi))) s) w)"
    using flush_ok [OF ff(1), of w s] s ff(2) room by simp
  then have "zip_close_flush Z ZIP_OK zi w = (ZIP_OK, zi\<lparr>zi_ci := flushed (zi_ci zi)\<rparr>,
      store h (s_write (enc_bytes (zi_ci zi) (pending (zi_ci zi))) s) w)"
    using True st by (cases "ci_method (zi_ci zi) = Z_DEFLATED")
      (simp_all add: zip_close_flush_def stored_def flushed_def)
  moreover have "ci_totalCompressedData (flushed (zi_ci zi)) = size_c (zi_ci zi)"
    "ci_totalUncompressedData (flushed (zi_ci zi)) = size_u (zi_ci zi)" by (simp_all add: flushed_def)
  ultimately show ?thesis using s(2)
    by (intro exI [of _ "flushed (zi_ci zi)"] exI [of _ "s_write (enc_bytes (zi_ci zi) (pending (zi_ci zi))) s"])
      (simp add: same_entry_flushed at_end_data out_def)
next
  case False
  then have "zip_close_flush Z ZIP_OK zi w = (ZIP_OK, zi\<lparr>zi_ci := zi_ci zi\<rparr>, store h s w)"
    using st store_fetch [OF s(1)] by (cases "ci_method (zi_ci zi) = Z_DEFLATED")
      (simp_all add: zip_close_flush_def stored_def)
  with s(2) False st show ?thesis
    by (intro exI [of _ "zi_ci zi"] exI [of _ s])
      (simp add: out_def pending_empty size_c_def size_u_def stored_def)
qed

text \<open>The record of an entry in the directory, for an entry without ZIP64 sizes.\<close>

lemma close_record_eq:
  fixes zi :: "('w, 'z) zip64_internal"
  assumes ff: "zi_filefunc zi = ff" "zi_filestream zi = h" and s: "fetch w h = Some s" "at_end s"
    and dir: "arch_dir b es zi" and hdr: "ci_central_header (zi_ci zi) = dir_header off nf 0 0 0 @ spare"
      "ci_size_centralheader (zi_ci zi) = of_nat (length (dir_header off nf 0 0 0))"
      "length (dir_header off nf 0 0 0) < 2 ^ 64"
    and tx: "t = data_type (ci_stream (zi_ci zi))" "t = Z_ASCII \<Longrightarrow> nf_zipfi nf \<noteq> None"
    and off: "off = of_nat (length (ab_data b @ locals es)) - zi_add_position zi"
      "ci_pos_local_header (zi_ci zi) = of_nat (length (ab_data b @ locals es))"
      "length (ab_data b @ locals es) < 0xffffffff"
    and data: "s_data s = ab_data b @ locals es @ entry_header nf 0 0 0 @ d"
      "length (s_data s) < 2 ^ 63" "length (s_data s) \<le> limit w"
    and sz: "ci_totalCompressedData (zi_ci zi) + of_int (ci_crypt_header_size (zi_ci zi)) = of_nat (length d)"
      "length d < 0xffffffff"
      "u = (if ci_raw (zi_ci zi) = 0 then ci_totalUncompressedData (zi_ci zi) else usize)" "u < 0xffffffff"
      "c = (if ci_raw (zi_ci zi) = 0 then ci_crc32 (zi_ci zi) else crc)"
    and mt: "malloc_total \<sigma>"
  shows "\<exists>zi' \<sigma>' s'. zip_close_record ZIP_OK zi usize crc \<sigma> w = (ZIP_OK, zi', \<sigma>', store h s' w)
    \<and> malloc_total \<sigma>' \<and> same_archive zi zi' \<and> s_rd s' = s_rd s \<and> s_err s' = s_err s
    \<and> arch_closed b (es @ [\<lparr>ze_file = marked t nf, ze_data = d, ze_crc = c, ze_size = u\<rparr>]) zi' s'"
proof -
  let ?nf = "marked t nf" and ?e = "\<lparr>ze_file = marked t nf, ze_data = d, ze_crc = c, ze_size = u\<rparr>"
  let ?cs = "of_nat (length d) :: ZPOS64_T"
  let ?ci = "(zi_ci zi)\<lparr>ci_central_header := dir_header off ?nf c ?cs u @ spare\<rparr>"
  have cs: "?cs < 0xffffffff" and po: "ci_pos_local_header (zi_ci zi) < 0xffffffff"
    using below32 [OF sz(2)] below32 [OF off(3)] off(2) by simp_all
  have small: "\<not> ?cs \<ge> 0xffffffff" "\<not> u \<ge> 0xffffffff" "\<not> ci_pos_local_header (zi_ci zi) \<ge> 0xffffffff"
    using cs po sz(4) by (simp_all only: linorder_not_le)
  have h: "zip_close_header (zi_ci zi) c ?cs u = dir_header off ?nf c ?cs u @ spare"
    using zip_close_header_eq [OF _ cs sz(4) po, of "nf_versionMadeBy nf" "new_file_flag nf" "nf_method nf" "new_file_dosDate nf"] hdr(1) tx(1)
    by (simp add: dir_header_def marked_sel [OF tx(2)])
  have z: "zip_close_zip64 ?ci ?cs u = Some ?ci"
    using small by (simp add: zip_close_zip64_def zip64_datasize_def)
  obtain l \<sigma>' where add: "add_data_in_datablock (Some (zi_central_dir zi)) (dir_header off ?nf c ?cs u) \<sigma> = (ZIP_OK, Some l, \<sigma>')"
    "malloc_total \<sigma>'" using add_data_in_datablock_total [OF mt] by blast
  have l: "ll_ok l" "ll_bytes l = ll_bytes (zi_central_dir zi) @ dir_header off ?nf c ?cs u"
    using add_data_in_datablock_spec [OF add(1)] dir by (auto simp: arch_dir_def)
  have "unat (ci_size_centralheader (zi_ci zi)) = length (dir_header off ?nf c ?cs u)"
    using unat_of_nat_small [of "length (dir_header off nf 0 0 0)", where ?'a = 64] hdr(2,3) by (simp add: marked_sel [OF tx(2)])
  then have tk: "take (unat (ci_size_centralheader (zi_ci zi))) (dir_header off ?nf c ?cs u @ spare) = dir_header off ?nf c ?cs u"
    by (simp del: length_entry)
  let ?zi = "zi\<lparr>zi_ci := ?ci, zi_central_dir := l\<rparr>"
  let ?s = "s\<lparr>s_data := (ab_data b @ locals es) @ entry_header nf c ?cs u @ d\<rparr>"
  have up: "zip_update_local ?zi c ?cs u w = (ZIP_OK, store h ?s w)"
    using update_local_eq [of ?zi w s "ab_data b @ locals es"] ff s data off(2) sz(4)
    by (simp add: entry_header_def)
  have eh: "entry_header ?nf = entry_header nf" using marked_header [of t nf] tx(2) by (cases "t = Z_ASCII") auto
  let ?zi' = "?zi\<lparr>zi_number_entry := zi_number_entry zi + 1, zi_in_opened_file_inzip := 0\<rparr>"
  have "zip_close_record ZIP_OK zi usize crc \<sigma> w = (ZIP_OK, ?zi', \<sigma>', store h ?s w)"
    by (simp add: zip_close_record_def Let_def sz(1) sz(3,5) [symmetric] h z tk add(1) up
        del: take_append length_entry split del: if_split)
  moreover have "arch_closed b (es @ [?e]) ?zi' ?s"
  proof -
    have offs: "of_nat (length (ab_data b)) - zi_add_position zi + of_nat (length (locals es)) = off"
      by (simp add: off(1) algebra_simps)
    have "ll_bytes l = ab_dir b @ central_dir (of_nat (length (ab_data b)) - zi_add_position zi) (es @ [?e])"
      using dir l(2) offs by (simp add: arch_dir_def central_dir_append entry_central_def)
    then show ?thesis using dir l(1) s(2) data(1)
      by (simp add: arch_closed_def arch_dir_def at_end_def entry_local_def eh)
  qed
  ultimately show ?thesis using add(2) by (auto simp: same_archive_def)
qed

lemma arch_close:
  fixes zi :: "('w, 'z) zip64_internal" and Z :: "'z zlib"
  assumes ff: "zi_filefunc zi = ff" "zi_filestream zi = h" and s: "fetch w h = Some s"
    and arch: "arch_open b es nf d c zi s" and nf: "nf_ok nf" and mt: "malloc_total \<sigma>"
    and room: "length (ab_data b @ locals es @ entry_header nf 0 0 0 @ d) \<le> limit w"
      "length (ab_data b @ locals es) < 0xffffffff" "length d < 0xffffffff" "nf_raw nf \<noteq> 0 \<Longrightarrow> usize < 0xffffffff"
    and e: "e = \<lparr>ze_file = nf, ze_data = d, ze_crc = (if nf_raw nf = 0 then c else crc),
                 ze_size = (if nf_raw nf = 0 then of_nat (length d) else usize)\<rparr>"
  shows "\<exists>zi' \<sigma>' s'. zipCloseFileInZipRaw64_zi Z zi usize crc \<sigma> w = Some (ZIP_OK, zi', \<sigma>', store h s' w)
    \<and> malloc_total \<sigma>' \<and> same_archive zi zi' \<and> s_rd s' = s_rd s \<and> s_err s' = s_err s
    \<and> arch_closed b (es @ [e]) zi' s'"
proof -
  note a = arch [unfolded arch_open_def]
  let ?zi = "zi\<lparr>zi_ci := (zi_ci zi)\<lparr>ci_stream := (ci_stream (zi_ci zi))\<lparr>next_in := []\<rparr>\<rparr>\<rparr>"
  let ?ci = "zi_ci ?zi"
  have st: "stored (zi_ci zi)" using a by blast
  have ci: "out s ?ci xs = out s (zi_ci zi) xs" "stored ?ci" "size_c ?ci = size_c (zi_ci zi)" "size_u ?ci = size_u (zi_ci zi)"
    "data_type (ci_stream ?ci) = data_type (ci_stream (zi_ci zi))" for xs
    using st by (simp_all add: out_def enc_bytes_def pending_def stored_def size_c_def size_u_def)
  have len: "length (dir_header off nf 0 0 0) < 2 ^ 64" for off using nf by (simp add: nf_ok_def)
  have len2: "length (entry_header nf 0 0 0) < 200000" using nf by (simp add: nf_ok_def)
  have "length (out s ?ci []) \<le> limit w" unfolding ci using a room(1) by simp
  then obtain ci s1 where r: "zip_close_flush Z ZIP_OK ?zi w = (ZIP_OK, zi\<lparr>zi_ci := ci\<rparr>, store h s1 w)"
    "at_end s1" "s_rd s1 = s_rd s" "s_err s1 = s_err s" "s_data s1 = out s ?ci []" "same_entry ?ci ci"
    "ci_totalCompressedData ci = size_c ?ci" "ci_totalUncompressedData ci = size_u ?ci"
    using close_flush_stored [of ?zi h w s Z] ff s a ci(2) by auto
  note same = same_entry_sel [OF r(6)]
  have "\<exists>zi' \<sigma>' s'. zip_close_record ZIP_OK (zi\<lparr>zi_ci := ci\<rparr>) usize crc \<sigma> (store h s1 w)
      = (ZIP_OK, zi', \<sigma>', store h s' (store h s1 w))
    \<and> malloc_total \<sigma>' \<and> same_archive (zi\<lparr>zi_ci := ci\<rparr>) zi' \<and> s_rd s' = s_rd s1 \<and> s_err s' = s_err s1
    \<and> arch_closed b (es @ [\<lparr>ze_file = nf, ze_data = d, ze_crc = ze_crc e, ze_size = ze_size e\<rparr>]) zi' s'"
  proof (rule close_record_eq [where t = Z_BINARY and nf = nf, unfolded marked_header(2) [OF Z_BINARY_not_ASCII]])
    show "zi_filefunc (zi\<lparr>zi_ci := ci\<rparr>) = ff" "zi_filestream (zi\<lparr>zi_ci := ci\<rparr>) = h" using ff by simp_all
    show "fetch (store h s1 w) h = Some s1" by (rule fetch_store [OF s])
    show "arch_dir b es (zi\<lparr>zi_ci := ci\<rparr>)" using a by (simp add: arch_dir_def)
    show "ci_central_header (zi_ci (zi\<lparr>zi_ci := ci\<rparr>)) =
        dir_header (of_nat (length (ab_data b @ locals es)) - zi_add_position zi) nf 0 0 0 @ replicate 32 0"
      using a same by simp
    show "s_data s1 = ab_data b @ locals es @ entry_header nf 0 0 0 @ d" using a r(5) ci(1) by simp
    with room(2,3) len2 show "length (s_data s1) < 2 ^ 63" by simp
    show "length (s_data s1) \<le> limit (store h s1 w)" using a r(5) ci(1) room(1) by (simp add: limit_store)
    show "ci_totalCompressedData (zi_ci (zi\<lparr>zi_ci := ci\<rparr>)) + of_int (ci_crypt_header_size (zi_ci (zi\<lparr>zi_ci := ci\<rparr>)))
        = of_nat (length d)" using a r(7) ci(3) same by simp
    show "ze_size e = (if ci_raw (zi_ci (zi\<lparr>zi_ci := ci\<rparr>)) = 0 then ci_totalUncompressedData (zi_ci (zi\<lparr>zi_ci := ci\<rparr>)) else usize)"
      using a same r(8) ci(4) e by simp
    show "ze_crc e = (if ci_raw (zi_ci (zi\<lparr>zi_ci := ci\<rparr>)) = 0 then ci_crc32 (zi_ci (zi\<lparr>zi_ci := ci\<rparr>)) else crc)"
      using a same e by simp
    show "ze_size e < 0xffffffff" using e room(4) below32 [OF room(3)] by simp
    show "length (dir_header (of_nat (length (ab_data b @ locals es)) - zi_add_position zi) nf 0 0 0) < 2 ^ 64" by (rule len)
  qed (use a same r(2) room mt in simp_all)
  moreover have "zipCloseFileInZipRaw64_zi Z zi usize crc \<sigma> w
      = Some (zip_close_record ZIP_OK (zi\<lparr>zi_ci := ci\<rparr>) usize crc \<sigma> (store h s1 w))"
    using a r(1) by (cases "ci_method (zi_ci zi) = Z_DEFLATED")
      (simp_all add: zipCloseFileInZipRaw64_zi_def Let_def stored_def)
  moreover have "\<lparr>ze_file = nf, ze_data = d, ze_crc = ze_crc e, ze_size = ze_size e\<rparr> = e" using e by simp
  ultimately show ?thesis using r(3,4) by (auto simp: store_store same_archive_def)
qed

section \<open>Closing the archive\<close>

lemma Write_GlobalComment_run:
  "Write_GlobalComment zi gc w =
     run_ok [zip64local_putValue (zi_filefunc zi) (zi_filestream zi) (of_nat (length (case_option [] id gc))) 2,
             zip_write_bytes (zi_filefunc zi) (zi_filestream zi) (case_option [] id gc)] w"
proof (cases gc)
  case (Some c)
  then show ?thesis by (cases "c = []") (auto simp: Write_GlobalComment_def zip_write_bytes_def split: prod.splits)
qed (auto simp: Write_GlobalComment_def zip_write_bytes_def split: prod.splits)

lemma writes_global_comment:
  fixes zi :: "('w, 'z) zip64_internal"
  assumes "zi_filefunc zi = ff" "length (case_option [] id gc) < 2 ^ 64"
  shows "writes (zi_filestream zi) (Write_GlobalComment zi gc)
    (putValue_buf (of_nat (length (case_option [] id gc))) 2 @ case_option [] id gc)"
proof -
  let ?c = "case_option [] id gc"
  have "writes (zi_filestream zi) (run_ok [zip64local_putValue ff (zi_filestream zi) (of_nat (length ?c)) 2,
      zip_write_bytes ff (zi_filestream zi) ?c]) (putValue_buf (of_nat (length ?c)) 2 @ ?c @ [])"
    by (intro writes_Cons writes_Nil writes_put writes_bytes assms(2)) simp_all
  then show ?thesis unfolding Write_GlobalComment_run [abs_def] assms(1) by simp
qed

lemma write_central_dir_eq:
  assumes "\<forall>b \<in> set ll. block_ok b" "fetch w h = Some s" "s_wr s" "s_pos s + length (ll_bytes ll) \<le> limit w"
  shows "write_central_dir ff h ll ZIP_OK n w =
    (ZIP_OK, n + of_nat (length (ll_bytes ll)), store h (s_write (ll_bytes ll) s) w)"
  using assms
proof (induction ll arbitrary: n w s)
  case Nil
  then show ?case by (simp add: store_fetch)
next
  case (Cons b ll)
  have f: "filled_in_this_block b = length (bdata b)" using Cons.prems(1) by (simp add: block_ok_def)
  let ?w = "store h (s_write (bdata b) s) w"
  have "ZWRITE64 ff h (bdata b) w = (of_nat (length (bdata b)), ?w)"
    by (rule io_write [OF Cons.prems(2,3)]) (use Cons.prems(4) in simp)
  moreover have "write_central_dir ff h ll ZIP_OK m ?w = (ZIP_OK, m + of_nat (length (ll_bytes ll)),
      store h (s_write (ll_bytes ll) (s_write (bdata b) s)) ?w)" for m
    by (rule Cons.IH) (use Cons.prems fetch_store [OF Cons.prems(2)] in \<open>simp_all add: limit_store\<close>)
  ultimately show ?case using store_fetch [OF Cons.prems(2)]
    by (cases "bdata b = []") (simp_all add: f store_store add.assoc)
qed

lemma zip_close_tail_eq:
  fixes zi :: "('w, 'z) zip64_internal"
  assumes ff: "zi_filefunc zi = ff" "zi_filestream zi = h" and s: "fetch w h = Some s" and arch: "arch_closed b es zi s"
    and pos: "of_nat (length (s_data s)) - zi_add_position zi < 0xffffffff"
    and gc: "comment = case_option [] id (if gc = None then zi_globalcomment zi else gc)" "length comment < 2 ^ 64"
    and cd: "cd = ll_bytes (zi_central_dir zi)"
    and tail: "tail = cd @ end_of_central_dir (zi_number_entry zi) (of_nat (length cd))
        (of_nat (length (s_data s)) - zi_add_position zi) comment"
    and room: "length (s_data s @ tail) \<le> limit w"
  shows "zip_close_tail zi gc ZIP_OK w =
    (let (r, w) = ZCLOSE64 ff h (store h (s_write tail s) w) in (if r \<noteq> 0 then ZIP_ERRNO else ZIP_OK, w))"
proof -
  let ?pos = "of_nat (s_pos s) :: ZPOS64_T"
  let ?gc = "if gc = None then zi_globalcomment zi else gc"
  let ?zi = "zi\<lparr>zi_central_dir := []\<rparr>"
  let ?e = "take 20 (end_of_central_dir (zi_number_entry zi) (of_nat (length cd)) (?pos - zi_add_position zi) [])"
  let ?c = "putValue_buf (of_nat (length comment)) 2 @ comment"
  have p: "s_pos s = length (s_data s)" "s_wr s" and ok: "\<forall>b \<in> set (zi_central_dir zi). block_ok b"
    using arch by (auto simp: arch_closed_def at_end_def arch_dir_def ll_ok_def)
  have tail': "tail = (cd @ ?e) @ ?c" unfolding tail by (simp add: end_of_central_dir_def p)
  have small: "\<not> ?pos - zi_add_position zi \<ge> 0xffffffff" using pos p by (simp only: linorder_not_le)
  have 1: "write_central_dir ff h (zi_central_dir zi) ZIP_OK 0 w = (ZIP_OK, of_nat (length cd), store h (s_write cd s) w)"
    using write_central_dir_eq [OF ok s p(2), of 0] room by (simp add: cd tail p)
  have "writes h (Write_EndOfCentralDirectoryRecord ?zi (of_nat (length cd)) ?pos) ?e"
    using writes_end_record [of ?zi "of_nat (length cd)" ?pos] ff by simp
  from writesD [OF this fetch_store [OF s], of "s_write cd s"] p room
  have 2: "Write_EndOfCentralDirectoryRecord ?zi (of_nat (length cd)) ?pos (store h (s_write cd s) w)
      = (ZIP_OK, store h (s_write (cd @ ?e) s) w)"
    by (simp add: tail' limit_store store_store)
  have "writes h (Write_GlobalComment ?zi ?gc) ?c"
    using writes_global_comment [of ?zi ?gc] ff gc by simp
  from writesD [OF this fetch_store [OF s], of "s_write (cd @ ?e) s"] p room
  have 3: "Write_GlobalComment ?zi ?gc (store h (s_write (cd @ ?e) s) w) = (ZIP_OK, store h (s_write tail s) w)"
    by (simp add: tail' limit_store store_store)
  show ?thesis
    using 1 2 3 small by (simp add: zip_close_tail_def Let_def ff io_tell [OF s] split: prod.split split del: if_split) simp
qed

end

section \<open>Whole runs\<close>

text \<open>An entry to add: its parameters, the chunks it is written in, and the arguments of its closing call.\<close>

record job =
  job_file :: new_file
  job_chunks :: "byte list list"
  job_usize :: ZPOS64_T
  job_crc :: uLong

definition job_entry :: "'z zlib \<Rightarrow> job \<Rightarrow> zip_entry" where
  "job_entry Z j =
     \<lparr>ze_file = job_file j, ze_data = concat (job_chunks j),
      ze_crc = (if nf_raw (job_file j) = 0 then foldl (zl_crc32 Z) 0 (job_chunks j) else job_crc j),
      ze_size = (if nf_raw (job_file j) = 0 then of_nat (length (concat (job_chunks j))) else job_usize j)\<rparr>"

text \<open>Calls in a row, as long as they succeed.\<close>

fun write_chunks ::
    "'z zlib \<Rightarrow> ('w, 'z) zip64_internal option \<Rightarrow> byte list list \<Rightarrow> 'w
     \<Rightarrow> (int \<times> ('w, 'z) zip64_internal option \<times> 'w) option" where
  "write_chunks Z file [] w = Some (ZIP_OK, file, w)"
| "write_chunks Z file (buf # bufs) w = do {
     (err, file, w) \<leftarrow> zipWriteInFileInZip Z file buf w;
     if err \<noteq> ZIP_OK then Some (err, file, w) else write_chunks Z file bufs w }"

definition add_entry ::
    "'z zlib \<Rightarrow> ('w, 'z) zip64_internal option \<Rightarrow> job \<Rightarrow> sys \<Rightarrow> 'w
     \<Rightarrow> (int \<times> ('w, 'z) zip64_internal option \<times> sys \<times> 'w) option" where
  "add_entry Z file j \<sigma> w = do {
     (err, file, \<sigma>, w) \<leftarrow> zipOpenNewFileInZip4_64 Z file (job_file j) \<sigma> w;
     if err \<noteq> ZIP_OK then Some (err, file, \<sigma>, w)
     else do {
       (err, file, w) \<leftarrow> write_chunks Z file (job_chunks j) w;
       if err \<noteq> ZIP_OK then Some (err, file, \<sigma>, w)
       else zipCloseFileInZipRaw64 Z file (job_usize j) (job_crc j) \<sigma> w } }"

fun add_entries ::
    "'z zlib \<Rightarrow> ('w, 'z) zip64_internal option \<Rightarrow> job list \<Rightarrow> sys \<Rightarrow> 'w
     \<Rightarrow> (int \<times> ('w, 'z) zip64_internal option \<times> sys \<times> 'w) option" where
  "add_entries Z file [] \<sigma> w = Some (ZIP_OK, file, \<sigma>, w)"
| "add_entries Z file (j # js) \<sigma> w = do {
     (err, file, \<sigma>, w) \<leftarrow> add_entry Z file j \<sigma> w;
     if err \<noteq> ZIP_OK then Some (err, file, \<sigma>, w) else add_entries Z file js \<sigma> w }"

definition job_ok :: "job \<Rightarrow> bool" where
  "job_ok j \<longleftrightarrow> nf_ok (job_file j) \<and> length (concat (job_chunks j)) < 0xffffffff
     \<and> (nf_raw (job_file j) \<noteq> 0 \<longrightarrow> job_usize j < 0xffffffff)"

context filefunc
begin

lemma write_chunks_eq:
  fixes zi :: "('w, 'z) zip64_internal" and Z :: "'z zlib"
  assumes "zi_filefunc zi = ff" "zi_filestream zi = h" "fetch w h = Some s" "arch_open b es nf d c zi s"
    "length (ab_data b @ locals es @ entry_header nf 0 0 0 @ d @ concat bufs) \<le> limit w"
  shows "\<exists>zi' s'. write_chunks Z (Some zi) bufs w = Some (ZIP_OK, Some zi', store h s' w)
    \<and> same_archive zi zi' \<and> s_rd s' = s_rd s \<and> s_err s' = s_err s
    \<and> arch_open b es nf (d @ concat bufs) (foldl (zl_crc32 Z) c bufs) zi' s'"
  using assms
proof (induction bufs arbitrary: zi w s d c)
  case Nil
  then show ?case by (intro exI [of _ zi] exI [of _ s]) (simp add: store_fetch)
next
  case (Cons buf bufs)
  have "length (ab_data b @ locals es @ entry_header nf 0 0 0 @ d @ buf) \<le> limit w" using Cons.prems(5) by simp
  from arch_write [OF Cons.prems(1-4) this, of Z] obtain zi1 s1 where 1:
    "zipWriteInFileInZip Z (Some zi) buf w = Some (ZIP_OK, Some zi1, store h s1 w)"
    "same_archive zi zi1" "s_rd s1 = s_rd s" "s_err s1 = s_err s" "arch_open b es nf (d @ buf) (zl_crc32 Z c buf) zi1 s1"
    by blast
  have "zi_filefunc zi1 = ff" "zi_filestream zi1 = h" using 1(2) Cons.prems(1,2) by (simp_all add: same_archive_def)
  from Cons.IH [OF this fetch_store [OF Cons.prems(3)] 1(5)] Cons.prems(5) obtain zi2 s2 where 2:
    "write_chunks Z (Some zi1) bufs (store h s1 w) = Some (ZIP_OK, Some zi2, store h s2 (store h s1 w))"
    "same_archive zi1 zi2" "s_rd s2 = s_rd s1" "s_err s2 = s_err s1"
    "arch_open b es nf ((d @ buf) @ concat bufs) (foldl (zl_crc32 Z) (zl_crc32 Z c buf) bufs) zi2 s2"
    by (auto simp: limit_store)
  from 1 2 same_archive_trans [OF 1(2) 2(2)] show ?case
    by (intro exI [of _ zi2] exI [of _ s2]) (simp add: store_store)
qed

lemma add_entry_eq:
  fixes zi :: "('w, 'z) zip64_internal" and Z :: "'z zlib"
  assumes ff: "zi_filefunc zi = ff" "zi_filestream zi = h" and s: "fetch w h = Some s" and arch: "arch_closed b es zi s"
    and j: "job_ok j" and mt: "malloc_total \<sigma>"
    and room: "length (ab_data b @ locals (es @ [job_entry Z j])) \<le> limit w" "length (ab_data b @ locals es) < 0xffffffff"
  shows "\<exists>zi' \<sigma>' s'. add_entry Z (Some zi) j \<sigma> w = Some (ZIP_OK, Some zi', \<sigma>', store h s' w)
    \<and> malloc_total \<sigma>' \<and> same_archive zi zi' \<and> s_rd s' = s_rd s \<and> s_err s' = s_err s
    \<and> arch_closed b (es @ [job_entry Z j]) zi' s'"
proof -
  let ?nf = "job_file j" and ?d = "concat (job_chunks j)"
  have nf: "nf_ok ?nf" "length ?d < 0xffffffff" "nf_raw ?nf \<noteq> 0 \<Longrightarrow> job_usize j < 0xffffffff"
    using j by (auto simp: job_ok_def)
  have data: "s_data s = ab_data b @ locals es" and closed: "zi_in_opened_file_inzip zi = 0" using arch by (simp_all add: arch_closed_def)
  have all: "length (ab_data b @ locals es @ entry_header ?nf 0 0 0 @ ?d) \<le> limit w"
    using room(1) by (simp add: entry_local_def job_entry_def)
  have "length (s_data s) < 0xffffffff" "length (s_data s @ entry_header ?nf 0 0 0) \<le> limit w"
    using data room(2) all by simp_all
  from new_file_open_eq [OF ff s arch nf(1) mt this, of Z] obtain zi1 \<sigma>1 s1 where 1:
    "new_file_open Z zi ?nf \<sigma> w = Some (ZIP_OK, zi1, \<sigma>1, store h s1 w)" "malloc_total \<sigma>1" "same_archive zi zi1"
    "arch_open b es ?nf [] 0 zi1 s1" "s_rd s1 = s_rd s" "s_err s1 = s_err s"
    by auto
  have open1: "zipOpenNewFileInZip4_64 Z (Some zi) ?nf \<sigma> w = Some (ZIP_OK, Some zi1, \<sigma>1, store h s1 w)"
    using nf(1) 1(1) closed by (auto simp: zipOpenNewFileInZip4_64_def nf_ok_def)
  have ff1: "zi_filefunc zi1 = ff" "zi_filestream zi1 = h" using 1(3) ff by (simp_all add: same_archive_def)
  have "length (ab_data b @ locals es @ entry_header ?nf 0 0 0 @ [] @ ?d) \<le> limit (store h s1 w)"
    using all by (simp add: limit_store)
  from write_chunks_eq [OF ff1 fetch_store [OF s] 1(4) this, of Z] obtain zi2 s2 where 2:
    "write_chunks Z (Some zi1) (job_chunks j) (store h s1 w) = Some (ZIP_OK, Some zi2, store h s2 (store h s1 w))"
    "same_archive zi1 zi2" "s_rd s2 = s_rd s1" "s_err s2 = s_err s1"
    "arch_open b es ?nf ?d (foldl (zl_crc32 Z) 0 (job_chunks j)) zi2 s2" by auto
  have ff2: "zi_filefunc zi2 = ff" "zi_filestream zi2 = h" using 2(2) ff1 by (simp_all add: same_archive_def)
  have "length (ab_data b @ locals es @ entry_header ?nf 0 0 0 @ ?d) \<le> limit (store h s2 w)"
    using all by (simp add: limit_store)
  from arch_close [OF ff2 fetch_store [OF s] 2(5) nf(1) 1(2) this room(2) nf(2,3), of "job_entry Z j" "job_crc j" Z]
  obtain zi3 \<sigma>3 s3 where 3: "zipCloseFileInZipRaw64_zi Z zi2 (job_usize j) (job_crc j) \<sigma>1 (store h s2 w)
      = Some (ZIP_OK, zi3, \<sigma>3, store h s3 (store h s2 w))" "malloc_total \<sigma>3" "same_archive zi2 zi3"
    "s_rd s3 = s_rd s2" "s_err s3 = s_err s2" "arch_closed b (es @ [job_entry Z j]) zi3 s3"
    by (auto simp: job_entry_def)
  have "add_entry Z (Some zi) j \<sigma> w = Some (ZIP_OK, Some zi3, \<sigma>3, store h s3 w)"
    using open1 2(1) 3(1) by (simp add: add_entry_def store_store zipCloseFileInZipRaw64_def)
  moreover have "same_archive zi zi3" using 1(3) 2(2) 3(3) by (simp add: same_archive_def)
  ultimately show ?thesis using 1 2 3 by (intro exI [of _ zi3] exI [of _ \<sigma>3] exI [of _ s3]) simp
qed

end

end
