(* ===== verification/Search.thy ===== *)
theory Search
  imports ZipBytes
begin

text \<open>
  The backward search for an end-of-archive signature, which \<open>zip.c\<close> and \<open>unzip.c\<close>
  each contain twice (\<open>SearchCentralDir\<close> and \<open>SearchCentralDir64\<close>).
\<close>

text \<open>\<open>if (getX(...) != ZIP_OK) err = ZIP_ERRNO\<close>\<close>

definition note_err :: "int \<Rightarrow> int \<Rightarrow> int" where
  "note_err e err = (if e \<noteq> ZIP_OK then ZIP_ERRNO else err)"

section \<open>The backward search for a signature\<close>

definition BUFREADCOMMENT :: nat where [simp]: "BUFREADCOMMENT = 0x400"
definition uMaxBack_limit :: nat where [simp]: "uMaxBack_limit = 0xffff"

text \<open>\<open>for (i = n; (i--) > 0;)\<close>: the highest index below \<open>n\<close> at which the four bytes stand.\<close>

fun sig_scan :: "byte list \<Rightarrow> byte list \<Rightarrow> nat \<Rightarrow> nat option" where
  "sig_scan magic buf 0 = None"
| "sig_scan magic buf (Suc i) =
     (if buf ! i = magic ! 0 \<and> buf ! (i + 1) = magic ! 1 \<and> buf ! (i + 2) = magic ! 2 \<and> buf ! (i + 3) = magic ! 3
      then Some i else sig_scan magic buf i)"

text \<open>
  The loop that reads windows of the file from the end, with 3 bytes of overlap. It occurs
  four times in the sources (in \<open>zip.c\<close> and \<open>unzip.c\<close>, for the plain and the ZIP64
  signature). \<open>uBackRead\<close> never exceeds \<open>uMaxBack\<close>, which is at most \<open>0xffff\<close>, so
  natural numbers serve; the file size is the value told by the stream.
\<close>

lemma search_back_measure:
  "uBackRead < uMaxBack \<Longrightarrow>
   uMaxBack - (if uBackRead + BUFREADCOMMENT > uMaxBack then uMaxBack else uBackRead + BUFREADCOMMENT)
     < uMaxBack - uBackRead"
  by auto

function search_back ::
    "'w zlib_filefunc64_32_def \<Rightarrow> voidpf \<Rightarrow> byte list \<Rightarrow> nat \<Rightarrow> nat \<Rightarrow> nat \<Rightarrow> 'w \<Rightarrow> nat \<times> 'w" where
  "search_back ff fs magic uSizeFile uMaxBack uBackRead w =
     (if uBackRead < uMaxBack then
        (let uBackRead = (if uBackRead + BUFREADCOMMENT > uMaxBack then uMaxBack else uBackRead + BUFREADCOMMENT);
             uReadPos = uSizeFile - uBackRead;
             uReadSize = (if BUFREADCOMMENT + 4 < uSizeFile - uReadPos then BUFREADCOMMENT + 4
                          else uSizeFile - uReadPos);
             (r, w) = ZSEEK64 ff fs (of_nat uReadPos) ZLIB_FILEFUNC_SEEK_SET w
         in if r \<noteq> 0 then (0, w)
            else
              (let (buf, w) = ZREAD64 ff fs (of_nat uReadSize) w in
               if length buf \<noteq> uReadSize then (0, w)
               else
                 (let uPosFound = (case sig_scan magic buf (uReadSize - 3) of None \<Rightarrow> 0 | Some i \<Rightarrow> uReadPos + i)
                  in if uPosFound \<noteq> 0 then (uPosFound, w)
                     else search_back ff fs magic uSizeFile uMaxBack uBackRead w)))
      else (0, w))"
  by pat_completeness auto
termination
  by (relation "measure (\<lambda>(ff, fs, magic, uSizeFile, uMaxBack, uBackRead, w). uMaxBack - uBackRead)")
    (simp_all only: search_back_measure wf_measure in_measure prod.case)

declare search_back.simps [simp del]

definition search_signature ::
    "'w zlib_filefunc64_32_def \<Rightarrow> voidpf \<Rightarrow> byte list \<Rightarrow> sys \<Rightarrow> 'w \<Rightarrow> nat \<times> sys \<times> 'w" where
  "search_signature ff fs magic \<sigma> w =
     (let (r, w) = ZSEEK64 ff fs 0 ZLIB_FILEFUNC_SEEK_END w in
      if r \<noteq> 0 then (0, \<sigma>, w)
      else
        (let (tell, w) = ZTELL64 ff fs w;
             uSizeFile = unat tell;
             uMaxBack = (if uMaxBack_limit > uSizeFile then uSizeFile else uMaxBack_limit);
             (ok, \<sigma>) = malloc (BUFREADCOMMENT + 4) \<sigma>
         in if \<not> ok then (0, \<sigma>, w)
            else (let (p, w) = search_back ff fs magic uSizeFile uMaxBack 4 w in (p, \<sigma>, w))))"

definition sig_end_of_central_dir :: "byte list" where "sig_end_of_central_dir = [0x50, 0x4b, 0x05, 0x06]"
definition sig_zip64_locator :: "byte list" where "sig_zip64_locator = [0x50, 0x4b, 0x06, 0x07]"

section \<open>The windows amount to one scan of the file\<close>

definition sig_here :: "byte list \<Rightarrow> byte list \<Rightarrow> nat \<Rightarrow> bool" where
  "sig_here magic d i \<longleftrightarrow>
     d ! i = magic ! 0 \<and> d ! (i + 1) = magic ! 1 \<and> d ! (i + 2) = magic ! 2 \<and> d ! (i + 3) = magic ! 3"

lemma sig_scan_Suc: "sig_scan magic d (Suc i) = (if sig_here magic d i then Some i else sig_scan magic d i)"
  by (simp add: sig_here_def)

lemma sig_scan_None: "sig_scan magic d n = None \<longleftrightarrow> (\<forall>j<n. \<not> sig_here magic d j)"
  by (induction n) (auto simp: sig_scan_Suc less_Suc_eq simp del: sig_scan.simps(2))

lemma sig_scan_Some:
  "sig_scan magic d n = Some i \<longleftrightarrow> i < n \<and> sig_here magic d i \<and> (\<forall>j. i < j \<and> j < n \<longrightarrow> \<not> sig_here magic d j)"
  by (induction n) (auto simp: sig_scan_Suc less_Suc_eq simp del: sig_scan.simps(2))

text \<open>
  What the search is meant to compute: the position of the last signature, if it is no
  further than \<open>back\<close> bytes from the end, and 0 for none. Position 0 itself cannot be told
  from not finding one.
\<close>

definition last_sig :: "byte list \<Rightarrow> byte list \<Rightarrow> nat \<Rightarrow> nat" where
  "last_sig magic d back =
     (case sig_scan magic d (length d - 3) of None \<Rightarrow> 0
      | Some p \<Rightarrow> if length d - back \<le> p then p else 0)"

lemma last_sig_eqI:
  assumes "length d - back \<le> p" "p + 3 < length d" "sig_here magic d p"
    "\<And>j. p < j \<Longrightarrow> j + 3 < length d \<Longrightarrow> \<not> sig_here magic d j"
  shows "last_sig magic d back = p"
proof -
  have "sig_scan magic d (length d - 3) = Some p" using assms by (auto simp: sig_scan_Some)
  with assms(1) show ?thesis by (simp add: last_sig_def)
qed

lemma last_sig_zeroI:
  assumes "\<And>j. 0 < j \<Longrightarrow> length d - back \<le> j \<Longrightarrow> j + 3 < length d \<Longrightarrow> \<not> sig_here magic d j"
  shows "last_sig magic d back = 0"
proof (cases "sig_scan magic d (length d - 3)")
  case None
  then show ?thesis by (simp add: last_sig_def)
next
  case (Some p)
  then have "p + 3 < length d" "sig_here magic d p" by (auto simp: sig_scan_Some)
  with Some assms [of p] show ?thesis by (cases "p = 0") (auto simp: last_sig_def)
qed

text \<open>A signature inside a window is a signature of the file.\<close>

lemma sig_here_window:
  assumes "i + 3 < R" "P + R \<le> length d"
  shows "sig_here magic (take R (drop P d)) i \<longleftrightarrow> sig_here magic d (P + i)"
  using assms by (simp add: sig_here_def add.assoc)

lemma window_scan:
  assumes "P + R \<le> length d"
  shows "case sig_scan magic (take R (drop P d)) (R - 3) of
      None \<Rightarrow> \<forall>j. P \<le> j \<and> j + 3 < P + R \<longrightarrow> \<not> sig_here magic d j
    | Some i \<Rightarrow> i + 3 < R \<and> sig_here magic d (P + i) \<and> (\<forall>j. P + i < j \<and> j + 3 < P + R \<longrightarrow> \<not> sig_here magic d j)"
proof -
  have w: "sig_here magic (take R (drop P d)) (j - P) \<longleftrightarrow> sig_here magic d j" if "P \<le> j" "j + 3 < P + R" for j
    using that assms sig_here_window [of "j - P" R P d magic] by simp
  show ?thesis
  proof (cases "sig_scan magic (take R (drop P d)) (R - 3)")
    case None
    then have "\<not> sig_here magic d j" if "P \<le> j" "j + 3 < P + R" for j
      using that w [of j] by (auto simp: sig_scan_None)
    with None show ?thesis by simp
  next
    case (Some i)
    then have i: "i < R - 3" "sig_here magic (take R (drop P d)) i"
      "\<forall>k. i < k \<and> k < R - 3 \<longrightarrow> \<not> sig_here magic (take R (drop P d)) k"
      by (auto simp: sig_scan_Some)
    have "\<not> sig_here magic d j" if "P + i < j" "j + 3 < P + R" for j
    proof -
      have "i < j - P \<and> j - P < R - 3" using that by linarith
      with i(3) w [of j] that show ?thesis by simp
    qed
    moreover have "sig_here magic d (P + i)" "i + 3 < R" using i w [of "P + i"] by auto
    ultimately show ?thesis using Some by simp
  qed
qed

context filefunc
begin

lemma search_window:
  assumes "fetch w h = Some s" "s_rd s" "P + R \<le> length (s_data s)" "length (s_data s) < 2 ^ 63"
  shows "ZSEEK64 ff h (of_nat P) ZLIB_FILEFUNC_SEEK_SET w = (0, store h (s_seek P s) w)"
    and "ZREAD64 ff h (of_nat R) (store h (s_seek P s) w) =
      (take R (drop P (s_data s)), store h (s_seek (P + R) s) w)"
proof -
  have P: "unat (of_nat P :: 64 word) = P" and R: "unat (of_nat R :: 64 word) = R"
    using assms(3,4) by (simp_all add: unat_of_nat)
  show "ZSEEK64 ff h (of_nat P) ZLIB_FILEFUNC_SEEK_SET w = (0, store h (s_seek P s) w)"
    using io_seek_set [OF assms(1), of "of_nat P"] P assms(3,4) by simp
  have f: "fetch (store h (s_seek P s) w) h = Some (s_seek P s)" by (rule fetch_store [OF assms(1)])
  have "s_skip R (s_seek P s) = s_seek (P + R) s" using assms(3) by (simp add: s_skip_seek s_rest_def)
  with io_read [OF f, of "of_nat R"] R assms(2)
  show "ZREAD64 ff h (of_nat R) (store h (s_seek P s) w) =
      (take R (drop P (s_data s)), store h (s_seek (P + R) s) w)"
    by (simp add: store_store s_rest_def)
qed

text \<open>One round of the loop, with the window of \<open>uReadSize\<close> bytes at \<open>uReadPos\<close>.\<close>

lemma search_back_step:
  assumes s: "fetch w h = Some s" "s_rd s" "length (s_data s) < 2 ^ 63"
    and m: "uMaxBack \<le> length (s_data s)" "4 \<le> B" "B < uMaxBack"
  shows "\<exists>B' P R. B < B' \<and> B' \<le> uMaxBack \<and> B' \<le> B + 1024 \<and> P = length (s_data s) - B' \<and> R = min 1028 B' \<and>
    search_back ff h magic (length (s_data s)) uMaxBack B w =
      (let w = store h (s_seek (P + R) s) w;
           p = (case sig_scan magic (take R (drop P (s_data s))) (R - 3) of None \<Rightarrow> 0 | Some i \<Rightarrow> P + i)
       in if p \<noteq> 0 then (p, w) else search_back ff h magic (length (s_data s)) uMaxBack B' w)"
proof -
  let ?N = "length (s_data s)"
  let ?B = "if B + BUFREADCOMMENT > uMaxBack then uMaxBack else B + BUFREADCOMMENT"
  let ?P = "?N - ?B" and ?R = "min 1028 ?B"
  have B: "B < ?B" "?B \<le> uMaxBack" "?B \<le> B + 1024" using m by auto
  have R: "(if BUFREADCOMMENT + 4 < ?N - ?P then BUFREADCOMMENT + 4 else ?N - ?P) = ?R"
    using m(1) B(2) by auto
  have fit: "?P + ?R \<le> ?N" using B(2) m(1) by auto
  note w = search_window [OF s(1,2) fit s(3)]
  have len: "length (take ?R (drop ?P (s_data s))) = ?R" using fit by auto
  have "search_back ff h magic ?N uMaxBack B w =
      (let w = store h (s_seek (?P + ?R) s) w;
           p = (case sig_scan magic (take ?R (drop ?P (s_data s))) (?R - 3) of None \<Rightarrow> 0 | Some i \<Rightarrow> ?P + i)
       in if p \<noteq> 0 then (p, w) else search_back ff h magic ?N uMaxBack ?B w)"
    by (subst search_back.simps)
      (simp only: m(3) if_True Let_def R w prod.case len not_True_eq_False if_False simp_thms)
  with B show ?thesis by blast
qed

lemma search_back_eq:
  assumes "fetch w h = Some s" "s_rd s" "length (s_data s) < 2 ^ 63"
    "uMaxBack \<le> length (s_data s)" "uMaxBack = length (s_data s) \<or> 4 < uMaxBack" "4 \<le> B"
    "\<And>j. 0 < j \<Longrightarrow> length (s_data s) - B < j \<or> 4 < B \<and> length (s_data s) - B \<le> j \<Longrightarrow>
       j + 3 < length (s_data s) \<Longrightarrow> \<not> sig_here magic (s_data s) j"
  shows "\<exists>q. search_back ff h magic (length (s_data s)) uMaxBack B w =
      (last_sig magic (s_data s) uMaxBack, store h (s_seek q s) w)"
  using assms
proof (induction "uMaxBack - B" arbitrary: B w s rule: less_induct)
  case less
  let ?d = "s_data s" and ?N = "length (s_data s)"
  note none = less.prems(7)
  show ?case
  proof (cases "B < uMaxBack")
    case False
    have "last_sig magic ?d uMaxBack = 0"
    proof (rule last_sig_zeroI)
      fix j assume j: "0 < j" "?N - uMaxBack \<le> j" "j + 3 < ?N"
      then have "?N - B < j \<or> 4 < B \<and> ?N - B \<le> j" using False less.prems(4-6) by linarith
      with none j show "\<not> sig_here magic ?d j" by blast
    qed
    moreover have "store h (s_seek (s_pos s) s) w = w"
      using less.prems(1) by (simp add: s_seek_def store_fetch)
    ultimately show ?thesis using False by (metis search_back.simps)
  next
    case True
    obtain B' P R where B': "B < B'" "B' \<le> uMaxBack" "B' \<le> B + 1024" "P = ?N - B'" "R = min 1028 B'"
      and step: "search_back ff h magic ?N uMaxBack B w =
        (let w = store h (s_seek (P + R) s) w;
           p = (case sig_scan magic (take R (drop P ?d)) (R - 3) of None \<Rightarrow> 0 | Some i \<Rightarrow> P + i)
         in if p \<noteq> 0 then (p, w) else search_back ff h magic ?N uMaxBack B' w)"
      using search_back_step [OF less.prems(1-4) less.prems(6) True] by blast
    let ?w = "store h (s_seek (P + R) s) w"
    have fit: "P + R \<le> ?N" using B' less.prems(4) by auto
    have seen: "\<not> sig_here magic ?d j" if "0 < j" "P + R \<le> j + 3" "j + 3 < ?N" for j
    proof -
      have "?N - B < j" using that B' less.prems(4) by linarith
      with none that show ?thesis by blast
    qed
    have rec: "\<exists>q. search_back ff h magic ?N uMaxBack B' ?w =
        (last_sig magic ?d uMaxBack, store h (s_seek q s) w)"
      if none': "\<And>j. 0 < j \<Longrightarrow> P \<le> j \<Longrightarrow> j + 3 < P + R \<Longrightarrow> \<not> sig_here magic ?d j"
    proof -
      have "\<exists>q. search_back ff h magic (length (s_data (s_seek (P + R) s))) uMaxBack B' ?w =
          (last_sig magic (s_data (s_seek (P + R) s)) uMaxBack, store h (s_seek q (s_seek (P + R) s)) ?w)"
      proof (rule less.hyps)
        show "uMaxBack - B' < uMaxBack - B" using B' True by linarith
        show "fetch ?w h = Some (s_seek (P + R) s)" by (rule fetch_store [OF less.prems(1)])
        fix j assume j: "0 < j" "length (s_data (s_seek (P + R) s)) - B' < j \<or> 4 < B' \<and> length (s_data (s_seek (P + R) s)) - B' \<le> j"
          "j + 3 < length (s_data (s_seek (P + R) s))"
        then show "\<not> sig_here magic (s_data (s_seek (P + R) s)) j"
          using none' [of j] seen [of j] B'(4) by fastforce
      qed (use less.prems B' in auto)
      then show ?thesis by (simp add: store_store)
    qed
    show ?thesis
    proof (cases "sig_scan magic (take R (drop P ?d)) (R - 3)")
      case None
      then have "\<And>j. P \<le> j \<Longrightarrow> j + 3 < P + R \<Longrightarrow> \<not> sig_here magic ?d j"
        using window_scan [OF fit, of magic] by simp
      with rec None step show ?thesis by (simp add: Let_def)
    next
      case (Some i)
      then have i: "i + 3 < R" "sig_here magic ?d (P + i)"
        "\<And>j. P + i < j \<Longrightarrow> j + 3 < P + R \<Longrightarrow> \<not> sig_here magic ?d j"
        using window_scan [OF fit, of magic] by auto
      show ?thesis
      proof (cases "P + i = 0")
        case True
        have "\<not> sig_here magic ?d j" if "0 < j" "P \<le> j" "j + 3 < P + R" for j
          using i(3) [of j] that True by simp
        with rec Some step True show ?thesis by (simp add: Let_def)
      next
        case False
        have "last_sig magic ?d uMaxBack = P + i"
        proof (rule last_sig_eqI)
          show "?N - uMaxBack \<le> P + i" using B' by linarith
          show "P + i + 3 < ?N" using i(1) fit by linarith
          show "\<not> sig_here magic ?d j" if "P + i < j" "j + 3 < ?N" for j
            using i(3) [of j] seen [of j] that by fastforce
        qed (rule i(2))
        with step Some False show ?thesis by (auto simp: Let_def)
      qed
    qed
  qed
qed

text \<open>The whole search, once its buffer is allocated.\<close>

lemma search_signature_eq:
  assumes "fetch w h = Some s" "s_rd s" "length (s_data s) < 2 ^ 63" "malloc 1028 \<sigma> = (True, \<sigma>')"
  shows "\<exists>q. search_signature ff h magic \<sigma> w =
      (last_sig magic (s_data s) (min (length (s_data s)) 0xffff), \<sigma>', store h (s_seek q s) w)"
proof -
  let ?N = "length (s_data s)"
  let ?s = "s_seek ?N s" and ?M = "min ?N 0xffff"
  let ?w = "store h ?s w"
  have f: "fetch ?w h = Some ?s" by (rule fetch_store [OF assms(1)])
  have N: "unat (of_nat ?N :: 64 word) = ?N" using assms(3) by (simp add: unat_of_nat)
  have M: "(if uMaxBack_limit > ?N then ?N else uMaxBack_limit) = ?M" by auto
  obtain q where "search_back ff h magic (length (s_data ?s)) ?M 4 ?w =
      (last_sig magic (s_data ?s) ?M, store h (s_seek q ?s) ?w)"
    using search_back_eq [OF f, of ?M 4 magic] assms(2,3) by fastforce
  then have "search_back ff h magic ?N ?M 4 ?w = (last_sig magic (s_data s) ?M, store h (s_seek q s) w)"
    by (simp add: store_store)
  then show ?thesis
    using assms(4) M N io_seek_end [OF assms(1)] io_tell [OF f]
    by (cases "?N < 0xffff") (auto simp: search_signature_def Let_def min_def)
qed

text \<open>Without the buffer, or when the archive is empty, nothing is found.\<close>

lemma search_signature_nomem:
  assumes "fetch w h = Some s" "malloc 1028 \<sigma> = (False, \<sigma>')"
  shows "search_signature ff h magic \<sigma> w = (0, \<sigma>', store h (s_seek (length (s_data s)) s) w)"
  using assms io_seek_end [OF assms(1)] io_tell [OF fetch_store [OF assms(1)]]
  by (simp add: search_signature_def Let_def)

end

section \<open>The last signature of a file\<close>

text \<open>\<open>last_sig\<close> in terms of the bytes at an offset.\<close>

lemma sig_here_take:
  assumes "length magic = 4" "j + 4 \<le> length d"
  shows "sig_here magic d j \<longleftrightarrow> take 4 (drop j d) = magic"
proof -
  have "take 4 (drop j d) = magic \<longleftrightarrow> (\<forall>k<4. take 4 (drop j d) ! k = magic ! k)"
    using assms by (auto simp: list_eq_iff_nth_eq)
  also have "\<dots> \<longleftrightarrow> sig_here magic d j"
    using assms by (simp add: sig_here_def numeral_eq_Suc All_less_Suc) blast
  finally show ?thesis by simp
qed

lemma last_sig_cases:
  assumes "length magic = 4" "last_sig magic d (min (length d) back) = p"
  shows "(p \<noteq> 0 \<longrightarrow> length d - back \<le> p \<and> p + 4 \<le> length d \<and> take 4 (drop p d) = magic
      \<and> (\<forall>j>p. take 4 (drop j d) \<noteq> magic))
    \<and> (p = 0 \<longrightarrow> (\<forall>j>0. length d - back \<le> j \<longrightarrow> take 4 (drop j d) \<noteq> magic))"
proof -
  have in_range: "take 4 (drop j d) = magic \<Longrightarrow> j + 4 \<le> length d" for j
    using assms(1) by (cases "j + 4 \<le> length d") auto
  have h: "take 4 (drop j d) = magic \<longleftrightarrow> j + 4 \<le> length d \<and> sig_here magic d j" for j
    using in_range sig_here_take [OF assms(1)] by blast
  show ?thesis
  proof (cases "sig_scan magic d (length d - 3)")
    case None
    then have "take 4 (drop j d) \<noteq> magic" for j using h [of j] by (auto simp: sig_scan_None)
    with None assms(2) show ?thesis by (auto simp: last_sig_def)
  next
    case (Some i)
    then have i: "i + 4 \<le> length d" "sig_here magic d i" "\<And>j. i < j \<Longrightarrow> j < length d - 3 \<Longrightarrow> \<not> sig_here magic d j"
      by (auto simp: sig_scan_Some)
    have later: "take 4 (drop j d) \<noteq> magic" if "i < j" for j using h [of j] i(3) [OF that] by auto
    show ?thesis
    proof (cases "length d - back \<le> i")
      case True
      then have "p = i" using Some assms(2) by (auto simp: last_sig_def)
      with True i h later show ?thesis by auto
    next
      case False
      then have "p = 0" using Some assms(2) by (auto simp: last_sig_def)
      moreover have "take 4 (drop j d) \<noteq> magic" if "length d - back \<le> j" for j
        using later [of j] that False by auto
      ultimately show ?thesis by auto
    qed
  qed
qed

lemma last_sig_found:
  assumes "length magic = 4" "length d - back \<le> p" "take 4 (drop p d) = magic" "\<forall>j>p. take 4 (drop j d) \<noteq> magic"
  shows "last_sig magic d back = p"
proof (rule last_sig_eqI)
  have "length (take 4 (drop p d)) = 4" using assms(1,3) by simp
  then show p: "p + 3 < length d" by simp
  show "sig_here magic d p" using sig_here_take [OF assms(1), of p d] assms(3) p by simp
  show "\<not> sig_here magic d j" if "p < j" "j + 3 < length d" for j
    using sig_here_take [OF assms(1), of j d] assms(4) that by simp
qed (rule assms(2))

lemma last_sig_none:
  assumes "length magic = 4" "\<forall>j>0. length d - back \<le> j \<longrightarrow> take 4 (drop j d) \<noteq> magic"
  shows "last_sig magic d back = 0"
  by (rule last_sig_zeroI) (use sig_here_take [OF assms(1)] assms(2) in auto)

end
