(* ===== verification/ZipOpen.thy ===== *)
theory ZipOpen
  imports ZipClose Search
begin

text \<open>
  Opening an archive for writing (\<open>zipOpen3\<close> and its wrappers), and, to add to an existing
  one, finding and loading its central directory.
\<close>

section \<open>Finding the end record\<close>

definition zip64local_SearchCentralDir ::
    "'w zlib_filefunc64_32_def \<Rightarrow> voidpf \<Rightarrow> sys \<Rightarrow> 'w \<Rightarrow> ZPOS64_T \<times> sys \<times> 'w" where
  "zip64local_SearchCentralDir ff fs \<sigma> w =
     (let (p, \<sigma>, w) = search_signature ff fs sig_end_of_central_dir \<sigma> w in (of_nat p, \<sigma>, w))"

text \<open>Lines 603-637: from the locator to the ZIP64 end record; 0 when anything is wrong.\<close>

definition zip64_follow_locator ::
    "'w zlib_filefunc64_32_def \<Rightarrow> voidpf \<Rightarrow> ZPOS64_T \<Rightarrow> 'w \<Rightarrow> ZPOS64_T \<times> 'w" where
  "zip64_follow_locator ff fs uPosFound w =
     (let (r, w) = ZSEEK64 ff fs uPosFound ZLIB_FILEFUNC_SEEK_SET w in
      if r \<noteq> 0 then (0, w) else
      let (e, uL, w) = zip64local_getLong ff fs w in
      if e \<noteq> ZIP_OK then (0, w) else
      let (e, uL, w) = zip64local_getLong ff fs w in
      if e \<noteq> ZIP_OK \<or> uL \<noteq> 0 then (0, w) else
      let (e, relativeOffset, w) = zip64local_getLong64 ff fs w in
      if e \<noteq> ZIP_OK then (0, w) else
      let (e, uL, w) = zip64local_getLong ff fs w in
      if e \<noteq> ZIP_OK \<or> uL \<noteq> 1 then (0, w) else
      let (r, w) = ZSEEK64 ff fs relativeOffset ZLIB_FILEFUNC_SEEK_SET w in
      if r \<noteq> 0 then (0, w) else
      let (e, uL, w) = zip64local_getLong ff fs w in
      if e \<noteq> ZIP_OK \<or> uL \<noteq> 0x06064b50 then (0, w) else (relativeOffset, w))"

definition zip64local_SearchCentralDir64 ::
    "'w zlib_filefunc64_32_def \<Rightarrow> voidpf \<Rightarrow> sys \<Rightarrow> 'w \<Rightarrow> ZPOS64_T \<times> sys \<times> 'w" where
  "zip64local_SearchCentralDir64 ff fs \<sigma> w =
     (let (p, \<sigma>, w) = search_signature ff fs sig_zip64_locator \<sigma> w in
      if p = 0 then (0, \<sigma>, w)
      else (let (r, w) = zip64_follow_locator ff fs (of_nat p) w in (r, \<sigma>, w)))"

section \<open>Loading the central directory\<close>

text \<open>The fields of an end record that \<open>LoadCentralDirectoryRecord\<close> keeps.\<close>

record end_record =
  er_number_entry_CD :: ZPOS64_T
  er_size_central_dir :: ZPOS64_T
  er_offset_central_dir :: ZPOS64_T
  er_size_comment :: uLong

text \<open>Lines 684-738, with a ZIP64 end record.\<close>

definition load_zip64_record ::
    "'w zlib_filefunc64_32_def \<Rightarrow> voidpf \<Rightarrow> ZPOS64_T \<Rightarrow> 'w \<Rightarrow> int \<times> end_record \<times> 'w" where
  "load_zip64_record ff fs central_pos w =
     (let (r, w) = ZSEEK64 ff fs central_pos ZLIB_FILEFUNC_SEEK_SET w;
          err = (if r \<noteq> 0 then ZIP_ERRNO else ZIP_OK);
          (e, uL, w) = zip64local_getLong ff fs w; err = note_err e err;
          (e, sizeEndOfCentralDirectory, w) = zip64local_getLong64 ff fs w; err = note_err e err;
          (e, VersionMadeBy, w) = zip64local_getShort ff fs w; err = note_err e err;
          (e, VersionNeeded, w) = zip64local_getShort ff fs w; err = note_err e err;
          (e, number_disk, w) = zip64local_getLong ff fs w; err = note_err e err;
          (e, number_disk_with_CD, w) = zip64local_getLong ff fs w; err = note_err e err;
          (e, number_entry, w) = zip64local_getLong64 ff fs w; err = note_err e err;
          (e, number_entry_CD, w) = zip64local_getLong64 ff fs w; err = note_err e err;
          err = (if number_entry_CD \<noteq> number_entry \<or> number_disk_with_CD \<noteq> 0 \<or> number_disk \<noteq> 0
                 then ZIP_BADZIPFILE else err);
          (e, size_central_dir, w) = zip64local_getLong64 ff fs w; err = note_err e err;
          (e, offset_central_dir, w) = zip64local_getLong64 ff fs w; err = note_err e err
      in (err, \<lparr>er_number_entry_CD = number_entry_CD, er_size_central_dir = size_central_dir,
                er_offset_central_dir = offset_central_dir, er_size_comment = 0\<rparr>, w))"

text \<open>Lines 740-791, without one. A failed getter has stored 0.\<close>

definition load_end_record ::
    "'w zlib_filefunc64_32_def \<Rightarrow> voidpf \<Rightarrow> ZPOS64_T \<Rightarrow> 'w \<Rightarrow> int \<times> end_record \<times> 'w" where
  "load_end_record ff fs central_pos w =
     (let (r, w) = ZSEEK64 ff fs central_pos ZLIB_FILEFUNC_SEEK_SET w;
          err = (if r \<noteq> 0 then ZIP_ERRNO else ZIP_OK);
          (e, uL, w) = zip64local_getLong ff fs w; err = note_err e err;
          (e, number_disk, w) = zip64local_getShort ff fs w; err = note_err e err;
          (e, number_disk_with_CD, w) = zip64local_getShort ff fs w; err = note_err e err;
          (e, uL, w) = zip64local_getShort ff fs w; err = note_err e err;
          number_entry = (if e \<noteq> ZIP_OK then 0 else uL);
          (e, uL, w) = zip64local_getShort ff fs w; err = note_err e err;
          number_entry_CD = (if e \<noteq> ZIP_OK then 0 else uL);
          err = (if number_entry_CD \<noteq> number_entry \<or> number_disk_with_CD \<noteq> 0 \<or> number_disk \<noteq> 0
                 then ZIP_BADZIPFILE else err);
          (e, uL, w) = zip64local_getLong ff fs w; err = note_err e err;
          size_central_dir = (if e \<noteq> ZIP_OK then 0 else uL);
          (e, uL, w) = zip64local_getLong ff fs w; err = note_err e err;
          offset_central_dir = (if e \<noteq> ZIP_OK then 0 else uL);
          (e, size_comment, w) = zip64local_getShort ff fs w; err = note_err e err
      in (err, \<lparr>er_number_entry_CD = number_entry_CD, er_size_central_dir = size_central_dir,
                er_offset_central_dir = offset_central_dir, er_size_comment = size_comment\<rparr>, w))"

text \<open>
  Lines 806-835: the loop that copies the directory into the block list, and its start. Its
  buffer is one block long. A NULL buffer that is read into is undefined behaviour.
\<close>

function load_central_loop ::
    "'w zlib_filefunc64_32_def \<Rightarrow> voidpf \<Rightarrow> int \<Rightarrow> nat \<Rightarrow> linkedlist_data \<Rightarrow> sys \<Rightarrow> 'w
     \<Rightarrow> int \<times> linkedlist_data \<times> sys \<times> 'w" where
  "load_central_loop ff fs err to_read central_dir \<sigma> w =
     (if to_read > 0 \<and> err = ZIP_OK then
        (let read_this = (if SIZEDATA_INDATABLOCK > to_read then to_read else SIZEDATA_INDATABLOCK);
             (buf, w) = ZREAD64 ff fs (of_nat read_this) w;
             err = (if length buf \<noteq> read_this then ZIP_ERRNO else err);
             (err, cd, \<sigma>) = (if err = ZIP_OK then add_data_in_datablock (Some central_dir) buf \<sigma>
                             else (err, Some central_dir, \<sigma>))
         in load_central_loop ff fs err (to_read - read_this) (the cd) \<sigma> w)
      else (err, central_dir, \<sigma>, w))"
  by pat_completeness auto
termination
  by (relation "measure (\<lambda>(ff, fs, err, to_read, cd, \<sigma>, w). to_read)")
    (auto simp: SIZEDATA_INDATABLOCK_def)

declare load_central_loop.simps [simp del]

text \<open>Lines 800-838, for an archive that passed the checks.\<close>

definition load_directory ::
    "('w, 'z) zip64_internal \<Rightarrow> ZPOS64_T \<Rightarrow> end_record \<Rightarrow> sys \<Rightarrow> 'w
     \<Rightarrow> (int \<times> ('w, 'z) zip64_internal \<times> sys \<times> 'w) option" where
  "load_directory zi central_pos er \<sigma> w =
     (let ff = zi_filefunc zi; fs = zi_filestream zi;
          (zi, \<sigma>, w) =
            (if er_size_comment er > 0 then
               (let (ok, \<sigma>) = malloc (unat (er_size_comment er) + 1) \<sigma> in
                if ok then
                  (let (c, w) = ZREAD64 ff fs (er_size_comment er) w
                   in (zi\<lparr>zi_globalcomment := Some (c_string c)\<rparr>, \<sigma>, w))
                else (zi\<lparr>zi_globalcomment := None\<rparr>, \<sigma>, w))
             else (zi, \<sigma>, w));
          byte_before_the_zipfile = central_pos - (er_offset_central_dir er + er_size_central_dir er);
          zi = zi\<lparr>zi_add_position := byte_before_the_zipfile\<rparr>;
          (ok, \<sigma>) = malloc SIZEDATA_INDATABLOCK \<sigma>;
          (r, w) = ZSEEK64 ff fs (er_offset_central_dir er + byte_before_the_zipfile) ZLIB_FILEFUNC_SEEK_SET w;
          err = (if r \<noteq> 0 then ZIP_ERRNO else ZIP_OK)
      in if \<not> ok \<and> er_size_central_dir er > 0 \<and> err = ZIP_OK then None
         else
           (let (err, cd, \<sigma>, w) =
                  load_central_loop ff fs err (unat (er_size_central_dir er)) (zi_central_dir zi) \<sigma> w;
                zi = zi\<lparr>zi_central_dir := cd, zi_begin_pos := byte_before_the_zipfile,
                        zi_number_entry := er_number_entry_CD er\<rparr>;
                (r, w) = ZSEEK64 ff fs (er_offset_central_dir er + byte_before_the_zipfile) ZLIB_FILEFUNC_SEEK_SET w;
                err = (if r \<noteq> 0 then ZIP_ERRNO else err)
            in Some (err, zi, \<sigma>, w)))"

definition LoadCentralDirectoryRecord ::
    "('w, 'z) zip64_internal \<Rightarrow> sys \<Rightarrow> 'w \<Rightarrow> (int \<times> ('w, 'z) zip64_internal \<times> sys \<times> 'w) option" where
  "LoadCentralDirectoryRecord pziinit \<sigma> w =
     (let ff = zi_filefunc pziinit; fs = zi_filestream pziinit;
          (central_pos, \<sigma>, w) = zip64local_SearchCentralDir64 ff fs \<sigma> w;
          hasZIP64Record = (central_pos > 0);
          (central_pos, \<sigma>, w) = (if central_pos > 0 then (central_pos, \<sigma>, w)
                                 else zip64local_SearchCentralDir ff fs \<sigma> w);
          (err, er, w) = (if hasZIP64Record then load_zip64_record ff fs central_pos w
                          else load_end_record ff fs central_pos w);
          err = (if central_pos < er_offset_central_dir er + er_size_central_dir er \<and> err = ZIP_OK
                 then ZIP_BADZIPFILE else err)
      in if err \<noteq> ZIP_OK then (let (_, w) = ZCLOSE64 ff fs w in Some (ZIP_ERRNO, pziinit, \<sigma>, w))
         else load_directory pziinit central_pos er \<sigma> w)"

section \<open>Opening an archive\<close>

definition APPEND_STATUS_CREATE :: int where [simp]: "APPEND_STATUS_CREATE = 0"
definition APPEND_STATUS_CREATEAFTER :: int where [simp]: "APPEND_STATUS_CREATEAFTER = 1"
definition APPEND_STATUS_ADDINZIP :: int where [simp]: "APPEND_STATUS_ADDINZIP = 2"

definition sizeof_zip64_internal :: nat where "sizeof_zip64_internal = 66000"

text \<open>
  Lines 864-918, with the callback table chosen. \<open>ci0\<close> is the uninitialised
  \<open>ziinit.ci\<close>. The result has the archive (\<open>None\<close> for NULL) and the value stored
  through \<open>globalcomment\<close>. The size of the structure only reaches \<open>malloc\<close>; it is a
  little above the 64 KiB of its buffer.
\<close>

definition zipOpen3_ff ::
    "'w zlib_filefunc64_32_def \<Rightarrow> 'z curfile64_info \<Rightarrow> path option \<Rightarrow> int \<Rightarrow> sys \<Rightarrow> 'w
     \<Rightarrow> (('w, 'z) zip64_internal option \<times> byte list option \<times> sys \<times> 'w) option" where
  "zipOpen3_ff ff ci0 pathname append_status \<sigma> w =
     (let (fs, w) = ZOPEN64 ff pathname
            (if append_status = APPEND_STATUS_CREATE
             then ZLIB_FILEFUNC_MODE_READ OR ZLIB_FILEFUNC_MODE_WRITE OR ZLIB_FILEFUNC_MODE_CREATE
             else ZLIB_FILEFUNC_MODE_READ OR ZLIB_FILEFUNC_MODE_WRITE OR ZLIB_FILEFUNC_MODE_EXISTING) w
      in if fs = NULL then Some (None, None, \<sigma>, w)
         else
           (let (_, w) = (if append_status = APPEND_STATUS_CREATEAFTER
                          then ZSEEK64 ff fs 0 ZLIB_FILEFUNC_SEEK_END w else (0, w));
                (pos, w) = ZTELL64 ff fs w;
                ziinit = \<lparr>zi_filefunc = ff, zi_filestream = fs, zi_central_dir = init_linkedlist,
                          zi_in_opened_file_inzip = 0, zi_ci = ci0\<lparr>ci_stream_initialised := 0\<rparr>,
                          zi_begin_pos = pos, zi_add_position = 0, zi_number_entry = 0, zi_globalcomment = None\<rparr>;
                (ok, \<sigma>) = malloc sizeof_zip64_internal \<sigma>
            in if \<not> ok then (let (_, w) = ZCLOSE64 ff fs w in Some (None, None, \<sigma>, w))
               else do {
                 (err, ziinit, \<sigma>, w) \<leftarrow>
                   (if append_status = APPEND_STATUS_ADDINZIP then LoadCentralDirectoryRecord ziinit \<sigma> w
                    else Some (ZIP_OK, ziinit, \<sigma>, w));
                 Some (if err \<noteq> ZIP_OK then None else Some ziinit, zi_globalcomment ziinit, \<sigma>, w)
               }))"

text \<open>A NULL table stands for the stdio callbacks.\<close>

definition zipOpen3 ::
    "'z curfile64_info \<Rightarrow> path option \<Rightarrow> int \<Rightarrow> stdio zlib_filefunc64_32_def option \<Rightarrow> sys \<Rightarrow> stdio
     \<Rightarrow> ((stdio, 'z) zip64_internal option \<times> byte list option \<times> sys \<times> stdio) option" where
  "zipOpen3 ci0 pathname append_status pzlib_filefunc64_32_def =
     zipOpen3_ff (case pzlib_filefunc64_32_def of None \<Rightarrow> stdio_filefunc64 | Some ff \<Rightarrow> ff) ci0 pathname append_status"

definition zipOpen2 ::
    "'z curfile64_info \<Rightarrow> path option \<Rightarrow> int \<Rightarrow> stdio zlib_filefunc_def option \<Rightarrow> sys \<Rightarrow> stdio
     \<Rightarrow> ((stdio, 'z) zip64_internal option \<times> byte list option \<times> sys \<times> stdio) option" where
  "zipOpen2 ci0 pathname append_status pzlib_filefunc32_def =
     (case pzlib_filefunc32_def of
        Some p \<Rightarrow> zipOpen3 ci0 pathname append_status (Some (fill_zlib_filefunc64_32_def_from_filefunc32 p))
      | None \<Rightarrow> zipOpen3 ci0 pathname append_status None)"

definition zipOpen2_64 ::
    "'z curfile64_info \<Rightarrow> path option \<Rightarrow> int \<Rightarrow> stdio zlib_filefunc64_def option \<Rightarrow> sys \<Rightarrow> stdio
     \<Rightarrow> ((stdio, 'z) zip64_internal option \<times> byte list option \<times> sys \<times> stdio) option" where
  "zipOpen2_64 ci0 pathname append_status pzlib_filefunc_def =
     (case pzlib_filefunc_def of
        Some p \<Rightarrow> zipOpen3 ci0 pathname append_status
          (Some \<lparr>zfile_func64 = p, zopen32_file = None, ztell32_file = None, zseek32_file = None\<rparr>)
      | None \<Rightarrow> zipOpen3 ci0 pathname append_status None)"

definition zipOpen ::
    "'z curfile64_info \<Rightarrow> path option \<Rightarrow> int \<Rightarrow> sys \<Rightarrow> stdio
     \<Rightarrow> ((stdio, 'z) zip64_internal option \<times> byte list option \<times> sys \<times> stdio) option" where
  "zipOpen ci0 pathname append_status = zipOpen3 ci0 pathname append_status None"

definition zipOpen64 ::
    "'z curfile64_info \<Rightarrow> path option \<Rightarrow> int \<Rightarrow> sys \<Rightarrow> stdio
     \<Rightarrow> ((stdio, 'z) zip64_internal option \<times> byte list option \<times> sys \<times> stdio) option" where
  "zipOpen64 ci0 pathname append_status = zipOpen3 ci0 pathname append_status None"

end
