(* ===== verification/ArchiveRun.thy ===== *)
theory ArchiveRun
  imports Archive ZipOpen
begin

text \<open>
  A client that creates an archive: \<open>zipOpen64\<close>, entries one after another, \<open>zipClose\<close>.
  The file it leaves is the concatenation of the local entries, the central directory and the
  end record.
\<close>

section \<open>Adding entries\<close>

context filefunc
begin

lemma add_entries_eq:
  fixes zi :: "('w, 'z) zip64_internal" and Z :: "'z zlib"
  assumes "zi_filefunc zi = ff" "zi_filestream zi = h" "fetch w h = Some s" "arch_closed b es zi s"
    "\<forall>j \<in> set js. job_ok j" "malloc_total \<sigma>"
    "length (ab_data b @ locals (es @ map (job_entry Z) js)) \<le> limit w"
    "length (ab_data b @ locals (es @ map (job_entry Z) js)) < 0xffffffff"
  shows "\<exists>zi' \<sigma>' s'. add_entries Z (Some zi) js \<sigma> w = Some (ZIP_OK, Some zi', \<sigma>', store h s' w)
    \<and> malloc_total \<sigma>' \<and> same_archive zi zi' \<and> arch_closed b (es @ map (job_entry Z) js) zi' s'"
  using assms
proof (induction js arbitrary: zi w s es \<sigma>)
  case Nil
  then show ?case by (intro exI [of _ zi] exI [of _ \<sigma>] exI [of _ s]) (simp add: store_fetch)
next
  case (Cons j js)
  have "job_ok j" "length (ab_data b @ locals (es @ [job_entry Z j])) \<le> limit w" "length (ab_data b @ locals es) < 0xffffffff"
    using Cons.prems(5,7,8) by auto
  with add_entry_eq [OF Cons.prems(1-4) _ Cons.prems(6)] obtain zi1 \<sigma>1 s1 where 1:
    "add_entry Z (Some zi) j \<sigma> w = Some (ZIP_OK, Some zi1, \<sigma>1, store h s1 w)" "malloc_total \<sigma>1" "same_archive zi zi1"
    "arch_closed b (es @ [job_entry Z j]) zi1 s1" by blast
  have "zi_filefunc zi1 = ff" "zi_filestream zi1 = h" using 1(3) Cons.prems(1,2) by (simp_all add: same_archive_def)
  from Cons.IH [OF this fetch_store [OF Cons.prems(3)] 1(4) _ 1(2)] Cons.prems(5,7,8) obtain zi2 \<sigma>2 s2 where 2:
    "add_entries Z (Some zi1) js \<sigma>1 (store h s1 w) = Some (ZIP_OK, Some zi2, \<sigma>2, store h s2 (store h s1 w))"
    "malloc_total \<sigma>2" "same_archive zi1 zi2" "arch_closed b ((es @ [job_entry Z j]) @ map (job_entry Z) js) zi2 s2"
    by (auto simp: limit_store)
  from 1 2 same_archive_trans [OF 1(3) 2(3)] show ?case
    by (intro exI [of _ zi2] exI [of _ \<sigma>2] exI [of _ s2]) (simp add: store_store)
qed

end

section \<open>A new archive\<close>

definition archive_bytes :: "zip_entry list \<Rightarrow> byte list \<Rightarrow> byte list" where
  "archive_bytes es comment =
     locals es @ central_dir 0 es @
     end_of_central_dir (of_nat (length es)) (of_nat (length (central_dir 0 es))) (of_nat (length (locals es))) comment"

definition make_archive ::
    "'z zlib \<Rightarrow> 'z curfile64_info \<Rightarrow> path \<Rightarrow> job list \<Rightarrow> byte list option \<Rightarrow> sys \<Rightarrow> stdio \<Rightarrow> (int \<times> sys \<times> stdio) option" where
  "make_archive Z ci0 path js comment \<sigma> w = do {
     (file, _, \<sigma>, w) \<leftarrow> zipOpen64 ci0 (Some path) APPEND_STATUS_CREATE \<sigma> w;
     (err, file, \<sigma>, w) \<leftarrow> add_entries Z file js \<sigma> w;
     if err \<noteq> ZIP_OK then Some (err, \<sigma>, w) else zipClose Z file comment \<sigma> w }"

definition fresh_archive :: "'z curfile64_info \<Rightarrow> voidpf \<Rightarrow> (stdio, 'z) zip64_internal" where
  "fresh_archive ci0 h =
     \<lparr>zi_filefunc = stdio_filefunc64, zi_filestream = h, zi_central_dir = init_linkedlist,
      zi_in_opened_file_inzip = 0, zi_ci = ci0\<lparr>ci_stream_initialised := 0\<rparr>,
      zi_begin_pos = 0, zi_add_position = 0, zi_number_entry = 0, zi_globalcomment = None\<rparr>"

lemma zipOpen64_create:
  assumes "\<not> w_denied w path" "malloc_total \<sigma>"
  shows "\<exists>\<sigma>' w' s. zipOpen64 ci0 (Some path) APPEND_STATUS_CREATE \<sigma> w
      = Some (Some (fresh_archive ci0 (Suc (w_next w))), None, \<sigma>', w')
    \<and> malloc_total \<sigma>' \<and> w_limit w' = w_limit w \<and> w_denied w' = w_denied w
    \<and> w_files w' = (w_files w)(path \<mapsto> []) \<and> w_next w' = Suc (w_next w)
    \<and> map_option f_path (w_streams w' (Suc (w_next w))) = Some path
    \<and> stdio_fetch w' (Suc (w_next w)) = Some s \<and> arch_closed \<lparr>ab_data = [], ab_dir = [], ab_count = 0\<rparr> []
        (fresh_archive ci0 (Suc (w_next w))) s"
proof -
  obtain \<sigma>' where m: "malloc sizeof_zip64_internal \<sigma> = (True, \<sigma>')" "malloc_total \<sigma>'"
    using malloc_total_malloc [OF assms(2)] by blast
  let ?h = "Suc (w_next w)"
  let ?w = "w\<lparr>w_files := (w_files w)(path \<mapsto> []),
    w_streams := (w_streams w)(?h \<mapsto> \<lparr>f_path = path, f_pos = 0, f_rd = False, f_wr = True, f_err = False\<rparr>), w_next := ?h\<rparr>"
  let ?s = "\<lparr>s_data = [], s_pos = 0, s_rd = False, s_wr = True, s_err = False\<rparr>"
  have o: "ZOPEN64 stdio_filefunc64 (Some path) (ZLIB_FILEFUNC_MODE_READ OR ZLIB_FILEFUNC_MODE_WRITE OR ZLIB_FILEFUNC_MODE_CREATE) w
      = (?h, ?w)"
    using assms(1) by (simp add: ZOPEN64_def call_zopen64_def stdio_filefunc64_def fill_fopen64_filefunc_def
        fopen64_file_func_def mode_fopen_def libc_fopen_def)
  have f: "stdio_fetch ?w ?h = Some ?s" by (simp add: stdio_fetch_def)
  have "zipOpen64 ci0 (Some path) APPEND_STATUS_CREATE \<sigma> w = Some (Some (fresh_archive ci0 ?h), None, \<sigma>', ?w)"
    unfolding zipOpen64_def zipOpen3_def zipOpen3_ff_def
    using o stdio64.io_tell [OF f] m(1) by (simp add: fresh_archive_def Let_def)
  with m(2) f show ?thesis
    by (intro exI [of _ \<sigma>'] exI [of _ ?w] exI [of _ ?s])
      (simp add: arch_closed_def arch_dir_def at_end_def fresh_archive_def)
qed

lemma close_stored_file:
  assumes "stdio_fetch w h = Some s" "map_option f_path (w_streams w h) = Some path"
  shows "\<exists>w'. ZCLOSE64 stdio_filefunc64 h (stdio_store h s' w) = (0, w')
    \<and> w_files w' = (w_files w)(path \<mapsto> s_data s') \<and> w_denied w' = w_denied w"
proof -
  obtain f where "w_streams w h = Some f" "f_path f = path" using assms(2) by auto
  then show ?thesis
    by (simp add: ZCLOSE64_def stdio_filefunc64_def fill_fopen64_filefunc_def fclose_file_func_def libc_fclose_def stdio_store_def)
qed

text \<open>Closing a new archive: the directory and the end record follow the entries.\<close>

lemma zipClose_new:
  fixes zi :: "(stdio, 'z) zip64_internal" and Z :: "'z zlib"
  assumes zi: "zi_filefunc zi = stdio_filefunc64" "zi_filestream zi = h" "zi_add_position zi = 0" "zi_globalcomment zi = None"
    and f: "stdio_fetch w h = Some s" "map_option f_path (w_streams w h) = Some path"
    and arch: "arch_closed \<lparr>ab_data = [], ab_dir = [], ab_count = 0\<rparr> es zi s"
    and c: "c = case_option [] id comment" "length c < 2 ^ 64"
    and room: "length (archive_bytes es c) \<le> w_limit w" "length (locals es) < 0xffffffff"
  shows "\<exists>w'. zipClose Z (Some zi) comment \<sigma> w = Some (ZIP_OK, \<sigma>, w')
    \<and> w_files w' = (w_files w)(path \<mapsto> archive_bytes es c) \<and> w_denied w' = w_denied w"
proof -
  have d: "s_data s = locals es" "ll_bytes (zi_central_dir zi) = central_dir 0 es" "zi_number_entry zi = of_nat (length es)"
    "at_end s" "zi_in_opened_file_inzip zi = 0" using arch zi(3) by (simp_all add: arch_closed_def arch_dir_def)
  define tail where "tail = central_dir 0 es @ end_of_central_dir (of_nat (length es)) (of_nat (length (central_dir 0 es)))
    (of_nat (length (locals es))) c"
  have bytes: "archive_bytes es c = s_data s @ tail" by (simp add: archive_bytes_def tail_def d)
  have t: "zip_close_tail zi comment ZIP_OK w = (let (r, w) = ZCLOSE64 stdio_filefunc64 h (stdio_store h (s_write tail s) w)
      in (if r \<noteq> 0 then ZIP_ERRNO else ZIP_OK, w))"
  proof (rule stdio64.zip_close_tail_eq [OF zi(1,2) f(1) arch])
    show "of_nat (length (s_data s)) - zi_add_position zi < 0xffffffff" using below32 [OF room(2)] d zi(3) by simp
    show "c = case_option [] id (if comment = None then zi_globalcomment zi else comment)" using c(1) zi(4) by simp
    show "tail = central_dir 0 es @ end_of_central_dir (zi_number_entry zi) (of_nat (length (central_dir 0 es)))
        (of_nat (length (s_data s)) - zi_add_position zi) c" by (simp add: tail_def d zi)
    show "length (s_data s @ tail) \<le> w_limit w" using room(1) bytes by simp
  qed (use c d in simp_all)
  obtain w' where w': "ZCLOSE64 stdio_filefunc64 h (stdio_store h (s_write tail s) w) = (0, w')"
    "w_files w' = (w_files w)(path \<mapsto> s_data (s_write tail s))" "w_denied w' = w_denied w"
    using close_stored_file [OF f] by blast
  then show ?thesis using t d(4,5) bytes by (simp add: zipClose_def at_end_data)
qed

lemma make_archive_eq:
  fixes Z :: "'z zlib"
  assumes "\<not> w_denied w path" "malloc_total \<sigma>" "\<forall>j \<in> set js. job_ok j"
    and es: "es = map (job_entry Z) js" and c: "c = case_option [] id comment" "length c < 2 ^ 64"
    and room: "length (archive_bytes es c) \<le> w_limit w" "length (locals es) < 0xffffffff"
  shows "\<exists>\<sigma>' w'. make_archive Z ci0 path js comment \<sigma> w = Some (ZIP_OK, \<sigma>', w')
    \<and> w_files w' = (w_files w)(path \<mapsto> archive_bytes es c) \<and> w_denied w' = w_denied w"
proof -
  let ?h = "Suc (w_next w)" and ?b = "\<lparr>ab_data = [], ab_dir = [], ab_count = 0\<rparr>"
  obtain \<sigma>1 w1 s where 1: "zipOpen64 ci0 (Some path) APPEND_STATUS_CREATE \<sigma> w
      = Some (Some (fresh_archive ci0 ?h), None, \<sigma>1, w1)"
    "malloc_total \<sigma>1" "w_limit w1 = w_limit w" "w_files w1 = (w_files w)(path \<mapsto> [])"
    "map_option f_path (w_streams w1 ?h) = Some path"
    "stdio_fetch w1 ?h = Some s" "arch_closed ?b [] (fresh_archive ci0 ?h) s"
    "w_denied w1 = w_denied w"
    using zipOpen64_create [OF assms(1,2), of ci0] by blast
  have "zi_filefunc (fresh_archive ci0 ?h) = stdio_filefunc64" "zi_filestream (fresh_archive ci0 ?h) = ?h"
    by (simp_all add: fresh_archive_def)
  from stdio64.add_entries_eq [OF this 1(6,7) assms(3) 1(2), of Z] room 1(3)
  obtain zi \<sigma>2 s2 where 2: "add_entries Z (Some (fresh_archive ci0 ?h)) js \<sigma>1 w1 = Some (ZIP_OK, Some zi, \<sigma>2, stdio_store ?h s2 w1)"
    "same_archive (fresh_archive ci0 ?h) zi" "arch_closed ?b es zi s2"
    by (auto simp: es archive_bytes_def)
  have zi: "zi_filefunc zi = stdio_filefunc64" "zi_filestream zi = ?h" "zi_add_position zi = 0" "zi_globalcomment zi = None"
    using 2(2) by (simp_all add: same_archive_def fresh_archive_def)
  let ?w2 = "stdio_store ?h s2 w1"
  have w2: "map_option f_path (w_streams ?w2 ?h) = Some path" "w_files ?w2 = (w_files w1)(path \<mapsto> s_data s2)"
    "w_denied ?w2 = w_denied w1" using 1(5) by (auto simp: stdio_store_def)
  obtain w3 where 3: "zipClose Z (Some zi) comment \<sigma>2 ?w2 = Some (ZIP_OK, \<sigma>2, w3)"
    "w_files w3 = (w_files ?w2)(path \<mapsto> archive_bytes es c)" "w_denied w3 = w_denied ?w2"
    using zipClose_new [OF zi stdio_fetch_store [OF 1(6)] w2(1) 2(3) c _ room(2)] room(1) 1(3)
    by (fastforce simp: stdio_limit_store)
  then show ?thesis using 1(1,4,8) 2(1) w2 by (simp add: make_archive_def)
qed

end
