(* ===== verification/MztoolsSpec.thy ===== *)
theory MztoolsSpec
  imports Mztools ArchiveRun
begin

text \<open>
  What \<open>unzRepair\<close> promises: of a file that starts with whole local entries, it makes the archive
  that has these entries and a directory for them.
\<close>

section \<open>Fields\<close>

text \<open>Copying a field through \<open>READ\<close> and \<open>bytes\<close> copies its bytes.\<close>

lemma take2: "adr + 2 \<le> length h \<Longrightarrow> take 2 (drop adr h) = [h ! adr, h ! (adr + 1)]"
  by (simp add: numeral_2_eq_2 Cons_nth_drop_Suc [symmetric])

lemma byte_bit_bound: "bit (b :: byte) n \<Longrightarrow> n < 8"
  using bit_imp_le_length [of b n] by simp

lemma bytes_16_READ_16:
  assumes "adr + 2 \<le> length h"
  shows "bytes_16 (READ_16 h adr) = take 2 (drop adr h)"
proof -
  have "(ucast (READ_16 h adr AND 0xff) :: byte) = h ! adr" "(ucast (drop_bit 8 (READ_16 h adr) AND 0xff) :: byte) = h ! (adr + 1)"
    by (intro bit_word_eqI; auto simp: READ_16_def and_ff bit_simps dest: byte_bit_bound)+
  then show ?thesis using take2 [OF assms] by (simp add: bytes_16_def)
qed

lemma bytes_32_READ_32:
  assumes "adr + 4 \<le> length h"
  shows "bytes_32 (READ_32 h adr) = take 4 (drop adr h)"
proof -
  have "READ_32 h adr AND 0xffff = READ_16 h adr" "drop_bit 16 (READ_32 h adr) = READ_16 h (adr + 2)"
    by (intro bit_word_eqI; auto simp: READ_32_def READ_16_def and_ffff bit_simps add.commute dest: byte_bit_bound)+
  moreover have "take 4 (drop adr h) = take 2 (drop adr h) @ take 2 (drop (adr + 2) h)"
    using take_add [of 2 2 "drop adr h"] by (simp add: add.commute)
  ultimately show ?thesis using assms by (simp add: bytes_32_def bytes_16_READ_16)
qed

text \<open>The headers, for a header read as \<open>h\<close>.\<close>

lemma length_bytes [simp]: "length (bytes_16 n) = 2" "length (bytes_32 n) = 4"
  by (simp_all add: bytes_16_def bytes_32_def)

lemma mem_write_behind:
  "mem_write (length xs) bs (xs @ ys) = (xs @ bs) @ drop (length bs) ys"
  by (simp add: mem_write_def)

lemma WRITE_next:
  "length xs = adr \<Longrightarrow> WRITE_16 adr n (xs @ ys) = (xs @ bytes_16 n) @ drop 2 ys"
  "length xs = adr \<Longrightarrow> WRITE_32 adr n (xs @ ys) = (xs @ bytes_32 n) @ drop 4 ys"
  by (auto simp: WRITE_16_def WRITE_32_def mem_write_behind)

lemma WRITE_first: "WRITE_32 0 n ys = bytes_32 n @ drop 4 ys"
  using WRITE_next(2) [of "[]" 0 n ys] by simp

lemma repair_central_eq:
  assumes "length junk = 46"
  shows "repair_central junk h off =
    bytes_32 0x02014b50 @ bytes_16 (READ_16 h 4) @ bytes_16 (READ_16 h 4) @ bytes_16 (READ_16 h 6) @ bytes_16 (READ_16 h 8)
    @ bytes_16 (READ_16 h 10) @ bytes_16 (READ_16 h 12) @ bytes_32 (READ_32 h 14) @ bytes_32 (READ_32 h 18)
    @ bytes_32 (READ_32 h 22) @ bytes_16 (READ_16 h 26) @ bytes_16 (READ_16 h 28) @ bytes_16 0 @ bytes_16 0 @ bytes_16 0
    @ bytes_32 0 @ bytes_32 off"
  unfolding repair_central_def Let_def WRITE_first
  by (simp only: WRITE_next length_bytes length_append) (simp add: assms)

lemma repair_end_eq:
  assumes "length junk = 46"
  shows "repair_end junk r =
    (let n = of_int (min 0xffff (rp_entries r))
     in bytes_32 0x06054b50 @ bytes_16 0 @ bytes_16 0 @ bytes_16 n @ bytes_16 n @ bytes_32 (rp_offsetCD r)
        @ bytes_32 (rp_offset r) @ bytes_16 0)"
  unfolding repair_end_def Let_def WRITE_first
  by (simp only: WRITE_next length_bytes length_append) (simp add: assms min_def)

lemma bytes_32_putValue: "bytes_32 n = putValue_buf (ucast n) 4"
proof -
  have z: "drop_bit 32 (ucast n :: 64 word) = 0"
    by (intro bit_word_eqI) (auto simp: bit_simps dest: bit_imp_le_length)
  have "putValue_buf (ucast n) 4 = map (\<lambda>k. ucast (drop_bit k (ucast n :: 64 word) AND 0xff)) [0, 8, 16, 24]"
    using z by (simp add: putValue_buf_def eval_nat_numeral)
  then show ?thesis
    by (auto simp: bytes_32_def bytes_16_def and_ff and_ffff bit_simps intro!: bit_word_eqI)
qed

lemma bytes_16_putValue:
  assumes "unat n < 65536"
  shows "bytes_16 n = putValue_buf (ucast n) 2"
proof -
  have u: "unat (ucast n :: 64 word) = unat n"
    using unsigned_less [of n, where ?'a = nat] by (simp add: unsigned_ucast_eq take_bit_nat_eq_self)
  then have "drop_bit 16 (ucast n :: 64 word) = 0"
    using assms by (simp add: unat_drop_bit unat_eq_0 [symmetric])
  then have "putValue_buf (ucast n) 2 = map (\<lambda>k. ucast (drop_bit k (ucast n :: 64 word) AND 0xff)) [0, 8]"
    by (simp add: putValue_buf_def eval_nat_numeral)
  then show ?thesis by (auto simp: bytes_16_def and_ff bit_simps intro!: bit_word_eqI)
qed

lemma le_val_bytes_32: "le_val (bytes_32 n) = unat n"
proof -
  have "unat n < 2 ^ 32" using unsigned_less [of n, where ?'a = nat] by simp
  then show ?thesis by (simp add: bytes_32_putValue le_val_putValue_buf unsigned_ucast_eq take_bit_nat_eq_self)
qed

lemma unat_READ_32: "adr + 4 \<le> length h \<Longrightarrow> unat (READ_32 h adr) = le_val (take 4 (drop adr h))"
  by (simp add: bytes_32_READ_32 [symmetric] le_val_bytes_32)

lemma unat_READ_16: "adr + 2 \<le> length h \<Longrightarrow> unat (READ_16 h adr) = le_val (take 2 (drop adr h))"
proof -
  assume "adr + 2 \<le> length h"
  have "READ_16 h adr = READ_32 ([h ! adr, h ! (adr + 1)] @ [0, 0]) 0"
    by (simp add: READ_32_def READ_16_def)
  then have "unat (READ_16 h adr) = le_val ([h ! adr, h ! (adr + 1)] @ [0, 0])" by (simp add: unat_READ_32)
  then show ?thesis using take2 [OF \<open>adr + 2 \<le> length h\<close>] by simp
qed

section \<open>Entries\<close>

text \<open>
  What the repair knows of an entry: the local header. The attributes, the comment and the
  global extra field are lost.
\<close>

definition repaired_file :: "new_file \<Rightarrow> new_file" where
  "repaired_file nf = nf\<lparr>nf_zipfi := map_option (\<lambda>z. z\<lparr>internal_fa := 0, external_fa := 0\<rparr>) (nf_zipfi nf),
     nf_extrafield_global := nf_extrafield_local nf, nf_comment := None, nf_versionMadeBy := 20\<rparr>"

definition repaired :: "zip_entry \<Rightarrow> zip_entry" where
  "repaired e = e\<lparr>ze_file := repaired_file (ze_file e)\<rparr>"

text \<open>The entries it can copy: the arrays hold the name and the extra field, and the size is in the header.\<close>

definition repairable :: "zip_entry \<Rightarrow> bool" where
  "repairable e \<longleftrightarrow> new_file_name (ze_file e) \<noteq> [] \<and> length (new_file_name (ze_file e)) \<le> 256
     \<and> length (nf_extrafield_local (ze_file e)) \<le> 1024 \<and> length (ze_data e) < 2 ^ 31
     \<and> (ze_data e = [] \<longrightarrow> ze_size e = 0)"

lemma repaired_file_sel [simp]:
  "new_file_name (repaired_file nf) = new_file_name nf" "nf_method (repaired_file nf) = nf_method nf"
  "new_file_flag (repaired_file nf) = new_file_flag nf" "nf_extrafield_local (repaired_file nf) = nf_extrafield_local nf"
  "new_file_dosDate (repaired_file nf) = new_file_dosDate nf"
  "nf_versionMadeBy (repaired_file nf) = 20" "nf_extrafield_global (repaired_file nf) = nf_extrafield_local nf"
  "new_file_comment (repaired_file nf) = []" "new_file_internal_fa (repaired_file nf) = 0" "new_file_external_fa (repaired_file nf) = 0"
  by (auto simp: repaired_file_def new_file_name_def new_file_flag_def new_file_comment_def new_file_internal_fa_def
    new_file_external_fa_def new_file_dosDate_def split: option.splits)

lemma entry_local_repaired [simp]: "entry_local (repaired e) = entry_local e"
  by (simp add: entry_local_def entry_header_def repaired_def)

lemma locals_repaired [simp]: "locals (map repaired es) = locals es"
  by (induction es) simp_all

text \<open>The header of a local entry and its fields.\<close>

definition local_fields :: "zip_entry \<Rightarrow> byte list" where
  "local_fields e = take 30 (entry_local e)"

lemma local_fields_eq:
  "local_fields e =
     putValue_buf 0x04034b50 4 @ putValue_buf 20 2 @ putValue_buf (new_file_flag (ze_file e)) 2
     @ putValue_buf (of_int (nf_method (ze_file e))) 2 @ putValue_buf (new_file_dosDate (ze_file e)) 4
     @ putValue_buf (ze_crc e) 4 @ putValue_buf (of_nat (length (ze_data e))) 4 @ putValue_buf (ze_size e) 4
     @ putValue_buf (of_nat (length (new_file_name (ze_file e)))) 2
     @ putValue_buf (of_nat (length (nf_extrafield_local (ze_file e)))) 2"
  by (simp add: local_fields_def entry_local_def entry_header_def local_header_def)

lemma length_local_fields [simp]: "length (local_fields e) = 30"
  by (simp add: local_fields_eq)

lemma entry_local_fields:
  "entry_local e = local_fields e @ new_file_name (ze_file e) @ nf_extrafield_local (ze_file e) @ ze_data e"
  by (simp add: local_fields_eq) (simp add: entry_local_def entry_header_def local_header_def)

lemma READ_local_fields:
  assumes "repairable e"
  shows "READ_32 (local_fields e) 0 = 0x04034b50"
    "unat (READ_16 (local_fields e) 26) = length (new_file_name (ze_file e))"
    "unat (READ_16 (local_fields e) 28) = length (nf_extrafield_local (ze_file e))"
    "unat (READ_32 (local_fields e) 18) = length (ze_data e)"
    "ze_data e = [] \<Longrightarrow> READ_32 (local_fields e) 22 = 0"
proof -
  have "unat (READ_32 (local_fields e) 0) = unat (0x04034b50 :: uInt)"
    by (simp add: unat_READ_32) (simp add: local_fields_eq le_val_putValue_buf)
  then show "READ_32 (local_fields e) 0 = 0x04034b50" by (simp only: word_unat_eq_iff)
  show "unat (READ_16 (local_fields e) 26) = length (new_file_name (ze_file e))"
    using assms by (simp add: unat_READ_16) (simp add: local_fields_eq le_val_putValue_buf repairable_def unat_of_nat)
  show "unat (READ_16 (local_fields e) 28) = length (nf_extrafield_local (ze_file e))"
    using assms by (simp add: unat_READ_16) (simp add: local_fields_eq le_val_putValue_buf repairable_def unat_of_nat)
  show "unat (READ_32 (local_fields e) 18) = length (ze_data e)"
    using assms by (simp add: unat_READ_32) (simp add: local_fields_eq le_val_putValue_buf repairable_def unat_of_nat)
  assume "ze_data e = []"
  with assms have "unat (READ_32 (local_fields e) 22) = unat (0 :: uInt)"
    by (simp add: unat_READ_32) (simp add: local_fields_eq le_val_putValue_buf repairable_def)
  then show "READ_32 (local_fields e) 22 = 0" by (simp only: word_unat_eq_iff)
qed

lemma repair_central_entry:
  assumes "length junk = 46" "off < 2 ^ 32"
  shows "repair_central junk (local_fields e) (of_nat off) @ new_file_name (ze_file e) @ nf_extrafield_local (ze_file e)
    = entry_central (of_nat off) (repaired e)"
proof -
  have o: "bytes_32 (of_nat off) = putValue_buf (of_nat off) 4"
    using assms(2) by (simp add: bytes_32_putValue unsigned_of_nat take_bit_nat_eq_self)
  have z: "bytes_16 0 = putValue_buf 0 2" "bytes_32 0 = putValue_buf 0 4" "bytes_32 0x02014b50 = putValue_buf 0x02014b50 4"
    by (simp add: bytes_16_def putValue_buf_eq numeral_2_eq_2, simp_all add: bytes_32_putValue)
  show ?thesis
    unfolding repair_central_eq [OF assms(1)] o z
    by (simp add: bytes_16_READ_16 bytes_32_READ_32)
      (simp add: local_fields_eq entry_central_def dir_header_def central_header_def repaired_def)
qed

section \<open>The three streams\<close>

text \<open>
  The world while the loop runs, from a world \<open>w\<close>: the damaged file is read at \<open>p\<close>, and \<open>ob\<close> and \<open>cb\<close>
  have been written.
\<close>

definition repair_world ::
    "stdio \<Rightarrow> path \<Rightarrow> path \<Rightarrow> path \<Rightarrow> nat \<Rightarrow> byte list \<Rightarrow> byte list \<Rightarrow> stdio" where
  "repair_world w file dst tmp p ob cb =
     w\<lparr>w_files := (w_files w)(dst \<mapsto> ob, tmp \<mapsto> cb),
       w_streams := (w_streams w)
         (w_next w + 1 \<mapsto> \<lparr>f_path = file, f_pos = p, f_rd = True, f_wr = False, f_err = False\<rparr>,
          w_next w + 2 \<mapsto> \<lparr>f_path = dst, f_pos = length ob, f_rd = False, f_wr = True, f_err = False\<rparr>,
          w_next w + 3 \<mapsto> \<lparr>f_path = tmp, f_pos = length cb, f_rd = False, f_wr = True, f_err = False\<rparr>),
       w_next := w_next w + 3\<rparr>"

text \<open>What the paths are: three files, the first with contents \<open>zb\<close>, which can be opened.\<close>

definition repair_paths :: "stdio \<Rightarrow> path \<Rightarrow> path \<Rightarrow> path \<Rightarrow> byte list \<Rightarrow> bool" where
  "repair_paths w file dst tmp zb \<longleftrightarrow> distinct [file, dst, tmp] \<and> w_files w file = Some zb
     \<and> (\<forall>p \<in> {file, dst, tmp}. \<not> w_denied w p)"

lemma repair_open:
  assumes "repair_paths w file dst tmp zb"
  shows "(let (h1, w) = libc_fopen file ''rb'' w; (h2, w) = libc_fopen dst ''wb'' w; (h3, w) = libc_fopen tmp ''wb'' w
    in (h1, h2, h3, w)) = (w_next w + 1, w_next w + 2, w_next w + 3, repair_world w file dst tmp 0 [] [])"
  using assms by (auto simp: libc_fopen_def repair_paths_def repair_world_def numeral_2_eq_2 numeral_3_eq_3)

lemma repair_fread:
  assumes "repair_paths w file dst tmp zb" "drop p zb = bs @ rest" "length bs = n \<or> rest = [] \<and> length bs \<le> n"
  shows "libc_fread n (w_next w + 1) (repair_world w file dst tmp p ob cb)
    = (bs, repair_world w file dst tmp (p + length bs) ob cb)"
  using assms
  by (auto simp: libc_fread_def stdio_fetch_def stdio_store_def repair_world_def repair_paths_def intro!: stdio.equality ext)

lemma repair_fwrite:
  assumes "repair_paths w file dst tmp zb" "length ob + length bs \<le> w_limit w"
  shows "libc_fwrite bs (w_next w + 2) (repair_world w file dst tmp p ob cb)
    = (length bs, repair_world w file dst tmp p (ob @ bs) cb)"
  using assms
  by (auto simp: libc_fwrite_def stdio_fetch_def stdio_store_def repair_world_def repair_paths_def overwrite_end
    intro!: stdio.equality ext)

lemma repair_fwrite_cd:
  assumes "repair_paths w file dst tmp zb" "length cb + length bs \<le> w_limit w"
  shows "libc_fwrite bs (w_next w + 3) (repair_world w file dst tmp p ob cb)
    = (length bs, repair_world w file dst tmp p ob (cb @ bs))"
  using assms
  by (auto simp: libc_fwrite_def stdio_fetch_def stdio_store_def repair_world_def repair_paths_def overwrite_end
    intro!: stdio.equality ext)

lemma repair_copy_ok:
  assumes "repair_paths w file dst tmp zb" "drop p zb = bs @ rest" "length bs = n" "n \<le> room" "length ob + n \<le> w_limit w"
  shows "repair_copy room n (w_next w + 1) (w_next w + 2) r (repair_world w file dst tmp p ob cb)
    = Some (Z_OK, bs, r\<lparr>rp_offset := rp_offset r + of_nat n\<rparr>, repair_world w file dst tmp (p + n) (ob @ bs) cb)"
  using repair_fread [OF assms(1,2), of n ob cb] repair_fwrite [OF assms(1), of ob bs "p + n" cb] assms(3-5)
  by (simp add: repair_copy_def)

section \<open>One entry, copied\<close>

lemma sint_size:
  assumes "unat (c :: uInt) = n" "n < 2 ^ 31"
  shows "sint c = int n"
proof -
  have "int (unat c) = uint c" by simp
  then have "uint c = int n" using assms(1) by simp
  moreover have "signed_take_bit 31 (int n) = int n" using assms(2) by (intro signed_take_bit_int_eq_self) auto
  ultimately show ?thesis by (simp add: sint_uint)
qed

lemma repair_data_ok:
  assumes "repair_paths w file dst tmp zb" "drop p zb = bs @ rest" "unat c = length bs" "length bs < 2 ^ 31"
    "bs = [] \<Longrightarrow> u = 0" "length ob + length bs \<le> w_limit w" "malloc_total \<sigma>"
  shows "\<exists>\<sigma>'. repair_data c u (w_next w + 1) (w_next w + 2) r \<sigma> (repair_world w file dst tmp p ob cb)
    = Some (Z_OK, r\<lparr>rp_offset := rp_offset r + of_nat (length bs), rp_totalBytes := rp_totalBytes r + of_nat (length bs)\<rparr>,
        \<sigma>', repair_world w file dst tmp (p + length bs) (ob @ bs) cb) \<and> malloc_total \<sigma>'"
proof (cases "bs = []")
  case True
  then have "sint c = 0" "sint u = 0" using sint_size [OF assms(3,4)] assms(5) by simp_all
  then show ?thesis using True assms(7) by (simp add: repair_data_def)
next
  case False
  obtain \<sigma>' where m: "malloc (length bs) \<sigma> = (True, \<sigma>')" "malloc_total \<sigma>'"
    using malloc_total_malloc [OF assms(7)] by blast
  have "sint c = int (length bs)" by (rule sint_size [OF assms(3,4)])
  with False m repair_copy_ok [OF assms(1,2) refl order_refl assms(6), of r cb] show ?thesis
    by (simp add: repair_data_def)
qed

lemma repair_write_cd_ok:
  assumes "repair_paths w file dst tmp zb" "length h = 46" "name \<noteq> []"
    "length cb + length (h @ name @ extra) \<le> w_limit w"
  shows "repair_write_cd (w_next w + 3) h name extra r (repair_world w file dst tmp p ob cb)
    = (Z_OK, r\<lparr>rp_offsetCD := rp_offsetCD r + of_nat (length (h @ name @ extra))\<rparr>,
       repair_world w file dst tmp p ob (cb @ h @ name @ extra))"
proof -
  note fw = repair_fwrite_cd [OF assms(1), where p = p and ob = ob]
  have "libc_fwrite h (w_next w + 3) (repair_world w file dst tmp p ob cb) = (46, repair_world w file dst tmp p ob (cb @ h))"
    "libc_fwrite name (w_next w + 3) (repair_world w file dst tmp p ob (cb @ h))
      = (length name, repair_world w file dst tmp p ob ((cb @ h) @ name))"
    "libc_fwrite extra (w_next w + 3) (repair_world w file dst tmp p ob ((cb @ h) @ name))
      = (length extra, repair_world w file dst tmp p ob (((cb @ h) @ name) @ extra))"
    using fw [of cb h] fw [of "cb @ h" name] fw [of "(cb @ h) @ name" extra] assms by simp_all
  then show ?thesis using assms(2,3) by (cases "extra = []") (simp_all add: repair_write_cd_def add.assoc)
qed

text \<open>The counters after \<open>es\<close>, and the state of the repair: entries, data bytes and the lengths of both outputs.\<close>

definition data_total :: "zip_entry list \<Rightarrow> nat" where
  "data_total es = sum_list (map (length \<circ> ze_data) es)"

definition repair_state :: "zip_entry list \<Rightarrow> repair" where
  "repair_state es =
     \<lparr>rp_entries = int (length es), rp_totalBytes = of_nat (data_total es), rp_offset = of_nat (length (locals es)),
      rp_offsetCD = of_nat (length (central_dir 0 (map repaired es)))\<rparr>"

definition repair_step_world :: "stdio \<Rightarrow> path \<Rightarrow> path \<Rightarrow> path \<Rightarrow> zip_entry list \<Rightarrow> stdio" where
  "repair_step_world w file dst tmp es =
     repair_world w file dst tmp (length (locals es)) (locals es) (central_dir 0 (map repaired es))"

lemma repair_entry_ok:
  assumes paths: "repair_paths w file dst tmp zb" and e: "repairable e" and junk: "length junk = 46" and mt: "malloc_total \<sigma>"
    and zb: "zb = locals (es @ [e]) @ rest" and small: "length (locals es) < 2 ^ 32"
    and room: "length (locals (es @ [e])) \<le> w_limit w" "length (central_dir 0 (map repaired (es @ [e]))) \<le> w_limit w"
  shows "\<exists>\<sigma>'. repair_entry junk (w_next w + 1) (w_next w + 2) (w_next w + 3) (local_fields e) (repair_state es) \<sigma>
      (repair_world w file dst tmp (length (locals es) + 30) (locals es) (central_dir 0 (map repaired es)))
    = Some (Z_OK, repair_state (es @ [e]), \<sigma>', repair_step_world w file dst tmp (es @ [e])) \<and> malloc_total \<sigma>'"
proof -
  let ?name = "new_file_name (ze_file e)" and ?extra = "nf_extrafield_local (ze_file e)" and ?data = "ze_data e"
  let ?ob = "locals es" and ?cb = "central_dir 0 (map repaired es)" and ?f = "local_fields e"
  let ?h1 = "w_next w + 1" and ?h2 = "w_next w + 2" and ?h3 = "w_next w + 3"
  let ?rw = "repair_world w file dst tmp"
  note rd = READ_local_fields [OF e]
  note e' = e [unfolded repairable_def]
  have n: "\<not> length ?name = 0" "length ?name \<le> 256" "length ?extra \<le> 1024" using e' by auto
  define p0 p1 p2 p3 where p: "p0 = length ?ob + 30" "p1 = p0 + length ?name" "p2 = p1 + length ?extra" "p3 = p2 + length ?data"
  define ob0 ob1 ob2 ob3 where ob: "ob0 = ?ob @ ?f" "ob1 = ob0 @ ?name" "ob2 = ob1 @ ?extra" "ob3 = ob2 @ ?data"
  define r0 r1 r2 r3 where r: "r0 = (repair_state es)\<lparr>rp_offset := rp_offset (repair_state es) + 30\<rparr>"
    "r1 = r0\<lparr>rp_offset := rp_offset r0 + of_nat (length ?name)\<rparr>" "r2 = r1\<lparr>rp_offset := rp_offset r1 + of_nat (length ?extra)\<rparr>"
    "r3 = r2\<lparr>rp_offset := rp_offset r2 + of_nat (length ?data), rp_totalBytes := rp_totalBytes r2 + of_nat (length ?data)\<rparr>"
  have z: "drop p0 zb = ?name @ ?extra @ ?data @ rest" "drop p1 zb = ?extra @ ?data @ rest" "drop p2 zb = ?data @ rest"
    by (simp_all add: zb entry_local_fields p)
  have len: "length (locals (es @ [e])) = length ?ob + 30 + length ?name + length ?extra + length ?data"
    by (simp add: entry_local_fields)
  have fw: "libc_fwrite ?f ?h2 (?rw p0 ?ob ?cb) = (30, ?rw p0 ob0 ?cb)"
    using repair_fwrite [OF paths, of ?ob ?f p0 ?cb] len room(1) by (simp add: ob(1))
  have c1: "repair_copy 256 (length ?name) ?h1 ?h2 r0 (?rw p0 ob0 ?cb) = Some (Z_OK, ?name, r1, ?rw p1 ob1 ?cb)"
    unfolding r(2) ob(2) p(2) by (rule repair_copy_ok [OF paths z(1) refl n(2)]) (use len room(1) ob(1) in simp)
  have c2: "(if length ?extra > 0 then repair_copy 1024 (length ?extra) ?h1 ?h2 r1 (?rw p1 ob1 ?cb)
        else Some (Z_OK, [], r1, ?rw p1 ob1 ?cb)) = Some (Z_OK, ?extra, r2, ?rw p2 ob2 ?cb)"
    using repair_copy_ok [OF paths z(2) refl n(3), of ob1 r1 ?cb] len room(1) by (simp add: r(3) ob p(3))
  obtain \<sigma>' where c3: "repair_data (READ_32 ?f 18) (READ_32 ?f 22) ?h1 ?h2 r2 \<sigma> (?rw p2 ob2 ?cb)
      = Some (Z_OK, r3, \<sigma>', ?rw p3 ob3 ?cb)" "malloc_total \<sigma>'"
    using repair_data_ok [OF paths z(3) rd(4) _ rd(5) _ mt, of ob2 r2 ?cb] e' len room(1) by (auto simp: ob r(4) p(4))
  let ?cd = "repair_central junk ?f (rp_offset (repair_state es))"
  have cd: "?cd @ ?name @ ?extra = entry_central (of_nat (length ?ob)) (repaired e)"
    using repair_central_entry [OF junk small] by (simp add: repair_state_def)
  have cd2: "central_dir 0 (map repaired (es @ [e])) = ?cb @ ?cd @ ?name @ ?extra"
    by (simp add: central_dir_append cd)
  have "length ?cd = 46" by (simp add: repair_central_eq junk)
  then have c4: "repair_write_cd ?h3 ?cd ?name ?extra r3 (?rw p3 ob3 ?cb)
      = (Z_OK, r3\<lparr>rp_offsetCD := rp_offsetCD r3 + of_nat (length (?cd @ ?name @ ?extra))\<rparr>,
         ?rw p3 ob3 (?cb @ ?cd @ ?name @ ?extra))"
    by (intro repair_write_cd_ok [OF paths]) (use n room(2) cd2 in auto)
  have r': "repair_state (es @ [e]) = r3\<lparr>rp_offsetCD := rp_offsetCD r3 + of_nat (length (?cd @ ?name @ ?extra)),
      rp_entries := rp_entries r3 + 1\<rparr>"
    using len cd2 by (simp add: repair_state_def data_total_def r algebra_simps)
  have w: "repair_step_world w file dst tmp (es @ [e]) = ?rw p3 ob3 (?cb @ ?cd @ ?name @ ?extra)"
  proof -
    have "p3 = length (locals (es @ [e]))" using len by (simp add: p)
    moreover have "ob3 = locals (es @ [e])" by (simp add: entry_local_fields ob)
    ultimately show ?thesis using cd2 by (simp only: repair_step_world_def)
  qed
  have ifs: "(30 :: nat) \<noteq> 30 \<longleftrightarrow> False" "length ?name = 0 \<longleftrightarrow> False" using n(1) by simp_all
  show ?thesis
    unfolding repair_entry_def Let_def rd(2,3) p(1) [symmetric] fw prod.case r(1) [symmetric] r' w ifs if_False
    using c3(2) by (simp only: c1 c2 c3(1) c4 Option.bind_lunit prod.case simp_thms if_False if_True) simp
qed

section \<open>The loop\<close>

lemma repair_loop_ok:
  assumes paths: "repair_paths w file dst tmp zb" and junk: "length junk = 46"
    and stop: "length rest < 30 \<or> take 4 rest \<noteq> putValue_buf 0x04034b50 4"
  shows "\<lbrakk>\<forall>e \<in> set fs. repairable e; malloc_total \<sigma>; zb = locals (es @ fs) @ rest; length (locals (es @ fs)) < 2 ^ 32;
      length (locals (es @ fs)) \<le> w_limit w; length (central_dir 0 (map repaired (es @ fs))) \<le> w_limit w\<rbrakk>
    \<Longrightarrow> \<exists>\<sigma>' q. repair_loop junk (w_next w + 1) (w_next w + 2) (w_next w + 3) (repair_state es) \<sigma>
          (repair_step_world w file dst tmp es)
        = Some (Z_OK, repair_state (es @ fs), \<sigma>',
            repair_world w file dst tmp q (locals (es @ fs)) (central_dir 0 (map repaired (es @ fs))))
      \<and> malloc_total \<sigma>'"
proof (induction fs arbitrary: es \<sigma>)
  case Nil
  let ?h = "take 30 rest"
  have "libc_fread 30 (w_next w + 1) (repair_step_world w file dst tmp es)
      = (?h, repair_world w file dst tmp (length (locals es) + length ?h) (locals es) (central_dir 0 (map repaired es)))"
    unfolding repair_step_world_def
    by (rule repair_fread [OF paths, where rest = "drop 30 rest"]) (use Nil.prems(3) in \<open>auto simp: min_def\<close>)
  moreover have "\<not> (length ?h = 30 \<and> READ_32 ?h 0 = 0x04034b50)"
  proof
    assume a: "length ?h = 30 \<and> READ_32 ?h 0 = 0x04034b50"
    then have "take 4 ?h = bytes_32 0x04034b50" using bytes_32_READ_32 [of 0 ?h] by simp
    then show False using stop a by (simp add: bytes_32_putValue min_def)
  qed
  ultimately show ?case using Nil.prems(2) by (subst repair_loop.simps) auto
next
  case (Cons e fs)
  have zb: "zb = locals (es @ [e]) @ locals fs @ rest" using Cons.prems(3) by simp
  have "drop (length (locals es)) zb = local_fields e @ drop 30 (entry_local e) @ locals fs @ rest"
    by (simp add: zb local_fields_def)
  then have rd: "libc_fread 30 (w_next w + 1) (repair_step_world w file dst tmp es)
      = (local_fields e, repair_world w file dst tmp (length (locals es) + 30) (locals es) (central_dir 0 (map repaired es)))"
    unfolding repair_step_world_def using repair_fread [OF paths, where n = 30] by fastforce
  have re: "repairable e" using Cons.prems(1) by simp
  obtain \<sigma>1 where 1: "repair_entry junk (w_next w + 1) (w_next w + 2) (w_next w + 3) (local_fields e) (repair_state es) \<sigma>
      (repair_world w file dst tmp (length (locals es) + 30) (locals es) (central_dir 0 (map repaired es)))
    = Some (Z_OK, repair_state (es @ [e]), \<sigma>1, repair_step_world w file dst tmp (es @ [e]))" "malloc_total \<sigma>1"
    using repair_entry_ok [OF paths re junk Cons.prems(2) zb] Cons.prems(4-6) by (auto simp: central_dir_append)
  from Cons.IH [OF _ 1(2), of "es @ [e]"] Cons.prems(1,3-6) obtain \<sigma>' q where
    2: "repair_loop junk (w_next w + 1) (w_next w + 2) (w_next w + 3) (repair_state (es @ [e])) \<sigma>1
          (repair_step_world w file dst tmp (es @ [e]))
        = Some (Z_OK, repair_state (es @ e # fs), \<sigma>',
            repair_world w file dst tmp q (locals (es @ e # fs)) (central_dir 0 (map repaired (es @ e # fs))))"
    "malloc_total \<sigma>'" by auto
  have "repair_loop junk (w_next w + 1) (w_next w + 2) (w_next w + 3) (repair_state es) \<sigma>
          (repair_step_world w file dst tmp es)
      = repair_loop junk (w_next w + 1) (w_next w + 2) (w_next w + 3) (repair_state (es @ [e])) \<sigma>1
          (repair_step_world w file dst tmp (es @ [e]))"
    by (subst repair_loop.simps) (simp only: rd Let_def prod.case length_local_fields READ_local_fields(1) [OF re] 1(1)
        Option.bind_lunit simp_thms if_True if_False)
  then show ?case using 2 by auto
qed

section \<open>Appending the directory\<close>

definition merge_world ::
    "stdio \<Rightarrow> path \<Rightarrow> path \<Rightarrow> path \<Rightarrow> nat \<Rightarrow> byte list \<Rightarrow> byte list \<Rightarrow> nat \<Rightarrow> stdio" where
  "merge_world w file dst tmp p ob cb q =
     (let w = repair_world w file dst tmp p ob cb
      in w\<lparr>w_streams := (w_streams w)(w_next w := None,
             w_next w + 1 \<mapsto> \<lparr>f_path = tmp, f_pos = q, f_rd = True, f_wr = False, f_err = False\<rparr>), w_next := w_next w + 1\<rparr>)"

lemma merge_fread:
  assumes "repair_paths w file dst tmp zb"
  shows "libc_fread n (w_next w + 4) (merge_world w file dst tmp p ob cb q)
    = (take n (drop q cb), merge_world w file dst tmp p ob cb (q + min n (length cb - q)))"
  using assms
  by (auto simp: libc_fread_def stdio_fetch_def stdio_store_def merge_world_def repair_world_def repair_paths_def Let_def min.commute
    intro!: stdio.equality ext)

lemma merge_fwrite:
  assumes "repair_paths w file dst tmp zb" "length ob + length bs \<le> w_limit w"
  shows "libc_fwrite bs (w_next w + 2) (merge_world w file dst tmp p ob cb q)
    = (length bs, merge_world w file dst tmp p (ob @ bs) cb q)"
  using assms
  by (auto simp: libc_fwrite_def stdio_fetch_def stdio_store_def merge_world_def repair_world_def repair_paths_def
    overwrite_end Let_def intro!: stdio.equality ext)

lemma repair_merge_ok:
  assumes paths: "repair_paths w file dst tmp zb"
  shows "length ob + (length cb - q) \<le> w_limit w \<Longrightarrow>
    \<exists>q'. repair_merge (w_next w + 4) (w_next w + 2) (merge_world w file dst tmp p ob cb q)
      = Some (Z_OK, merge_world w file dst tmp p (ob @ drop q cb) cb q')"
proof (induction "length cb - q" arbitrary: ob q rule: less_induct)
  case less
  let ?bs = "take 8192 (drop q cb)"
  show ?case
  proof (cases "?bs = []")
    case True
    then have "drop q cb = []" by (metis take_eq_Nil zero_neq_numeral)
    then show ?thesis
      by (subst repair_merge.simps) (auto simp: merge_fread [OF paths])
  next
    case False
    let ?q = "q + min 8192 (length cb - q)"
    have "length ob + length ?bs \<le> w_limit w" using less.prems by simp
    then have fw: "libc_fwrite ?bs (w_next w + 2) (merge_world w file dst tmp p ob cb ?q)
        = (length ?bs, merge_world w file dst tmp p (ob @ ?bs) cb ?q)"
      by (rule merge_fwrite [OF paths])
    have step: "repair_merge (w_next w + 4) (w_next w + 2) (merge_world w file dst tmp p ob cb q)
        = repair_merge (w_next w + 4) (w_next w + 2) (merge_world w file dst tmp p (ob @ ?bs) cb ?q)"
      by (subst repair_merge.simps) (simp only: merge_fread [OF paths] Let_def prod.case fw False if_False simp_thms)
    have "\<exists>q'. repair_merge (w_next w + 4) (w_next w + 2) (merge_world w file dst tmp p (ob @ ?bs) cb ?q)
        = Some (Z_OK, merge_world w file dst tmp p ((ob @ ?bs) @ drop ?q cb) cb q')"
      by (rule less.hyps) (use less.prems False in auto)
    moreover have "?bs @ drop ?q cb = drop q cb"
    proof (cases "8192 \<le> length cb - q")
      case True
      then have "drop ?q cb = drop 8192 (drop q cb)" by (simp add: add.commute)
      then show ?thesis by (simp only: append_take_drop_id)
    qed simp
    ultimately show ?thesis unfolding step by (simp only: append.assoc)
  qed
qed

section \<open>The repair\<close>

lemma repair_end_bytes:
  assumes "length junk = 46" "length (locals es) < 2 ^ 32" "length (central_dir 0 (map repaired es)) < 2 ^ 32"
  shows "repair_end junk (repair_state es)
    = end_of_central_dir (of_nat (length es)) (of_nat (length (central_dir 0 (map repaired es)))) (of_nat (length (locals es))) []"
proof -
  have le: "length es \<le> length (locals es)"
  proof (induction es)
    case (Cons e es)
    have "30 \<le> length (entry_local e)" by (simp add: entry_local_fields)
    with Cons show ?case by simp
  qed simp
  have o: "bytes_32 (of_nat n) = putValue_buf (of_nat n) 4" if "n < 2 ^ 32" for n
    using that by (simp add: bytes_32_putValue unsigned_of_nat take_bit_nat_eq_self)
  have n: "bytes_16 (of_int (min 0xffff (int (length es)))) = putValue_buf (of_nat (length es)) 2"
  proof (cases "length es < 65536")
    case True
    then have "unat (of_nat (length es) :: uInt) = length es" by (intro unat_of_nat_small) simp
    moreover have "min 0xffff (int (length es)) = int (length es)" using True by simp
    ultimately show ?thesis using True by (simp add: bytes_16_putValue unsigned_of_nat take_bit_nat_eq_self)
  next
    case False
    have "unat (of_nat (length es) :: 64 word) = length es"
      using le assms(2) by (intro unat_of_nat_small) simp
    with False have "putValue_buf (of_nat (length es)) 2 = replicate 2 0xff" by (simp add: putValue_buf_eq)
    moreover have "min 0xffff (int (length es)) = 0xffff" using False by simp
    moreover have "bytes_16 0xffff = replicate 2 0xff" by code_simp
    ultimately show ?thesis by simp
  qed
  have z: "bytes_16 0 = putValue_buf 0 2" "bytes_32 0x06054b50 = putValue_buf 0x06054b50 4"
    by (simp add: bytes_16_def putValue_buf_eq numeral_2_eq_2, simp add: bytes_32_putValue)
  show ?thesis
    unfolding repair_end_eq [OF assms(1)] by (simp add: repair_state_def Let_def n o [OF assms(2)] o [OF assms(3)] z end_of_central_dir_def)
qed

lemma merge_open:
  assumes "repair_paths w file dst tmp zb"
  shows "(let (_, w) = libc_fclose (w_next w + 3) (repair_world w file dst tmp p ob cb) in libc_fopen tmp ''rb'' w)
    = (w_next w + 4, merge_world w file dst tmp p ob cb 0)"
  using assms
  by (auto simp: libc_fclose_def libc_fopen_def repair_paths_def repair_world_def merge_world_def Let_def numeral_2_eq_2
    numeral_3_eq_3)

lemma fclose_files: "w_files (snd (libc_fclose h w)) = w_files w"
  by (simp add: libc_fclose_def split: option.split)

lemma unzRepair_ok:
  assumes paths: "repair_paths w file dst tmp zb" and zb: "zb = locals es @ rest"
    and stop: "length rest < 30 \<or> take 4 rest \<noteq> putValue_buf 0x04034b50 4"
    and es: "\<forall>e \<in> set es. repairable e" and junk: "length junk = 46" and mt: "malloc_total \<sigma>"
    and A: "A = archive_bytes (map repaired es) []" "length A < 2 ^ 32" "length A \<le> w_limit w"
  shows "\<exists>\<sigma>' w'. unzRepair junk file dst tmp \<sigma> w
      = Some (Z_OK, Some (of_nat (length es), of_nat (data_total es)), \<sigma>', w')
    \<and> w_files w' = (w_files w)(dst \<mapsto> A, tmp := None)"
proof -
  let ?h1 = "w_next w + 1" and ?h2 = "w_next w + 2" and ?h3 = "w_next w + 3" and ?h4 = "w_next w + 4"
  let ?rw = "repair_world w file dst tmp" and ?mw = "merge_world w file dst tmp"
  let ?ob = "locals es" and ?cb = "central_dir 0 (map repaired es)" and ?e = "repair_end junk (repair_state es)"
  obtain w1 w2 where o: "libc_fopen file ''rb'' w = (?h1, w1)" "libc_fopen dst ''wb'' w1 = (?h2, w2)"
    "libc_fopen tmp ''wb'' w2 = (?h3, ?rw 0 [] [])"
    using repair_open [OF paths] by (auto simp: Let_def split: prod.splits)
  have e: "?e = end_of_central_dir (of_nat (length es)) (of_nat (length ?cb)) (of_nat (length ?ob)) []"
    by (rule repair_end_bytes [OF junk]) (use A in \<open>simp_all add: archive_bytes_def\<close>)
  have A': "A = ?ob @ ?cb @ ?e" by (simp add: A(1) archive_bytes_def e)
  have "length ?e = 22" by (simp add: e)
  obtain \<sigma>' p where 1: "repair_loop junk ?h1 ?h2 ?h3 (repair_state []) \<sigma> (repair_step_world w file dst tmp [])
      = Some (Z_OK, repair_state es, \<sigma>', ?rw p ?ob ?cb)"
    using repair_loop_ok [OF paths junk stop es mt, of "[]"] zb A(2,3) A' by auto
  have init: "repair_state [] = \<lparr>rp_entries = 0, rp_totalBytes = 0, rp_offset = 0, rp_offsetCD = 0\<rparr>"
    "repair_step_world w file dst tmp [] = ?rw 0 [] []"
    by (simp_all add: repair_state_def data_total_def repair_step_world_def)
  have 2: "libc_fwrite ?e ?h3 (?rw p ?ob ?cb) = (22, ?rw p ?ob (?cb @ ?e))"
    using repair_fwrite_cd [OF paths, of ?cb ?e p ?ob] A(3) A' \<open>length ?e = 22\<close> by simp
  obtain c w3 where 3: "libc_fclose ?h3 (?rw p ?ob (?cb @ ?e)) = (c, w3)" "libc_fopen tmp ''rb'' w3 = (?h4, ?mw p ?ob (?cb @ ?e) 0)"
    using merge_open [OF paths, of p ?ob "?cb @ ?e"] by (auto simp: Let_def split: prod.splits)
  obtain q where 4: "repair_merge ?h4 ?h2 (?mw p ?ob (?cb @ ?e) 0) = Some (Z_OK, ?mw p A (?cb @ ?e) q)"
    using repair_merge_ok [OF paths, of ?ob "?cb @ ?e" 0 p] A(3) A' by auto
  obtain c1 c2 c3 w4 w5 w6 where 5: "libc_fclose ?h4 (?mw p A (?cb @ ?e) q) = (c1, w4)" "libc_fclose ?h1 w4 = (c2, w5)"
    "libc_fclose ?h2 w5 = (c3, w6)" by fastforce
  have "w_files w6 = w_files (?mw p A (?cb @ ?e) q)"
    using fclose_files [of ?h4 "?mw p A (?cb @ ?e) q"] fclose_files [of ?h1 w4] fclose_files [of ?h2 w5] 5 by simp
  then have f: "w_files (libc_remove tmp w6) = (w_files w)(dst \<mapsto> A, tmp := None)"
    using paths by (auto simp: libc_remove_def merge_world_def repair_world_def Let_def)
  have nz: "(?h1 = NULL) = False" "(?h2 = NULL) = False" "(?h3 = NULL) = False" "(?h4 = NULL) = False" by (simp_all add: NULL_def)
  have ok: "((22 :: nat) \<noteq> 22) = False" "(Z_OK = Z_OK) = True" by simp_all
  have "unzRepair junk file dst tmp \<sigma> w
      = Some (Z_OK, Some (of_int (rp_entries (repair_state es)), rp_totalBytes (repair_state es)), \<sigma>', libc_remove tmp w6)"
    unfolding unzRepair_def Let_def o prod.case nz simp_thms if_False init(1) [symmetric] init(2) [symmetric] 1 Option.bind_lunit 2 ok
      3 if_True 4 5 ..
  with f show ?thesis by (auto simp: repair_state_def)
qed

end
