(* ===== verification/UnzState.thy ===== *)
theory UnzState
  imports Search Zlib
begin

text \<open>
  The structures of \<open>unzip.h\<close> and \<open>unzip.c\<close> for an archive being read, the
  comparison of file names, DOS dates and the searches for the end records.
\<close>

definition UNZ_BUFSIZE :: nat where [simp]: "UNZ_BUFSIZE = 16384"
definition UNZ_MAXFILENAMEINZIP :: nat where [simp]: "UNZ_MAXFILENAMEINZIP = 256"
definition SIZECENTRALDIRITEM :: ZPOS64_T where [simp]: "SIZECENTRALDIRITEM = 0x2e"
definition SIZEZIPLOCALHEADER :: ZPOS64_T where [simp]: "SIZEZIPLOCALHEADER = 0x1e"

section \<open>State\<close>

record tm_unz =
  tmu_sec :: uInt
  tmu_min :: uInt
  tmu_hour :: uInt
  tmu_mday :: uInt
  tmu_mon :: uInt
  tmu_year :: uInt

record unz_global_info64 =
  gi_number_entry :: ZPOS64_T
  gi_size_comment :: uLong

record unz_global_info =
  gi32_number_entry :: uLong
  gi32_size_comment :: uLong

record unz_file_info64 =
  fi_version :: uLong
  fi_version_needed :: uLong
  fi_flag :: uLong
  fi_compression_method :: uLong
  fi_dosDate :: uLong
  fi_crc :: uLong
  fi_compressed_size :: ZPOS64_T
  fi_uncompressed_size :: ZPOS64_T
  fi_size_filename :: uLong
  fi_size_file_extra :: uLong
  fi_size_file_comment :: uLong
  fi_disk_num_start :: uLong
  fi_internal_fa :: uLong
  fi_external_fa :: uLong
  fi_tmu_date :: tm_unz

record unz_file_info =
  fi32_version :: uLong
  fi32_version_needed :: uLong
  fi32_flag :: uLong
  fi32_compression_method :: uLong
  fi32_dosDate :: uLong
  fi32_crc :: uLong
  fi32_compressed_size :: uLong
  fi32_uncompressed_size :: uLong
  fi32_size_filename :: uLong
  fi32_size_file_extra :: uLong
  fi32_size_file_comment :: uLong
  fi32_disk_num_start :: uLong
  fi32_internal_fa :: uLong
  fi32_external_fa :: uLong
  fi32_tmu_date :: tm_unz

record unz_file_info64_internal =
  offset_curfile :: ZPOS64_T

record unz64_file_pos =
  pos_in_zip_directory :: ZPOS64_T
  num_of_file :: ZPOS64_T

record unz_file_pos =
  pos_in_zip_directory32 :: uLong
  num_of_file32 :: uLong

text \<open>
  The entry being read. The unread part of \<open>read_buffer\<close> is \<open>next_in\<close> of the stream;
  \<open>pr_read_buffer\<close> tells whether the buffer is allocated.
\<close>

record ('w, 'z) file_in_zip64_read_info_s =
  pr_read_buffer :: bool
  pr_stream :: "'z z_stream"
  pr_pos_in_zipfile :: ZPOS64_T
  pr_stream_initialised :: uLong
  pr_offset_local_extrafield :: ZPOS64_T
  pr_size_local_extrafield :: uInt
  pr_pos_local_extrafield :: ZPOS64_T
  pr_total_out_64 :: ZPOS64_T
  pr_crc32 :: uLong
  pr_crc32_wait :: uLong
  pr_rest_read_compressed :: ZPOS64_T
  pr_rest_read_uncompressed :: ZPOS64_T
  pr_filefunc :: "'w zlib_filefunc64_32_def"
  pr_filestream :: voidpf
  pr_compression_method :: uLong
  pr_byte_before_the_zipfile :: ZPOS64_T
  pr_raw :: int

text \<open>
  The archive. \<open>current_file_ok\<close> is only ever assigned a truth value. With
  \<open>NOUNCRYPT\<close>, which \<open>unzip.c\<close> defines, the structure has no keys.
\<close>

record ('w, 'z) unz64_s =
  us_filefunc :: "'w zlib_filefunc64_32_def"
  us_is64bitOpenFunction :: int
  us_filestream :: voidpf
  us_gi :: unz_global_info64
  us_byte_before_the_zipfile :: ZPOS64_T
  us_num_file :: ZPOS64_T
  us_pos_in_central_dir :: ZPOS64_T
  us_current_file_ok :: bool
  us_central_pos :: ZPOS64_T
  us_size_central_dir :: ZPOS64_T
  us_offset_central_dir :: ZPOS64_T
  us_cur_file_info :: unz_file_info64
  us_cur_file_info_internal :: unz_file_info64_internal
  us_pfile_in_zip_read :: "('w, 'z) file_in_zip64_read_info_s option"
  us_encrypted :: int
  us_isZip64 :: int

section \<open>Comparing file names\<close>

text \<open>A \<open>char\<close> is signed, and its comparison too.\<close>

definition upcase_char :: "byte \<Rightarrow> byte" where
  "upcase_char c = (if 0x61 \<le> sint c \<and> sint c \<le> 0x7a then c - 0x20 else c)"

fun strcmpcasenosensitive_internal :: "byte list \<Rightarrow> byte list \<Rightarrow> int" where
  "strcmpcasenosensitive_internal [] [] = 0"
| "strcmpcasenosensitive_internal [] (c2 # fileName2) = -1"
| "strcmpcasenosensitive_internal (c1 # fileName1) [] = 1"
| "strcmpcasenosensitive_internal (c1 # fileName1) (c2 # fileName2) =
     (let c1 = upcase_char c1; c2 = upcase_char c2
      in if sint c1 < sint c2 then -1 else if sint c1 > sint c2 then 1
         else strcmpcasenosensitive_internal fileName1 fileName2)"

text \<open>\<open>strcmp\<close> of the C library compares unsigned bytes.\<close>

fun libc_strcmp :: "byte list \<Rightarrow> byte list \<Rightarrow> int" where
  "libc_strcmp [] [] = 0"
| "libc_strcmp [] (b # bs) = -1"
| "libc_strcmp (a # as) [] = 1"
| "libc_strcmp (a # as) (b # bs) = (if a < b then -1 else if b < a then 1 else libc_strcmp as bs)"

text \<open>\<open>unix\<close> is predefined by the compiler, so that the default is case-sensitive.\<close>

definition CASESENSITIVITYDEFAULTVALUE :: int where [simp]: "CASESENSITIVITYDEFAULTVALUE = 1"

definition unzStringFileNameCompare :: "byte list \<Rightarrow> byte list \<Rightarrow> int \<Rightarrow> int" where
  "unzStringFileNameCompare fileName1 fileName2 iCaseSensitivity =
     (let iCaseSensitivity = (if iCaseSensitivity = 0 then CASESENSITIVITYDEFAULTVALUE else iCaseSensitivity)
      in if iCaseSensitivity = 1 then libc_strcmp fileName1 fileName2
         else strcmpcasenosensitive_internal fileName1 fileName2)"

section \<open>DOS dates\<close>

definition unz64local_DosDateToTmuDate :: "ZPOS64_T \<Rightarrow> tm_unz" where
  "unz64local_DosDateToTmuDate ulDosDate =
     (let uDate = drop_bit 16 ulDosDate in
      \<lparr>tmu_sec = ucast (2 * (ulDosDate AND 0x1f)),
       tmu_min = ucast ((ulDosDate AND 0x7E0) div 0x20),
       tmu_hour = ucast ((ulDosDate AND 0xF800) div 0x800),
       tmu_mday = ucast (uDate AND 0x1f),
       tmu_mon = ucast ((uDate AND 0x1E0) div 0x20 - 1),
       tmu_year = ucast ((uDate AND 0x0FE00) div 0x0200 + 1980)\<rparr>)"

section \<open>Finding the end records\<close>

definition unz64local_SearchCentralDir ::
    "'w zlib_filefunc64_32_def \<Rightarrow> voidpf \<Rightarrow> sys \<Rightarrow> 'w \<Rightarrow> ZPOS64_T \<times> sys \<times> 'w" where
  "unz64local_SearchCentralDir ff fs \<sigma> w =
     (let (p, \<sigma>, w) = search_signature ff fs sig_end_of_central_dir \<sigma> w in (of_nat p, \<sigma>, w))"

definition unz64_follow_locator ::
    "'w zlib_filefunc64_32_def \<Rightarrow> voidpf \<Rightarrow> ZPOS64_T \<Rightarrow> 'w \<Rightarrow> ZPOS64_T \<times> 'w" where
  "unz64_follow_locator ff fs uPosFound w =
     (let (r, w) = ZSEEK64 ff fs uPosFound ZLIB_FILEFUNC_SEEK_SET w in
      if r \<noteq> 0 then (0, w) else
      let (e, uL, w) = unz64local_getLong ff fs w in
      if e \<noteq> UNZ_OK then (0, w) else
      let (e, uL, w) = unz64local_getLong ff fs w in
      if e \<noteq> UNZ_OK \<or> uL \<noteq> 0 then (0, w) else
      let (e, relativeOffset, w) = unz64local_getLong64 ff fs w in
      if e \<noteq> UNZ_OK then (0, w) else
      let (e, uL, w) = unz64local_getLong ff fs w in
      if e \<noteq> UNZ_OK \<or> uL \<noteq> 1 then (0, w) else
      let (r, w) = ZSEEK64 ff fs relativeOffset ZLIB_FILEFUNC_SEEK_SET w in
      if r \<noteq> 0 then (0, w) else
      let (e, uL, w) = unz64local_getLong ff fs w in
      if e \<noteq> UNZ_OK \<or> uL \<noteq> 0x06064b50 then (0, w) else (relativeOffset, w))"

definition unz64local_SearchCentralDir64 ::
    "'w zlib_filefunc64_32_def \<Rightarrow> voidpf \<Rightarrow> sys \<Rightarrow> 'w \<Rightarrow> ZPOS64_T \<times> sys \<times> 'w" where
  "unz64local_SearchCentralDir64 ff fs \<sigma> w =
     (let (p, \<sigma>, w) = search_signature ff fs sig_zip64_locator \<sigma> w in
      if p = 0 then (0, \<sigma>, w)
      else (let (r, w) = unz64_follow_locator ff fs (of_nat p) w in (r, \<sigma>, w)))"

end
