(* ===== verification/UnzInfo.thy ===== *)
theory UnzInfo
  imports UnzState
begin

text \<open>
  Reading an entry of the central directory (\<open>unz64local_GetCurrentFileInfoInternal\<close>)
  and moving between entries: first, next, by name, by saved position, by offset.
\<close>

section \<open>One entry of the central directory\<close>

text \<open>Lines 898-975: the position, the signature and the fields of fixed size.\<close>

definition info_magic ::
    "('w, 'z) unz64_s \<Rightarrow> 'w \<Rightarrow> int \<times> 'w" where
  "info_magic s w =
     (let (r, w) = ZSEEK64 (us_filefunc s) (us_filestream s)
            (us_pos_in_central_dir s + us_byte_before_the_zipfile s) ZLIB_FILEFUNC_SEEK_SET w
      in if r \<noteq> 0 then (UNZ_ERRNO, w)
         else
           (let (e, uMagic, w) = unz64local_getLong (us_filefunc s) (us_filestream s) w
            in (if e \<noteq> UNZ_OK then UNZ_ERRNO else if uMagic \<noteq> 0x02014b50 then UNZ_BADZIPFILE else UNZ_OK, w)))"

definition info_fixed ::
    "('w, 'z) unz64_s \<Rightarrow> 'w \<Rightarrow> int \<times> unz_file_info64 \<times> unz_file_info64_internal \<times> 'w" where
  "info_fixed s w =
     (let ff = us_filefunc s; fs = us_filestream s;
          (err, w) = info_magic s w;
          (e, version, w) = unz64local_getShort ff fs w; err = note_err e err;
          (e, version_needed, w) = unz64local_getShort ff fs w; err = note_err e err;
          (e, flag, w) = unz64local_getShort ff fs w; err = note_err e err;
          (e, compression_method, w) = unz64local_getShort ff fs w; err = note_err e err;
          (e, dosDate, w) = unz64local_getLong ff fs w; err = note_err e err;
          tmu_date = unz64local_DosDateToTmuDate dosDate;
          (e, crc, w) = unz64local_getLong ff fs w; err = note_err e err;
          (e, compressed_size, w) = unz64local_getLong ff fs w; err = note_err e err;
          (e, uncompressed_size, w) = unz64local_getLong ff fs w; err = note_err e err;
          (e, size_filename, w) = unz64local_getShort ff fs w; err = note_err e err;
          (e, size_file_extra, w) = unz64local_getShort ff fs w; err = note_err e err;
          (e, size_file_comment, w) = unz64local_getShort ff fs w; err = note_err e err;
          (e, disk_num_start, w) = unz64local_getShort ff fs w; err = note_err e err;
          (e, internal_fa, w) = unz64local_getShort ff fs w; err = note_err e err;
          (e, external_fa, w) = unz64local_getLong ff fs w; err = note_err e err;
          (e, offset, w) = unz64local_getLong ff fs w; err = note_err e err
      in (err,
          \<lparr>fi_version = version, fi_version_needed = version_needed, fi_flag = flag,
           fi_compression_method = compression_method, fi_dosDate = dosDate, fi_crc = crc,
           fi_compressed_size = compressed_size, fi_uncompressed_size = uncompressed_size,
           fi_size_filename = size_filename, fi_size_file_extra = size_file_extra,
           fi_size_file_comment = size_file_comment, fi_disk_num_start = disk_num_start,
           fi_internal_fa = internal_fa, fi_external_fa = external_fa, fi_tmu_date = tmu_date\<rparr>,
          \<lparr>offset_curfile = offset\<rparr>, w))"

text \<open>
  A caller's buffer is the list of its bytes, \<open>None\<close> for NULL; its size is the length of
  the list. \<open>info_read\<close> is \<open>if (ZREAD64(buf, n) != n) err = UNZ_ERRNO\<close>, and
  \<open>info_seek\<close> the pending relative seek by \<open>lSeek\<close>, a \<open>long\<close> kept as 64 bits.
\<close>

definition info_read ::
    "('w, 'z) unz64_s \<Rightarrow> uLong \<Rightarrow> byte list \<Rightarrow> int \<Rightarrow> 'w \<Rightarrow> int \<times> byte list \<times> 'w" where
  "info_read s n buf err w =
     (let (bs, w) = ZREAD64 (us_filefunc s) (us_filestream s) n w
      in (if length bs \<noteq> unat n then UNZ_ERRNO else err, mem_write 0 bs buf, w))"

definition info_seek ::
    "('w, 'z) unz64_s \<Rightarrow> uLong \<Rightarrow> int \<Rightarrow> 'w \<Rightarrow> int \<times> uLong \<times> 'w" where
  "info_seek s lSeek err w =
     (if lSeek \<noteq> 0 then
        (let (r, w) = ZSEEK64 (us_filefunc s) (us_filestream s) lSeek ZLIB_FILEFUNC_SEEK_CUR w
         in if r = 0 then (err, 0, w) else (UNZ_ERRNO, lSeek, w))
      else (err, lSeek, w))"

text \<open>Lines 977-993: the file name.\<close>

definition info_filename ::
    "('w, 'z) unz64_s \<Rightarrow> unz_file_info64 \<Rightarrow> byte list option \<Rightarrow> int \<Rightarrow> 'w
     \<Rightarrow> int \<times> uLong \<times> byte list option \<times> 'w" where
  "info_filename s fi szFileName err w =
     (let lSeek = fi_size_filename fi in
      case szFileName of
        None \<Rightarrow> (err, lSeek, None, w)
      | Some buf \<Rightarrow>
          if err \<noteq> UNZ_OK then (err, lSeek, Some buf, w)
          else
            (let fileNameBufferSize = of_nat (length buf);
                 (buf, uSizeRead) =
                   (if fi_size_filename fi < fileNameBufferSize
                    then (buf[unat (fi_size_filename fi) := 0], fi_size_filename fi)
                    else (buf, fileNameBufferSize));
                 (err, buf, w) = (if fi_size_filename fi > 0 \<and> fileNameBufferSize > 0
                                  then info_read s uSizeRead buf err w else (err, buf, w))
             in (err, lSeek - uSizeRead, Some buf, w)))"

text \<open>Lines 996-1020: the extra field.\<close>

definition info_extra ::
    "('w, 'z) unz64_s \<Rightarrow> unz_file_info64 \<Rightarrow> byte list option \<Rightarrow> int \<Rightarrow> uLong \<Rightarrow> 'w
     \<Rightarrow> int \<times> uLong \<times> byte list option \<times> 'w" where
  "info_extra s fi extraField err lSeek w =
     (case extraField of
        None \<Rightarrow> (err, lSeek + fi_size_file_extra fi, None, w)
      | Some buf \<Rightarrow>
          if err \<noteq> UNZ_OK then (err, lSeek + fi_size_file_extra fi, Some buf, w)
          else
            (let extraFieldBufferSize = of_nat (length buf);
                 uSizeRead = (if fi_size_file_extra fi < extraFieldBufferSize then fi_size_file_extra fi
                              else extraFieldBufferSize);
                 (err, lSeek, w) = info_seek s lSeek err w;
                 (err, buf, w) = (if fi_size_file_extra fi > 0 \<and> extraFieldBufferSize > 0
                                  then info_read s uSizeRead buf err w else (err, buf, w))
             in (err, lSeek + (fi_size_file_extra fi - uSizeRead), Some buf, w)))"

text \<open>
  Lines 1044-1073: the body of a ZIP64 block. Each 64-bit field is read only if the field
  read so far is \<open>(ZPOS64_T)(unsigned long)-1\<close>, which on LP64 has all 64 bits set, and
  not \<open>0xffffffff\<close>.
\<close>

definition minus1 :: ZPOS64_T where [simp]: "minus1 = ucast (-1 :: uLong)"

definition info_zip64_block ::
    "('w, 'z) unz64_s \<Rightarrow> int \<times> unz_file_info64 \<times> unz_file_info64_internal \<times> 'w
     \<Rightarrow> int \<times> unz_file_info64 \<times> unz_file_info64_internal \<times> 'w" where
  "info_zip64_block s st =
     (let ff = us_filefunc s; fs = us_filestream s;
          (err, fi, fii, w) = st;
          (err, fi, w) =
            (if fi_uncompressed_size fi = minus1 then
               (let (e, x, w) = unz64local_getLong64 ff fs w in (note_err e err, fi\<lparr>fi_uncompressed_size := x\<rparr>, w))
             else (err, fi, w));
          (err, fi, w) =
            (if fi_compressed_size fi = minus1 then
               (let (e, x, w) = unz64local_getLong64 ff fs w in (note_err e err, fi\<lparr>fi_compressed_size := x\<rparr>, w))
             else (err, fi, w));
          (err, fii, w) =
            (if offset_curfile fii = minus1 then
               (let (e, x, w) = unz64local_getLong64 ff fs w in (note_err e err, fii\<lparr>offset_curfile := x\<rparr>, w))
             else (err, fii, w));
          (err, w) =
            (if fi_disk_num_start fi = -1 then
               (let (e, uL, w) = unz64local_getLong ff fs w in (note_err e err, w))
             else (err, w))
      in (err, fi, fii, w))"

text \<open>
  Lines 1035-1082. Each round counts at least 4 bytes, so the loop ends; \<open>acc\<close> stays below
  \<open>2 ^ 17\<close> and is a natural number here.
\<close>

lemma info_extra_measure: "acc < n \<Longrightarrow> n - (acc + (2 + 2 + k)) < n - (acc :: nat)"
  by simp

function info_extra_loop ::
    "('w, 'z) unz64_s \<Rightarrow> nat \<Rightarrow> nat \<Rightarrow> int \<times> unz_file_info64 \<times> unz_file_info64_internal \<times> 'w
     \<Rightarrow> int \<times> unz_file_info64 \<times> unz_file_info64_internal \<times> 'w" where
  "info_extra_loop s size_file_extra acc st =
     (if acc < size_file_extra then
        (let ff = us_filefunc s; fs = us_filestream s;
             (err, fi, fii, w) = st;
             (e, headerId, w) = unz64local_getShort ff fs w; err = note_err e err;
             (e, dataSize, w) = unz64local_getShort ff fs w; err = note_err e err;
             st = (if headerId = 0x0001 then info_zip64_block s (err, fi, fii, w)
                   else
                     (let (r, w) = ZSEEK64 ff fs dataSize ZLIB_FILEFUNC_SEEK_CUR w
                      in (if r \<noteq> 0 then UNZ_ERRNO else err, fi, fii, w)))
         in info_extra_loop s size_file_extra (acc + (2 + 2 + unat dataSize)) st)
      else st)"
  by pat_completeness auto
termination
  by (relation "measure (\<lambda>(s, size_file_extra, acc, st). size_file_extra - acc)")
    (simp_all only: info_extra_measure wf_measure in_measure prod.case)

declare info_extra_loop.simps [simp del]

text \<open>Lines 1023-1083: the second pass over the extra field, looking for ZIP64 sizes.\<close>

definition info_zip64 ::
    "('w, 'z) unz64_s \<Rightarrow> int \<Rightarrow> uLong \<Rightarrow> unz_file_info64 \<Rightarrow> unz_file_info64_internal \<Rightarrow> 'w
     \<Rightarrow> int \<times> uLong \<times> unz_file_info64 \<times> unz_file_info64_internal \<times> 'w" where
  "info_zip64 s err lSeek fi fii w =
     (if err = UNZ_OK \<and> fi_size_file_extra fi \<noteq> 0 then
        (let (err, lSeek, w) = info_seek s (lSeek - fi_size_file_extra fi) err w;
             (err, fi, fii, w) = info_extra_loop s (unat (fi_size_file_extra fi)) 0 (err, fi, fii, w)
         in (err, lSeek, fi, fii, w))
      else (err, lSeek, fi, fii, w))"

text \<open>Lines 1085-1110: the comment.\<close>

definition info_comment ::
    "('w, 'z) unz64_s \<Rightarrow> unz_file_info64 \<Rightarrow> byte list option \<Rightarrow> int \<Rightarrow> uLong \<Rightarrow> 'w
     \<Rightarrow> int \<times> byte list option \<times> 'w" where
  "info_comment s fi szComment err lSeek w =
     (case szComment of
        None \<Rightarrow> (err, None, w)
      | Some buf \<Rightarrow>
          if err \<noteq> UNZ_OK then (err, Some buf, w)
          else
            (let commentBufferSize = of_nat (length buf);
                 (buf, uSizeRead) =
                   (if fi_size_file_comment fi < commentBufferSize
                    then (buf[unat (fi_size_file_comment fi) := 0], fi_size_file_comment fi)
                    else (buf, commentBufferSize));
                 (err, lSeek, w) = info_seek s lSeek err w;
                 (err, buf, w) = (if fi_size_file_comment fi > 0 \<and> commentBufferSize > 0
                                  then info_read s uSizeRead buf err w else (err, buf, w))
             in (err, Some buf, w)))"

text \<open>The three buffers a caller can pass.\<close>

record info_bufs =
  ib_szFileName :: "byte list option"
  ib_extraField :: "byte list option"
  ib_szComment :: "byte list option"

definition no_bufs :: info_bufs where
  "no_bufs = \<lparr>ib_szFileName = None, ib_extraField = None, ib_szComment = None\<rparr>"

text \<open>
  The caller's structures are only assigned when \<open>err\<close> is \<open>UNZ_OK\<close>: the result has
  them as an option.
\<close>

definition unz64local_GetCurrentFileInfoInternal ::
    "('w, 'z) unz64_s \<Rightarrow> info_bufs \<Rightarrow> 'w
     \<Rightarrow> int \<times> (unz_file_info64 \<times> unz_file_info64_internal) option \<times> info_bufs \<times> 'w" where
  "unz64local_GetCurrentFileInfoInternal s ib w =
     (let (err, fi, fii, w) = info_fixed s w;
          (err, lSeek, szFileName, w) = info_filename s fi (ib_szFileName ib) err w;
          (err, lSeek, extraField, w) = info_extra s fi (ib_extraField ib) err lSeek w;
          (err, lSeek, fi, fii, w) = info_zip64 s err lSeek fi fii w;
          (err, szComment, w) = info_comment s fi (ib_szComment ib) err lSeek w
      in (err, if err = UNZ_OK then Some (fi, fii) else None,
          \<lparr>ib_szFileName = szFileName, ib_extraField = extraField, ib_szComment = szComment\<rparr>, w))"

definition unzGetCurrentFileInfo64 ::
    "('w, 'z) unz64_s option \<Rightarrow> info_bufs \<Rightarrow> 'w \<Rightarrow> int \<times> unz_file_info64 option \<times> info_bufs \<times> 'w" where
  "unzGetCurrentFileInfo64 file ib w =
     (case file of None \<Rightarrow> (UNZ_PARAMERROR, None, ib, w)
      | Some s \<Rightarrow> (let (err, i, ib, w) = unz64local_GetCurrentFileInfoInternal s ib w
                  in (err, map_option fst i, ib, w)))"

definition file_info32 :: "unz_file_info64 \<Rightarrow> unz_file_info" where
  "file_info32 i =
     \<lparr>fi32_version = fi_version i, fi32_version_needed = fi_version_needed i, fi32_flag = fi_flag i,
      fi32_compression_method = fi_compression_method i, fi32_dosDate = fi_dosDate i, fi32_crc = fi_crc i,
      fi32_compressed_size = ucast (fi_compressed_size i), fi32_uncompressed_size = ucast (fi_uncompressed_size i),
      fi32_size_filename = fi_size_filename i, fi32_size_file_extra = fi_size_file_extra i,
      fi32_size_file_comment = fi_size_file_comment i, fi32_disk_num_start = fi_disk_num_start i,
      fi32_internal_fa = fi_internal_fa i, fi32_external_fa = fi_external_fa i, fi32_tmu_date = fi_tmu_date i\<rparr>"

definition unzGetCurrentFileInfo ::
    "('w, 'z) unz64_s option \<Rightarrow> info_bufs \<Rightarrow> 'w \<Rightarrow> int \<times> unz_file_info option \<times> info_bufs \<times> 'w" where
  "unzGetCurrentFileInfo file ib w =
     (case file of None \<Rightarrow> (UNZ_PARAMERROR, None, ib, w)
      | Some s \<Rightarrow> (let (err, i, ib, w) = unz64local_GetCurrentFileInfoInternal s ib w
                  in (err, map_option (file_info32 \<circ> fst) i, ib, w)))"

section \<open>Moving between entries\<close>

text \<open>
  The call that refreshes \<open>cur_file_info\<close> and \<open>current_file_ok\<close>, common to the four
  functions that move.
\<close>

definition refresh_current :: "('w, 'z) unz64_s \<Rightarrow> 'w \<Rightarrow> int \<times> ('w, 'z) unz64_s \<times> 'w" where
  "refresh_current s w =
     (let (err, i, ib, w) = unz64local_GetCurrentFileInfoInternal s no_bufs w;
          s = (case i of None \<Rightarrow> s
               | Some (fi, fii) \<Rightarrow> s\<lparr>us_cur_file_info := fi, us_cur_file_info_internal := fii\<rparr>)
      in (err, s\<lparr>us_current_file_ok := (err = UNZ_OK)\<rparr>, w))"

definition unzGoToFirstFile_s :: "('w, 'z) unz64_s \<Rightarrow> 'w \<Rightarrow> int \<times> ('w, 'z) unz64_s \<times> 'w" where
  "unzGoToFirstFile_s s w =
     refresh_current (s\<lparr>us_pos_in_central_dir := us_offset_central_dir s, us_num_file := 0\<rparr>) w"

definition unzGoToNextFile_s :: "('w, 'z) unz64_s \<Rightarrow> 'w \<Rightarrow> int \<times> ('w, 'z) unz64_s \<times> 'w" where
  "unzGoToNextFile_s s w =
     (if \<not> us_current_file_ok s then (UNZ_END_OF_LIST_OF_FILE, s, w)
      else if gi_number_entry (us_gi s) \<noteq> 0xffff \<and> us_num_file s + 1 = gi_number_entry (us_gi s)
      then (UNZ_END_OF_LIST_OF_FILE, s, w)
      else
        (let fi = us_cur_file_info s;
             s = s\<lparr>us_pos_in_central_dir := us_pos_in_central_dir s + (SIZECENTRALDIRITEM + fi_size_filename fi
                      + fi_size_file_extra fi + fi_size_file_comment fi),
                   us_num_file := us_num_file s + 1\<rparr>
         in refresh_current s w))"

text \<open>The exported functions test their handle first.\<close>

definition with_file ::
    "(('w, 'z) unz64_s \<Rightarrow> 'w \<Rightarrow> int \<times> ('w, 'z) unz64_s \<times> 'w)
     \<Rightarrow> ('w, 'z) unz64_s option \<Rightarrow> 'w \<Rightarrow> int \<times> ('w, 'z) unz64_s option \<times> 'w" where
  "with_file f file w =
     (case file of None \<Rightarrow> (UNZ_PARAMERROR, None, w)
      | Some s \<Rightarrow> (let (err, s, w) = f s w in (err, Some s, w)))"

definition unzGoToFirstFile ::
    "('w, 'z) unz64_s option \<Rightarrow> 'w \<Rightarrow> int \<times> ('w, 'z) unz64_s option \<times> 'w" where
  "unzGoToFirstFile = with_file unzGoToFirstFile_s"

definition unzGoToNextFile ::
    "('w, 'z) unz64_s option \<Rightarrow> 'w \<Rightarrow> int \<times> ('w, 'z) unz64_s option \<times> 'w" where
  "unzGoToNextFile = with_file unzGoToNextFile_s"

text \<open>
  \<open>junk\<close> are the 257 bytes of the uninitialised local buffer. Its last byte is outside
  the size passed to \<open>unzGetCurrentFileInfo64\<close>, so that a name of 256 bytes or more is
  terminated only by what happens to be there; without any NUL, \<open>strcmp\<close> runs past the
  buffer, which is undefined behaviour (\<open>None\<close>, as is a loop that does not end).
\<close>

partial_function (option) locate_loop ::
    "byte list \<Rightarrow> byte list \<Rightarrow> int \<Rightarrow> int \<Rightarrow> ('w, 'z) unz64_s \<Rightarrow> 'w
     \<Rightarrow> (int \<times> bool \<times> ('w, 'z) unz64_s \<times> 'w) option" where
  "locate_loop junk szFileName iCaseSensitivity err s w =
     (if err = UNZ_OK then
        (let ib = no_bufs\<lparr>ib_szFileName := Some (take UNZ_MAXFILENAMEINZIP junk)\<rparr>;
             (err, i, ib, w) = unzGetCurrentFileInfo64 (Some s) ib w
         in if err = UNZ_OK then
              (let szCurrentFileName = the (ib_szFileName ib) @ drop UNZ_MAXFILENAMEINZIP junk in
               if 0 \<notin> set szCurrentFileName then None
               else if unzStringFileNameCompare (c_string szCurrentFileName) szFileName iCaseSensitivity = 0
               then Some (UNZ_OK, True, s, w)
               else (let (err, s, w) = unzGoToNextFile_s s w
                     in locate_loop junk szFileName iCaseSensitivity err s w))
            else locate_loop junk szFileName iCaseSensitivity err s w)
      else Some (err, False, s, w))"

definition unzLocateFile ::
    "byte list \<Rightarrow> ('w, 'z) unz64_s option \<Rightarrow> byte list \<Rightarrow> int \<Rightarrow> 'w
     \<Rightarrow> (int \<times> ('w, 'z) unz64_s option \<times> 'w) option" where
  "unzLocateFile junk file szFileName iCaseSensitivity w =
     (case file of None \<Rightarrow> Some (UNZ_PARAMERROR, None, w)
      | Some s \<Rightarrow>
          if length szFileName \<ge> UNZ_MAXFILENAMEINZIP then Some (UNZ_PARAMERROR, Some s, w)
          else if \<not> us_current_file_ok s then Some (UNZ_END_OF_LIST_OF_FILE, Some s, w)
          else
            (let (err, s1, w) = unzGoToFirstFile_s s w in
             case locate_loop junk szFileName iCaseSensitivity err s1 w of
               None \<Rightarrow> None
             | Some (err, found, s2, w) \<Rightarrow>
                 Some (err,
                   Some (if found then s2
                         else s2\<lparr>us_num_file := us_num_file s, us_pos_in_central_dir := us_pos_in_central_dir s,
                                 us_cur_file_info := us_cur_file_info s,
                                 us_cur_file_info_internal := us_cur_file_info_internal s\<rparr>), w)))"

section \<open>Positions and offsets\<close>

text \<open>A NULL \<open>file_pos\<close> is told by the flag; on success the position is the result.\<close>

definition unzGetFilePos64 ::
    "('w, 'z) unz64_s option \<Rightarrow> bool \<Rightarrow> int \<times> unz64_file_pos option" where
  "unzGetFilePos64 file file_pos_null =
     (case file of None \<Rightarrow> (UNZ_PARAMERROR, None)
      | Some s \<Rightarrow>
          if file_pos_null then (UNZ_PARAMERROR, None)
          else if \<not> us_current_file_ok s then (UNZ_END_OF_LIST_OF_FILE, None)
          else (UNZ_OK, Some \<lparr>pos_in_zip_directory = us_pos_in_central_dir s, num_of_file = us_num_file s\<rparr>))"

definition unzGetFilePos :: "('w, 'z) unz64_s option \<Rightarrow> int \<times> unz_file_pos option" where
  "unzGetFilePos file =
     (let (err, p) = unzGetFilePos64 file False
      in (err, map_option (\<lambda>p. \<lparr>pos_in_zip_directory32 = ucast (pos_in_zip_directory p),
                               num_of_file32 = ucast (num_of_file p)\<rparr>) p))"

definition unzGoToFilePos64 ::
    "('w, 'z) unz64_s option \<Rightarrow> unz64_file_pos option \<Rightarrow> 'w \<Rightarrow> int \<times> ('w, 'z) unz64_s option \<times> 'w" where
  "unzGoToFilePos64 file file_pos w =
     (case (file, file_pos) of
        (Some s, Some p) \<Rightarrow>
          (let (err, s, w) = refresh_current
                 (s\<lparr>us_pos_in_central_dir := pos_in_zip_directory p, us_num_file := num_of_file p\<rparr>) w
           in (err, Some s, w))
      | _ \<Rightarrow> (UNZ_PARAMERROR, file, w))"

definition unzGoToFilePos ::
    "('w, 'z) unz64_s option \<Rightarrow> unz_file_pos option \<Rightarrow> 'w \<Rightarrow> int \<times> ('w, 'z) unz64_s option \<times> 'w" where
  "unzGoToFilePos file file_pos w =
     (case file_pos of None \<Rightarrow> (UNZ_PARAMERROR, file, w)
      | Some p \<Rightarrow> unzGoToFilePos64 file
          (Some \<lparr>pos_in_zip_directory = ucast (pos_in_zip_directory32 p), num_of_file = ucast (num_of_file32 p)\<rparr>) w)"

definition unzGetOffset64 :: "('w, 'z) unz64_s option \<Rightarrow> ZPOS64_T" where
  "unzGetOffset64 file =
     (case file of None \<Rightarrow> 0
      | Some s \<Rightarrow>
          if \<not> us_current_file_ok s then 0
          else if gi_number_entry (us_gi s) \<noteq> 0 \<and> gi_number_entry (us_gi s) \<noteq> 0xffff
                  \<and> us_num_file s = gi_number_entry (us_gi s) then 0
          else us_pos_in_central_dir s)"

definition unzGetOffset :: "('w, 'z) unz64_s option \<Rightarrow> uLong" where
  "unzGetOffset file = (case file of None \<Rightarrow> 0 | Some s \<Rightarrow> ucast (unzGetOffset64 file))"

definition unzSetOffset64 ::
    "('w, 'z) unz64_s option \<Rightarrow> ZPOS64_T \<Rightarrow> 'w \<Rightarrow> int \<times> ('w, 'z) unz64_s option \<times> 'w" where
  "unzSetOffset64 file pos =
     with_file (\<lambda>s. refresh_current
       (s\<lparr>us_pos_in_central_dir := pos, us_num_file := gi_number_entry (us_gi s)\<rparr>)) file"

definition unzSetOffset ::
    "('w, 'z) unz64_s option \<Rightarrow> uLong \<Rightarrow> 'w \<Rightarrow> int \<times> ('w, 'z) unz64_s option \<times> 'w" where
  "unzSetOffset file pos = unzSetOffset64 file (ucast pos)"

section \<open>Sizes and offsets have 32 bits\<close>

text \<open>
  Whatever the callbacks return, a size or offset read from a directory entry is below
  \<open>2 ^ 32\<close>, and so never all ones: the fields of a ZIP64 block are never read.
\<close>

definition small_info :: "unz_file_info64 \<Rightarrow> unz_file_info64_internal \<Rightarrow> bool" where
  "small_info fi fii \<longleftrightarrow> unat (fi_compressed_size fi) < 2 ^ 32 \<and> unat (fi_uncompressed_size fi) < 2 ^ 32
     \<and> unat (offset_curfile fii) < 2 ^ 32 \<and> unat (fi_disk_num_start fi) < 2 ^ 16"

lemma le_word_bound: "length bs \<le> 8 \<Longrightarrow> unat (le_word bs) < 256 ^ length bs"
  using le_val_bound [of bs] by (simp add: unat_le_word)

lemma getLong_bound:
  assumes "unz64local_getLong ff fs w = (e, x, w')"
  shows "unat x < 2 ^ 32"
proof -
  have "x = 0 \<or> (\<exists>a b c d. x = le_word [a, b, c, d])"
    using assms unfolding unz_get_eq zip64local_getLong_def Let_def le_word_small
    by (auto split: prod.splits if_splits)
  then show ?thesis using le_word_bound [of "[_, _, _, _]"] by fastforce
qed

lemma getShort_bound:
  assumes "unz64local_getShort ff fs w = (e, x, w')"
  shows "unat x < 2 ^ 16"
proof -
  have "x = 0 \<or> (\<exists>a b. x = le_word [a, b])"
    using assms unfolding unz_get_eq zip64local_getShort_def Let_def le_word_small
    by (auto split: prod.splits if_splits)
  then show ?thesis using le_word_bound [of "[_, _]"] by fastforce
qed

lemma info_fixed_small:
  assumes "info_fixed s w = (err, fi, fii, w')"
  shows "small_info fi fii"
  using assms unfolding info_fixed_def Let_def
  by (auto split: prod.splits simp: small_info_def dest: getLong_bound getShort_bound)

lemma small_not_all_ones: "unat (x :: 64 word) < 2 ^ 32 \<Longrightarrow> x \<noteq> -1"
  by (auto simp: unsigned_minus_1_eq_mask mask_eq_exp_minus_1)

lemma small_not_minus1: "unat (x :: 64 word) < 2 ^ 32 \<Longrightarrow> x \<noteq> minus1"
  using small_not_all_ones by simp

lemma info_zip64_block_small:
  assumes "small_info fi fii"
  shows "info_zip64_block s (err, fi, fii, w) = (err, fi, fii, w)"
proof -
  have "fi_disk_num_start fi \<noteq> -1" using assms by (intro small_not_all_ones) (simp add: small_info_def)
  with assms show ?thesis
    by (simp add: info_zip64_block_def small_info_def small_not_minus1 del: minus1_def)
qed

lemma info_extra_loop_small:
  "small_info fi fii \<Longrightarrow> \<exists>err' w'. info_extra_loop s n acc (err, fi, fii, w) = (err', fi, fii, w')"
proof (induction "n - acc" arbitrary: acc err w rule: less_induct)
  case less
  show ?case
  proof (cases "acc < n")
    case False
    then show ?thesis by (simp add: info_extra_loop.simps [of s n acc])
  next
    case True
    obtain e1 i w1 where g1: "unz64local_getShort (us_filefunc s) (us_filestream s) w = (e1, i, w1)"
      by (metis prod_cases3)
    obtain e2 k w2 where g2: "unz64local_getShort (us_filefunc s) (us_filestream s) w1 = (e2, k, w2)"
      by (metis prod_cases3)
    obtain r w3 where sk: "ZSEEK64 (us_filefunc s) (us_filestream s) k ZLIB_FILEFUNC_SEEK_CUR w2 = (r, w3)"
      by fastforce
    have "\<exists>err' w'. info_extra_loop s n (acc + (2 + 2 + unat k)) (e, fi, fii, v) = (err', fi, fii, w')" for e v
      using less.hyps [of "acc + (2 + 2 + unat k)" e v] True less.prems by fastforce
    then show ?thesis using True g1 g2 sk less.prems
      by (subst info_extra_loop.simps) (simp add: Let_def info_zip64_block_small)
  qed
qed

lemma info_zip64_small:
  assumes "small_info fi fii" "info_zip64 s err lSeek fi fii w = (err', lSeek', fi', fii', w')"
  shows "fi' = fi \<and> fii' = fii"
proof (cases "err = UNZ_OK \<and> fi_size_file_extra fi \<noteq> 0")
  case False
  then show ?thesis using assms(2) by (auto simp: info_zip64_def)
next
  case True
  obtain e l w1 where sk: "info_seek s (lSeek - fi_size_file_extra fi) err w = (e, l, w1)" by (metis prod_cases3)
  obtain e2 w2 where "info_extra_loop s (unat (fi_size_file_extra fi)) 0 (e, fi, fii, w1) = (e2, fi, fii, w2)"
    using info_extra_loop_small [OF assms(1), of s _ 0 e w1] by blast
  with True sk assms(2) show ?thesis by (auto simp: info_zip64_def)
qed

lemma file_info_small:
  assumes "unz64local_GetCurrentFileInfoInternal s ib w = (err, Some (fi, fii), ib', w')"
  shows "small_info fi fii"
proof -
  obtain e0 f0 i0 w0 where a: "info_fixed s w = (e0, f0, i0, w0)" by (metis prod_cases4)
  obtain e1 l1 b1 w1 where b: "info_filename s f0 (ib_szFileName ib) e0 w0 = (e1, l1, b1, w1)" by (metis prod_cases4)
  obtain e2 l2 b2 w2 where c: "info_extra s f0 (ib_extraField ib) e1 l1 w1 = (e2, l2, b2, w2)" by (metis prod_cases4)
  obtain e3 l3 f3 i3 w3 where d: "info_zip64 s e2 l2 f0 i0 w2 = (e3, l3, f3, i3, w3)" by (metis prod_cases5)
  obtain e4 b4 w4 where e: "info_comment s f3 (ib_szComment ib) e3 l3 w3 = (e4, b4, w4)" by (metis prod_cases3)
  have "fi = f3 \<and> fii = i3" using assms a b c d e
    by (auto simp: unz64local_GetCurrentFileInfoInternal_def split: if_splits)
  with info_fixed_small [OF a] info_zip64_small [OF _ d] show ?thesis by metis
qed

end
