(* ===== verification/UnzRead.thy ===== *)
theory UnzRead
  imports UnzInfo
begin

text \<open>
  Opening and closing an archive for reading (\<open>unzOpenInternal\<close>, \<open>unzClose\<close>), and
  opening, reading and closing its current entry.
\<close>

section \<open>Opening an archive\<close>

text \<open>The fields of \<open>us\<close> that the end record determines.\<close>

record unz_end_record =
  ue_gi :: unz_global_info64
  ue_size_central_dir :: ZPOS64_T
  ue_offset_central_dir :: ZPOS64_T

text \<open>Lines 623-676, with a ZIP64 end record.\<close>

definition unz_zip64_record ::
    "'w zlib_filefunc64_32_def \<Rightarrow> voidpf \<Rightarrow> ZPOS64_T \<Rightarrow> 'w \<Rightarrow> int \<times> unz_end_record \<times> 'w" where
  "unz_zip64_record ff fs central_pos w =
     (let (r, w) = ZSEEK64 ff fs central_pos ZLIB_FILEFUNC_SEEK_SET w;
          err = (if r \<noteq> 0 then UNZ_ERRNO else UNZ_OK);
          (e, uL, w) = unz64local_getLong ff fs w; err = note_err e err;
          (e, uL64, w) = unz64local_getLong64 ff fs w; err = note_err e err;
          (e, uS, w) = unz64local_getShort ff fs w; err = note_err e err;
          (e, uS, w) = unz64local_getShort ff fs w; err = note_err e err;
          (e, number_disk, w) = unz64local_getLong ff fs w; err = note_err e err;
          (e, number_disk_with_CD, w) = unz64local_getLong ff fs w; err = note_err e err;
          (e, number_entry, w) = unz64local_getLong64 ff fs w; err = note_err e err;
          (e, number_entry_CD, w) = unz64local_getLong64 ff fs w; err = note_err e err;
          err = (if number_entry_CD \<noteq> number_entry \<or> number_disk_with_CD \<noteq> 0 \<or> number_disk \<noteq> 0
                 then UNZ_BADZIPFILE else err);
          (e, size_central_dir, w) = unz64local_getLong64 ff fs w; err = note_err e err;
          (e, offset_central_dir, w) = unz64local_getLong64 ff fs w; err = note_err e err
      in (err, \<lparr>ue_gi = \<lparr>gi_number_entry = number_entry, gi_size_comment = 0\<rparr>,
                ue_size_central_dir = size_central_dir, ue_offset_central_dir = offset_central_dir\<rparr>, w))"

text \<open>Lines 681-735, without one; not finding the record is an error here.\<close>

definition unz_plain_record ::
    "'w zlib_filefunc64_32_def \<Rightarrow> voidpf \<Rightarrow> ZPOS64_T \<Rightarrow> 'w \<Rightarrow> int \<times> unz_end_record \<times> 'w" where
  "unz_plain_record ff fs central_pos w =
     (let err = (if central_pos = 0 then UNZ_ERRNO else UNZ_OK);
          (r, w) = ZSEEK64 ff fs central_pos ZLIB_FILEFUNC_SEEK_SET w;
          err = (if r \<noteq> 0 then UNZ_ERRNO else err);
          (e, uL, w) = unz64local_getLong ff fs w; err = note_err e err;
          (e, number_disk, w) = unz64local_getShort ff fs w; err = note_err e err;
          (e, number_disk_with_CD, w) = unz64local_getShort ff fs w; err = note_err e err;
          (e, number_entry, w) = unz64local_getShort ff fs w; err = note_err e err;
          (e, number_entry_CD, w) = unz64local_getShort ff fs w; err = note_err e err;
          err = (if number_entry_CD \<noteq> number_entry \<or> number_disk_with_CD \<noteq> 0 \<or> number_disk \<noteq> 0
                 then UNZ_BADZIPFILE else err);
          (e, size_central_dir, w) = unz64local_getLong ff fs w; err = note_err e err;
          (e, offset_central_dir, w) = unz64local_getLong ff fs w; err = note_err e err;
          (e, size_comment, w) = unz64local_getShort ff fs w; err = note_err e err
      in (err, \<lparr>ue_gi = \<lparr>gi_number_entry = number_entry, gi_size_comment = size_comment\<rparr>,
                ue_size_central_dir = size_central_dir, ue_offset_central_dir = offset_central_dir\<rparr>, w))"

definition sizeof_unz64_s :: nat where "sizeof_unz64_s = 344"
definition sizeof_file_in_zip :: nat where "sizeof_file_in_zip = 336"

text \<open>
  \<open>fi0\<close> and \<open>fii0\<close> are the uninitialised \<open>cur_file_info\<close> of the local \<open>us\<close>; they
  are only kept when the first entry cannot be read. \<open>None\<close> is a NULL archive. The sizes
  of the structures only reach \<open>malloc\<close>.
\<close>

definition unzOpenInternal_ff ::
    "unz_file_info64 \<Rightarrow> unz_file_info64_internal \<Rightarrow> 'w zlib_filefunc64_32_def \<Rightarrow> path option \<Rightarrow> int \<Rightarrow> sys \<Rightarrow> 'w
     \<Rightarrow> ('w, 'z) unz64_s option \<times> sys \<times> 'w" where
  "unzOpenInternal_ff fi0 fii0 ff path is64bitOpenFunction \<sigma> w =
     (let (fs, w) = ZOPEN64 ff path (ZLIB_FILEFUNC_MODE_READ OR ZLIB_FILEFUNC_MODE_EXISTING) w in
      if fs = NULL then (None, \<sigma>, w)
      else
        (let (central_pos, \<sigma>, w) = unz64local_SearchCentralDir64 ff fs \<sigma> w;
             isZip64 = (if central_pos \<noteq> 0 then 1 else 0);
             (central_pos, \<sigma>, w) = (if central_pos \<noteq> 0 then (central_pos, \<sigma>, w)
                                    else unz64local_SearchCentralDir ff fs \<sigma> w);
             (err, ue, w) = (if isZip64 \<noteq> 0 then unz_zip64_record ff fs central_pos w
                             else unz_plain_record ff fs central_pos w);
             err = (if central_pos < ue_offset_central_dir ue + ue_size_central_dir ue \<and> err = UNZ_OK
                    then UNZ_BADZIPFILE else err)
         in if err \<noteq> UNZ_OK then (let (_, w) = ZCLOSE64 ff fs w in (None, \<sigma>, w))
            else
              (let us = \<lparr>us_filefunc = ff, us_is64bitOpenFunction = is64bitOpenFunction, us_filestream = fs,
                         us_gi = ue_gi ue,
                         us_byte_before_the_zipfile = central_pos - (ue_offset_central_dir ue + ue_size_central_dir ue),
                         us_num_file = 0, us_pos_in_central_dir = 0, us_current_file_ok = False,
                         us_central_pos = central_pos, us_size_central_dir = ue_size_central_dir ue,
                         us_offset_central_dir = ue_offset_central_dir ue, us_cur_file_info = fi0,
                         us_cur_file_info_internal = fii0, us_pfile_in_zip_read = None, us_encrypted = 0,
                         us_isZip64 = isZip64\<rparr>;
                   (ok, \<sigma>) = malloc sizeof_unz64_s \<sigma>
               in if \<not> ok then (None, \<sigma>, w)
                  else (let (_, s, w) = unzGoToFirstFile_s us w in (Some s, \<sigma>, w)))))"

definition unzOpenInternal ::
    "unz_file_info64 \<Rightarrow> unz_file_info64_internal \<Rightarrow> path option \<Rightarrow> stdio zlib_filefunc64_32_def option \<Rightarrow> int
     \<Rightarrow> sys \<Rightarrow> stdio \<Rightarrow> (stdio, 'z) unz64_s option \<times> sys \<times> stdio" where
  "unzOpenInternal fi0 fii0 path pzlib_filefunc64_32_def is64bitOpenFunction =
     unzOpenInternal_ff fi0 fii0
       (case pzlib_filefunc64_32_def of None \<Rightarrow> stdio_filefunc64 | Some ff \<Rightarrow> ff) path is64bitOpenFunction"

definition unzOpen2 ::
    "unz_file_info64 \<Rightarrow> unz_file_info64_internal \<Rightarrow> path option \<Rightarrow> stdio zlib_filefunc_def option
     \<Rightarrow> sys \<Rightarrow> stdio \<Rightarrow> (stdio, 'z) unz64_s option \<times> sys \<times> stdio" where
  "unzOpen2 fi0 fii0 path pzlib_filefunc32_def =
     (case pzlib_filefunc32_def of
        Some p \<Rightarrow> unzOpenInternal fi0 fii0 path (Some (fill_zlib_filefunc64_32_def_from_filefunc32 p)) 0
      | None \<Rightarrow> unzOpenInternal fi0 fii0 path None 0)"

definition unzOpen2_64 ::
    "unz_file_info64 \<Rightarrow> unz_file_info64_internal \<Rightarrow> path option \<Rightarrow> stdio zlib_filefunc64_def option
     \<Rightarrow> sys \<Rightarrow> stdio \<Rightarrow> (stdio, 'z) unz64_s option \<times> sys \<times> stdio" where
  "unzOpen2_64 fi0 fii0 path pzlib_filefunc_def =
     (case pzlib_filefunc_def of
        Some p \<Rightarrow> unzOpenInternal fi0 fii0 path
          (Some \<lparr>zfile_func64 = p, zopen32_file = None, ztell32_file = None, zseek32_file = None\<rparr>) 1
      | None \<Rightarrow> unzOpenInternal fi0 fii0 path None 1)"

definition unzOpen ::
    "unz_file_info64 \<Rightarrow> unz_file_info64_internal \<Rightarrow> path option \<Rightarrow> sys \<Rightarrow> stdio
     \<Rightarrow> (stdio, 'z) unz64_s option \<times> sys \<times> stdio" where
  "unzOpen fi0 fii0 path = unzOpenInternal fi0 fii0 path None 0"

definition unzOpen64 ::
    "unz_file_info64 \<Rightarrow> unz_file_info64_internal \<Rightarrow> path option \<Rightarrow> sys \<Rightarrow> stdio
     \<Rightarrow> (stdio, 'z) unz64_s option \<times> sys \<times> stdio" where
  "unzOpen64 fi0 fii0 path = unzOpenInternal fi0 fii0 path None 1"

section \<open>Closing the current entry and the archive\<close>

definition unzCloseCurrentFile ::
    "'z zlib \<Rightarrow> ('w, 'z) unz64_s option \<Rightarrow> int \<times> ('w, 'z) unz64_s option" where
  "unzCloseCurrentFile Z file =
     (case file of None \<Rightarrow> (UNZ_PARAMERROR, None)
      | Some s \<Rightarrow>
          (case us_pfile_in_zip_read s of None \<Rightarrow> (UNZ_PARAMERROR, Some s)
           | Some p \<Rightarrow>
               (let err = (if pr_rest_read_uncompressed p = 0 \<and> pr_raw p = 0 then
                             (if pr_crc32 p \<noteq> pr_crc32_wait p then UNZ_CRCERROR else UNZ_OK)
                           else UNZ_OK);
                    p = (if pr_stream_initialised p = of_int Z_DEFLATED
                         then p\<lparr>pr_stream := snd (zl_inflateEnd Z (pr_stream p))\<rparr> else p)
                in (err, Some (s\<lparr>us_pfile_in_zip_read := None\<rparr>)))))"

definition unzClose ::
    "'z zlib \<Rightarrow> ('w, 'z) unz64_s option \<Rightarrow> 'w \<Rightarrow> int \<times> 'w" where
  "unzClose Z file w =
     (case file of None \<Rightarrow> (UNZ_PARAMERROR, w)
      | Some s \<Rightarrow>
          (let s = (if us_pfile_in_zip_read s \<noteq> None then the (snd (unzCloseCurrentFile Z (Some s))) else s);
               (_, w) = ZCLOSE64 (us_filefunc s) (us_filestream s) w
           in (UNZ_OK, w)))"

definition unzGetGlobalInfo64 :: "('w, 'z) unz64_s option \<Rightarrow> int \<times> unz_global_info64 option" where
  "unzGetGlobalInfo64 file = (case file of None \<Rightarrow> (UNZ_PARAMERROR, None) | Some s \<Rightarrow> (UNZ_OK, Some (us_gi s)))"

definition unzGetGlobalInfo :: "('w, 'z) unz64_s option \<Rightarrow> int \<times> unz_global_info option" where
  "unzGetGlobalInfo file =
     (case file of None \<Rightarrow> (UNZ_PARAMERROR, None)
      | Some s \<Rightarrow> (UNZ_OK, Some \<lparr>gi32_number_entry = ucast (gi_number_entry (us_gi s)),
                                gi32_size_comment = gi_size_comment (us_gi s)\<rparr>))"

text \<open>
  The buffer of the caller is its list of bytes, and \<open>uSizeBuf\<close> its length. A NULL
  buffer is written to when there is something to read: undefined behaviour, \<open>None\<close>.
\<close>

definition unzGetGlobalComment ::
    "('w, 'z) unz64_s option \<Rightarrow> byte list option \<Rightarrow> uLong \<Rightarrow> 'w \<Rightarrow> (int \<times> byte list option \<times> 'w) option" where
  "unzGetGlobalComment file szComment uSizeBuf w =
     (case file of None \<Rightarrow> Some (UNZ_PARAMERROR, szComment, w)
      | Some s \<Rightarrow>
          (let uReadThis = (if uSizeBuf > gi_size_comment (us_gi s) then gi_size_comment (us_gi s) else uSizeBuf);
               (r, w) = ZSEEK64 (us_filefunc s) (us_filestream s) (us_central_pos s + 22) ZLIB_FILEFUNC_SEEK_SET w
           in if r \<noteq> 0 then Some (UNZ_ERRNO, szComment, w)
              else if uReadThis > 0 \<and> szComment = None then None
              else
                (let (bs, w) = (if uReadThis > 0
                                then ZREAD64 (us_filefunc s) (us_filestream s) uReadThis w else ([], w));
                     szComment = (if uReadThis > 0
                                  then map_option (\<lambda>c. mem_write 0 bs (c[0 := 0])) szComment else szComment)
                 in if length bs \<noteq> unat uReadThis then Some (UNZ_ERRNO, szComment, w)
                    else
                      (let szComment = (if uSizeBuf > gi_size_comment (us_gi s)
                                        then map_option (\<lambda>c. c[unat (gi_size_comment (us_gi s)) := 0]) szComment
                                        else szComment)
                       in Some (sint (ucast uReadThis :: uInt), szComment, w)))))"

section \<open>Opening the current entry\<close>

text \<open>
  Lines 1384-1466: the local header is compared with the central one. The result has
  \<open>iSizeVar\<close> and the place of the local extra field; sizes are not compared when bit 3 of
  the flags says they follow the data, or when they are \<open>0xFFFFFFFF\<close>.
\<close>

definition unz64local_CheckCurrentFileCoherencyHeader ::
    "('w, 'z) unz64_s \<Rightarrow> 'w \<Rightarrow> int \<times> uInt \<times> ZPOS64_T \<times> uInt \<times> 'w" where
  "unz64local_CheckCurrentFileCoherencyHeader s w =
     (let ff = us_filefunc s; fs = us_filestream s; fi = us_cur_file_info s;
          bad = (\<lambda>e differs err. if e \<noteq> UNZ_OK then UNZ_ERRNO
                   else if err = UNZ_OK \<and> differs then UNZ_BADZIPFILE else err);
          (r, w) = ZSEEK64 ff fs (offset_curfile (us_cur_file_info_internal s) + us_byte_before_the_zipfile s)
                     ZLIB_FILEFUNC_SEEK_SET w
      in if r \<noteq> 0 then (UNZ_ERRNO, 0, 0, 0, w)
         else
           (let (e, uMagic, w) = unz64local_getLong ff fs w;
                err = bad e (uMagic \<noteq> 0x04034b50) UNZ_OK;
                (e, uData, w) = unz64local_getShort ff fs w; err = note_err e err;
                (e, uFlags, w) = unz64local_getShort ff fs w; err = note_err e err;
                (e, uData, w) = unz64local_getShort ff fs w;
                err = bad e (uData \<noteq> fi_compression_method fi) err;
                err = (if err = UNZ_OK \<and> fi_compression_method fi \<noteq> 0
                          \<and> fi_compression_method fi \<noteq> of_int Z_BZIP2ED \<and> fi_compression_method fi \<noteq> of_int Z_DEFLATED
                       then UNZ_BADZIPFILE else err);
                (e, uData, w) = unz64local_getLong ff fs w; err = note_err e err;
                (e, uData, w) = unz64local_getLong ff fs w;
                err = bad e (uData \<noteq> fi_crc fi \<and> uFlags AND 8 = 0) err;
                (e, uData, w) = unz64local_getLong ff fs w;
                err = bad e (uData \<noteq> 0xFFFFFFFF \<and> uData \<noteq> fi_compressed_size fi \<and> uFlags AND 8 = 0) err;
                (e, uData, w) = unz64local_getLong ff fs w;
                err = bad e (uData \<noteq> 0xFFFFFFFF \<and> uData \<noteq> fi_uncompressed_size fi \<and> uFlags AND 8 = 0) err;
                (e, size_filename, w) = unz64local_getShort ff fs w;
                err = bad e (size_filename \<noteq> fi_size_filename fi) err;
                (e, size_extra_field, w) = unz64local_getShort ff fs w; err = note_err e err
            in (err, ucast size_filename + ucast size_extra_field,
                offset_curfile (us_cur_file_info_internal s) + SIZEZIPLOCALHEADER + size_filename,
                ucast size_extra_field, w)))"

text \<open>The \<open>*level\<close> a deflated entry was made with, from two bits of its flags.\<close>

definition unz_level :: "uLong \<Rightarrow> int" where
  "unz_level flag =
     (let f = flag AND 0x06 in if f = 6 then 1 else if f = 4 then 2 else if f = 2 then 9 else 6)"

text \<open>
  Lines 1511-1620. \<open>strm0\<close> is the uninitialised stream of the new structure. The result has
  \<open>*method\<close> and \<open>*level\<close>, when they are assigned. A bzip2 entry is read raw, since
  \<open>HAVE_BZIP2\<close> is not defined.
\<close>

definition open_current_read ::
    "'z zlib \<Rightarrow> 'z z_stream \<Rightarrow> ('w, 'z) unz64_s \<Rightarrow> int \<Rightarrow> uInt \<Rightarrow> ZPOS64_T \<Rightarrow> uInt
     \<Rightarrow> int \<times> ('w, 'z) unz64_s" where
  "open_current_read Z strm0 s raw iSizeVar offset_local_extrafield size_local_extrafield =
     (let fi = us_cur_file_info s;
          p = \<lparr>pr_read_buffer = True, pr_stream = strm0\<lparr>total_out := 0\<rparr>, pr_pos_in_zipfile = 0,
               pr_stream_initialised = 0, pr_offset_local_extrafield = offset_local_extrafield,
               pr_size_local_extrafield = size_local_extrafield, pr_pos_local_extrafield = 0,
               pr_total_out_64 = 0, pr_crc32 = 0, pr_crc32_wait = fi_crc fi,
               pr_rest_read_compressed = 0, pr_rest_read_uncompressed = 0,
               pr_filefunc = us_filefunc s, pr_filestream = us_filestream s,
               pr_compression_method = fi_compression_method fi,
               pr_byte_before_the_zipfile = us_byte_before_the_zipfile s, pr_raw = raw\<rparr>;
          (err, p) =
            (if fi_compression_method fi = of_int Z_BZIP2ED \<and> raw = 0 then (Z_OK, p\<lparr>pr_raw := 1\<rparr>)
             else if fi_compression_method fi = of_int Z_DEFLATED \<and> raw = 0 then
               (let (err, strm) = zl_inflateInit2 Z ((pr_stream p)\<lparr>next_in := []\<rparr>) (- MAX_WBITS)
                in (err, p\<lparr>pr_stream := strm,
                          pr_stream_initialised := (if err = Z_OK then of_int Z_DEFLATED else 0)\<rparr>))
             else (Z_OK, p))
      in if err \<noteq> Z_OK then (err, s)
         else
           (let p = p\<lparr>pr_rest_read_compressed := fi_compressed_size fi,
                      pr_rest_read_uncompressed := fi_uncompressed_size fi,
                      pr_pos_in_zipfile := offset_curfile (us_cur_file_info_internal s) + SIZEZIPLOCALHEADER
                        + ucast iSizeVar,
                      pr_stream := (pr_stream p)\<lparr>next_in := []\<rparr>\<rparr>
            in (UNZ_OK, s\<lparr>us_pfile_in_zip_read := Some p, us_encrypted := 0\<rparr>)))"

definition unzOpenCurrentFile3 ::
    "'z zlib \<Rightarrow> 'z z_stream \<Rightarrow> ('w, 'z) unz64_s option \<Rightarrow> int \<Rightarrow> byte list option \<Rightarrow> sys \<Rightarrow> 'w
     \<Rightarrow> int \<times> (int \<times> int) option \<times> ('w, 'z) unz64_s option \<times> sys \<times> 'w" where
  "unzOpenCurrentFile3 Z strm0 file raw password \<sigma> w =
     (if password \<noteq> None then (UNZ_PARAMERROR, None, file, \<sigma>, w)
      else (case file of None \<Rightarrow> (UNZ_PARAMERROR, None, None, \<sigma>, w)
      | Some s \<Rightarrow>
          if \<not> us_current_file_ok s then (UNZ_PARAMERROR, None, Some s, \<sigma>, w)
          else
            (let s = (if us_pfile_in_zip_read s \<noteq> None then the (snd (unzCloseCurrentFile Z (Some s))) else s);
                 (err, iSizeVar, offset_local_extrafield, size_local_extrafield, w) =
                   unz64local_CheckCurrentFileCoherencyHeader s w
             in if err \<noteq> UNZ_OK then (UNZ_BADZIPFILE, None, Some s, \<sigma>, w)
                else
                  (let (ok, \<sigma>) = malloc sizeof_file_in_zip \<sigma> in
                   if \<not> ok then (UNZ_INTERNALERROR, None, Some s, \<sigma>, w)
                   else
                     (let (ok, \<sigma>) = malloc UNZ_BUFSIZE \<sigma> in
                      if \<not> ok then (UNZ_INTERNALERROR, None, Some s, \<sigma>, w)
                      else
                        (let ml = (sint (ucast (fi_compression_method (us_cur_file_info s)) :: uInt),
                                   unz_level (fi_flag (us_cur_file_info s)));
                             (err, s) = open_current_read Z strm0 s raw iSizeVar offset_local_extrafield
                                          size_local_extrafield
                         in (err, Some ml, Some s, \<sigma>, w)))))))"

definition unzOpenCurrentFile where
  "unzOpenCurrentFile Z strm0 file \<sigma> w =
     (let (err, ml, file, \<sigma>, w) = unzOpenCurrentFile3 Z strm0 file 0 None \<sigma> w in (err, file, \<sigma>, w))"

definition unzOpenCurrentFilePassword where
  "unzOpenCurrentFilePassword Z strm0 file password \<sigma> w =
     (let (err, ml, file, \<sigma>, w) = unzOpenCurrentFile3 Z strm0 file 0 password \<sigma> w in (err, file, \<sigma>, w))"

definition unzOpenCurrentFile2 where
  "unzOpenCurrentFile2 Z strm0 file raw \<sigma> w = unzOpenCurrentFile3 Z strm0 file raw None \<sigma> w"

definition unzGetCurrentFileZStreamPos64 :: "('w, 'z) unz64_s option \<Rightarrow> ZPOS64_T" where
  "unzGetCurrentFileZStreamPos64 file =
     (case file of None \<Rightarrow> 0
      | Some s \<Rightarrow> (case us_pfile_in_zip_read s of None \<Rightarrow> 0
          | Some p \<Rightarrow> pr_pos_in_zipfile p + pr_byte_before_the_zipfile p))"

section \<open>Reading the current entry\<close>

text \<open>
  Lines 1728-1762: refill \<open>read_buffer\<close> when it is empty. \<open>Inl\<close> is an early return.
\<close>

definition read_refill ::
    "('w, 'z) file_in_zip64_read_info_s \<Rightarrow> 'w
     \<Rightarrow> (int + ('w, 'z) file_in_zip64_read_info_s) \<times> 'w" where
  "read_refill p w =
     (if avail_in (pr_stream p) = 0 \<and> pr_rest_read_compressed p > 0 then
        (let uReadThis = (if pr_rest_read_compressed p < of_nat UNZ_BUFSIZE
                          then ucast (pr_rest_read_compressed p) else of_nat UNZ_BUFSIZE :: uInt)
         in if uReadThis = 0 then (Inl UNZ_EOF, w)
            else
              (let (r, w) = ZSEEK64 (pr_filefunc p) (pr_filestream p)
                     (pr_pos_in_zipfile p + pr_byte_before_the_zipfile p) ZLIB_FILEFUNC_SEEK_SET w
               in if r \<noteq> 0 then (Inl UNZ_ERRNO, w)
                  else
                    (let (bs, w) = ZREAD64 (pr_filefunc p) (pr_filestream p) (ucast uReadThis) w
                     in if length bs \<noteq> unat uReadThis then (Inl UNZ_ERRNO, w)
                        else (Inr (p\<lparr>pr_pos_in_zipfile := pr_pos_in_zipfile p + ucast uReadThis,
                                     pr_rest_read_compressed := pr_rest_read_compressed p - ucast uReadThis,
                                     pr_stream := (pr_stream p)\<lparr>next_in := bs\<rparr>\<rparr>), w))))
      else (Inr p, w))"

text \<open>Lines 1769-1798: the stored (or raw) case. \<open>buf\<close> is the caller's buffer.\<close>

definition read_copy ::
    "'z zlib \<Rightarrow> ('w, 'z) file_in_zip64_read_info_s \<Rightarrow> (nat \<Rightarrow> byte)
     \<Rightarrow> uInt \<times> ('w, 'z) file_in_zip64_read_info_s \<times> (nat \<Rightarrow> byte)" where
  "read_copy Z p buf =
     (let strm = pr_stream p;
          uDoCopy = (if avail_out strm < avail_in strm then avail_out strm else avail_in strm);
          bs = take uDoCopy (next_in strm)
      in (of_nat uDoCopy,
          p\<lparr>pr_total_out_64 := pr_total_out_64 p + of_nat uDoCopy,
            pr_crc32 := zl_crc32 Z (pr_crc32 p) bs,
            pr_rest_read_uncompressed := pr_rest_read_uncompressed p - of_nat uDoCopy,
            pr_stream := strm\<lparr>next_in := drop uDoCopy (next_in strm), avail_out := avail_out strm - uDoCopy,
                              next_out := next_out strm + uDoCopy, total_out := total_out strm + of_nat uDoCopy\<rparr>\<rparr>,
          buf_write (next_out strm) bs buf))"

text \<open>Lines 1846-1883: the deflated case.\<close>

definition read_inflate ::
    "'z zlib \<Rightarrow> ('w, 'z) file_in_zip64_read_info_s \<Rightarrow> (nat \<Rightarrow> byte)
     \<Rightarrow> int \<times> uInt \<times> ('w, 'z) file_in_zip64_read_info_s \<times> (nat \<Rightarrow> byte)" where
  "read_inflate Z p buf =
     (let strm = pr_stream p;
          (err, bs, strm') = zl_inflate Z strm Z_SYNC_FLUSH;
          buf = buf_write (next_out strm) bs buf;
          err = (if err \<ge> 0 \<and> msg_set strm' then Z_DATA_ERROR else err);
          uOutThis = total_out strm' - total_out strm;
          n = unat (ucast uOutThis :: uInt)
      in (err, ucast uOutThis,
          p\<lparr>pr_total_out_64 := pr_total_out_64 p + uOutThis,
            pr_crc32 := zl_crc32 Z (pr_crc32 p) (map buf [next_out strm..<next_out strm + n]),
            pr_rest_read_uncompressed := pr_rest_read_uncompressed p - uOutThis,
            pr_stream := strm'\<rparr>,
          buf))"

text \<open>
  The loop. The result is the value returned, the state and the buffer; \<open>iRead\<close> becomes an
  \<open>int\<close> when it is returned. \<open>None\<close> is a run that does not end.
\<close>

partial_function (option) read_loop ::
    "'z zlib \<Rightarrow> int \<Rightarrow> uInt \<Rightarrow> ('w, 'z) file_in_zip64_read_info_s \<Rightarrow> (nat \<Rightarrow> byte) \<Rightarrow> 'w
     \<Rightarrow> (int \<times> ('w, 'z) file_in_zip64_read_info_s \<times> (nat \<Rightarrow> byte) \<times> 'w) option" where
  "read_loop Z err iRead p buf w =
     (if avail_out (pr_stream p) > 0 then
        (case read_refill p w of
           (Inl ret, w) \<Rightarrow> Some (ret, p, buf, w)
         | (Inr p, w) \<Rightarrow>
             if pr_compression_method p = 0 \<or> pr_raw p \<noteq> 0 then
               (if avail_in (pr_stream p) = 0 \<and> pr_rest_read_compressed p = 0
                then Some (if iRead = 0 then UNZ_EOF else sint iRead, p, buf, w)
                else (let (n, p, buf) = read_copy Z p buf in read_loop Z err (iRead + n) p buf w))
             else if pr_compression_method p = of_int Z_BZIP2ED then read_loop Z err iRead p buf w
             else
               (let (err, n, p, buf) = read_inflate Z p buf;
                    iRead = iRead + n
                in if err = Z_STREAM_END then Some (if iRead = 0 then UNZ_EOF else sint iRead, p, buf, w)
                   else if err \<noteq> Z_OK then Some (err, p, buf, w)
                   else read_loop Z err iRead p buf w))
      else Some (if err = Z_OK then sint iRead else err, p, buf, w))"

text \<open>Lines 1701-1725: the window of the caller's buffer that can be filled.\<close>

definition read_window ::
    "('w, 'z) file_in_zip64_read_info_s \<Rightarrow> uInt \<Rightarrow> nat" where
  "read_window p len =
     (let n = len;
          n = (if ucast len > pr_rest_read_uncompressed p \<and> pr_raw p = 0
               then ucast (pr_rest_read_uncompressed p) else n);
          n = (if ucast len > pr_rest_read_compressed p + of_nat (avail_in (pr_stream p)) \<and> pr_raw p \<noteq> 0
               then ucast (pr_rest_read_compressed p) + of_nat (avail_in (pr_stream p)) else n)
      in unat n)"

definition unzReadCurrentFile ::
    "'z zlib \<Rightarrow> ('w, 'z) unz64_s option \<Rightarrow> (nat \<Rightarrow> byte) \<Rightarrow> uInt \<Rightarrow> 'w
     \<Rightarrow> (int \<times> ('w, 'z) unz64_s option \<times> (nat \<Rightarrow> byte) \<times> 'w) option" where
  "unzReadCurrentFile Z file buf len w =
     (case file of None \<Rightarrow> Some (UNZ_PARAMERROR, None, buf, w)
      | Some s \<Rightarrow>
          (case us_pfile_in_zip_read s of None \<Rightarrow> Some (UNZ_PARAMERROR, Some s, buf, w)
           | Some p \<Rightarrow>
               if \<not> pr_read_buffer p then Some (UNZ_END_OF_LIST_OF_FILE, Some s, buf, w)
               else if len = 0 then Some (0, Some s, buf, w)
               else
                 (let p = p\<lparr>pr_stream := (pr_stream p)\<lparr>next_out := 0, avail_out := read_window p len\<rparr>\<rparr>
                  in map_option
                       (\<lambda>(ret, p, buf, w). (ret, Some (s\<lparr>us_pfile_in_zip_read := Some p\<rparr>), buf, w))
                       (read_loop Z UNZ_OK 0 p buf w))))"

definition unztell :: "('w, 'z) unz64_s option \<Rightarrow> int" where
  "unztell file =
     (case file of None \<Rightarrow> UNZ_PARAMERROR
      | Some s \<Rightarrow> (case us_pfile_in_zip_read s of None \<Rightarrow> UNZ_PARAMERROR
          | Some p \<Rightarrow> sint (total_out (pr_stream p))))"

definition unztell64 :: "('w, 'z) unz64_s option \<Rightarrow> ZPOS64_T" where
  "unztell64 file =
     (case file of None \<Rightarrow> -1
      | Some s \<Rightarrow> (case us_pfile_in_zip_read s of None \<Rightarrow> -1 | Some p \<Rightarrow> pr_total_out_64 p))"

definition unzeof :: "('w, 'z) unz64_s option \<Rightarrow> int" where
  "unzeof file =
     (case file of None \<Rightarrow> UNZ_PARAMERROR
      | Some s \<Rightarrow> (case us_pfile_in_zip_read s of None \<Rightarrow> UNZ_PARAMERROR
          | Some p \<Rightarrow> if pr_rest_read_uncompressed p = 0 then 1 else 0))"

text \<open>
  The offset is used without \<open>byte_before_the_zipfile\<close>, and \<open>pos_local_extrafield\<close> is
  never advanced. \<open>len\<close> is the length of the buffer; the result has the bytes read into it.
\<close>

definition unzGetLocalExtrafield ::
    "('w, 'z) unz64_s option \<Rightarrow> uInt option \<Rightarrow> 'w \<Rightarrow> int \<times> byte list \<times> 'w" where
  "unzGetLocalExtrafield file buf_len w =
     (case file of None \<Rightarrow> (UNZ_PARAMERROR, [], w)
      | Some s \<Rightarrow> (case us_pfile_in_zip_read s of None \<Rightarrow> (UNZ_PARAMERROR, [], w)
          | Some p \<Rightarrow>
              (let size_to_read = ucast (pr_size_local_extrafield p) - pr_pos_local_extrafield p in
               case buf_len of None \<Rightarrow> (sint (ucast size_to_read :: uInt), [], w)
               | Some len \<Rightarrow>
                   (let read_now = (if ucast len > size_to_read then ucast size_to_read else len) in
                    if read_now = 0 then (0, [], w)
                    else
                      (let (r, w) = ZSEEK64 (pr_filefunc p) (pr_filestream p)
                             (pr_offset_local_extrafield p + pr_pos_local_extrafield p) ZLIB_FILEFUNC_SEEK_SET w
                       in if r \<noteq> 0 then (UNZ_ERRNO, [], w)
                          else
                            (let (bs, w) = ZREAD64 (pr_filefunc p) (pr_filestream p) (ucast read_now) w
                             in if length bs \<noteq> unat read_now then (UNZ_ERRNO, bs, w)
                                else (sint read_now, bs, w)))))))"

end
