(* ===== verification/UnzFormat.thy ===== *)
theory UnzFormat
  imports UnzRead ZipFormat
begin

text \<open>
  Reading what a well-formed archive holds: the directory entries, the local headers, the data
  of stored entries and the end record, as the functions of \<open>unzip.c\<close> see them.
\<close>

section \<open>Fields\<close>

text \<open>The value that is read back from a field of \<open>n\<close> bytes that was written as \<open>x\<close>.\<close>

definition field :: "nat \<Rightarrow> ZPOS64_T \<Rightarrow> ZPOS64_T" where
  "field n x = le_word (putValue_buf x n)"

lemma unat_field: "n \<le> 8 \<Longrightarrow> unat (field n x) = min (unat x) (256 ^ n - 1)"
  by (simp add: field_def le_word_putValue)

lemma field_id: "n \<le> 8 \<Longrightarrow> unat x < 256 ^ n \<Longrightarrow> field n x = x"
  by (rule word_unat_eq_iff [THEN iffD2]) (simp add: unat_field)

lemma field_of_nat:
  assumes "n \<le> 8" "k < 256 ^ n"
  shows "field n (of_nat k) = of_nat k"
proof -
  have "(256::nat) ^ n \<le> 256 ^ 8" using assms(1) by (rule power_increasing) simp
  then have "unat (of_nat k :: 64 word) = k" using assms(2) by (intro unat_of_nat_small) simp
  with assms show ?thesis by (simp add: field_id)
qed

context filefunc
begin

lemma getShort_seek:
  assumes "fetch w h = Some s" "s_rd s" "\<not> s_err s" "take 2 (drop p (s_data s)) = putValue_buf x 2"
  shows "unz64local_getShort ff h (store h (s_seek p s) w) = (UNZ_OK, field 2 x, store h (s_seek (2 + p) s) w)"
proof -
  have l: "2 \<le> length (drop p (s_data s))" using arg_cong [OF assms(4), of length] by simp
  have "sticky 2 0 (drop p (s_data s)) = putValue_buf x 2" using sticky_take [OF l] assms(4) by simp
  moreover have "s_skip 2 (s_seek p s) = s_seek (2 + p) s"
    using l by (subst s_skip_seek) (simp_all add: s_rest_def)
  ultimately show ?thesis
    using getShort_eq [OF fetch_store [OF assms(1)], of "s_seek p s"] assms(2,3)
    by (simp add: unz_get_eq s_rest_def field_def store_store)
qed

lemma getLong_seek:
  assumes "fetch w h = Some s" "s_rd s" "\<not> s_err s" "take 4 (drop p (s_data s)) = putValue_buf x 4"
  shows "unz64local_getLong ff h (store h (s_seek p s) w) = (UNZ_OK, field 4 x, store h (s_seek (4 + p) s) w)"
proof -
  have l: "4 \<le> length (drop p (s_data s))" using arg_cong [OF assms(4), of length] by simp
  have "sticky 4 0 (drop p (s_data s)) = putValue_buf x 4" using sticky_take [OF l] assms(4) by simp
  moreover have "s_skip 4 (s_seek p s) = s_seek (4 + p) s"
    using l by (subst s_skip_seek) (simp_all add: s_rest_def)
  ultimately show ?thesis
    using getLong_eq [OF fetch_store [OF assms(1)], of "s_seek p s"] assms(2,3)
    by (simp add: unz_get_eq s_rest_def field_def store_store)
qed

lemma seek_to:
  assumes "fetch w h = Some s" "p < 2 ^ 63" "x = of_nat p"
  shows "ZSEEK64 ff h x ZLIB_FILEFUNC_SEEK_SET w = (0, store h (s_seek p s) w)"
proof -
  have "unat x = p" unfolding assms(3) by (rule unat_of_nat_small) (use assms(2) in simp)
  with io_seek_set [OF assms(1), of x] assms(2) show ?thesis by simp
qed

lemma seek_by:
  assumes "fetch w h = Some s" "unat x < 2 ^ 63"
  shows "ZSEEK64 ff h x ZLIB_FILEFUNC_SEEK_CUR (store h (s_seek p s) w) = (0, store h (s_seek (p + unat x) s) w)"
  using io_seek [where whence = 1 and off = x, OF fetch_store [OF assms(1), of "s_seek p s"]] assms(2)
  by (simp add: seek_base_def sint_small store_store nat_add_distrib)

lemma read_seek:
  assumes "fetch w h = Some s" "s_rd s" "p + unat n \<le> length (s_data s)"
  shows "ZREAD64 ff h n (store h (s_seek p s) w) = (take (unat n) (drop p (s_data s)), store h (s_seek (p + unat n) s) w)"
proof -
  have "s_skip (unat n) (s_seek p s) = s_seek (p + unat n) s"
    using assms(3) by (subst s_skip_seek) (simp_all add: s_rest_def)
  then show ?thesis
    using io_read [OF fetch_store [OF assms(1)], of "s_seek p s"] assms(2) by (simp add: s_rest_def store_store)
qed

text \<open>Past the end too a reader succeeds, and only moves.\<close>

lemma getShort_any:
  assumes "fetch w h = Some s" "s_rd s" "\<not> s_err s"
  shows "\<exists>x q. unz64local_getShort ff h (store h (s_seek p s) w) = (UNZ_OK, x, store h (s_seek q s) w)"
proof -
  have "s_skip 2 (s_seek p s) = s_seek (s_pos (s_skip 2 (s_seek p s))) s" by (simp add: s_skip_def s_seek_def)
  then show ?thesis
    using getShort_eq [OF fetch_store [OF assms(1)], of "s_seek p s"] assms(2,3)
    by (metis s_seek_sel(2,4) store_store unz_get_eq(2) UNZ_OK_def ZIP_OK_def)
qed

end

section \<open>A directory entry\<close>

definition central_info ::
    "uLong \<Rightarrow> uLong \<Rightarrow> int \<Rightarrow> uLong \<Rightarrow> uLong \<Rightarrow> ZPOS64_T \<Rightarrow> ZPOS64_T \<Rightarrow> uLong \<Rightarrow> uLong
     \<Rightarrow> byte list \<Rightarrow> byte list \<Rightarrow> byte list \<Rightarrow> unz_file_info64" where
  "central_info madeby flag method dosdate crc csize usize ifa efa name extra comment =
     \<lparr>fi_version = field 2 madeby, fi_version_needed = field 2 20, fi_flag = field 2 flag,
      fi_compression_method = field 2 (of_int method), fi_dosDate = field 4 dosdate, fi_crc = field 4 crc,
      fi_compressed_size = field 4 csize, fi_uncompressed_size = field 4 usize,
      fi_size_filename = field 2 (of_nat (length name)), fi_size_file_extra = field 2 (of_nat (length extra)),
      fi_size_file_comment = field 2 (of_nat (length comment)), fi_disk_num_start = field 2 0,
      fi_internal_fa = field 2 ifa, fi_external_fa = field 4 efa,
      fi_tmu_date = unz64local_DosDateToTmuDate (field 4 dosdate)\<rparr>"

context filefunc
begin

lemma info_fixed_eq:
  fixes s :: "('w, 'z) unz64_s"
  assumes ff: "us_filefunc s = ff" "us_filestream s = h" and st: "fetch w h = Some st" "s_rd st" "\<not> s_err st"
    and p: "us_pos_in_central_dir s + us_byte_before_the_zipfile s = of_nat p" "p < 2 ^ 63"
    and d: "drop p (s_data st) = central_header mb fl m d crc cs us ifa efa off name extra comment @ r"
  shows "info_fixed s w = (UNZ_OK, central_info mb fl m d crc cs us ifa efa name extra comment,
    \<lparr>offset_curfile = field 4 off\<rparr>, store h (s_seek (46 + p) st) w)"
proof -
  have at: "drop (k + p) (s_data st) = drop k (central_header mb fl m d crc cs us ifa efa off name extra comment @ r)" for k
    using d [symmetric] by (simp add: drop_drop)
  note g = getShort_seek [OF st] getLong_seek [OF st]
  have magic: "field 4 0x02014b50 = 0x02014b50" by (rule field_id) simp_all
  have m: "info_magic s w = (UNZ_OK, store h (s_seek (4 + p) st) w)"
    using g(2) [of p "0x02014b50"] at [of 0] seek_to [OF st(1) p(2,1)]
    by (simp add: info_magic_def ff central_header_def magic Let_def del: ZLIB_FILEFUNC_SEEK_SET_def)
  have f2: "take 2 (drop (4 + p) (s_data st)) = putValue_buf mb 2"
    "take 2 (drop (6 + p) (s_data st)) = putValue_buf 20 2"
    "take 2 (drop (8 + p) (s_data st)) = putValue_buf fl 2"
    "take 2 (drop (10 + p) (s_data st)) = putValue_buf (of_int m) 2"
    "take 2 (drop (28 + p) (s_data st)) = putValue_buf (of_nat (length name)) 2"
    "take 2 (drop (30 + p) (s_data st)) = putValue_buf (of_nat (length extra)) 2"
    "take 2 (drop (32 + p) (s_data st)) = putValue_buf (of_nat (length comment)) 2"
    "take 2 (drop (34 + p) (s_data st)) = putValue_buf 0 2"
    "take 2 (drop (36 + p) (s_data st)) = putValue_buf ifa 2"
    unfolding at by (simp_all add: central_header_def)
  have f4: "take 4 (drop (12 + p) (s_data st)) = putValue_buf d 4"
    "take 4 (drop (16 + p) (s_data st)) = putValue_buf crc 4"
    "take 4 (drop (20 + p) (s_data st)) = putValue_buf cs 4"
    "take 4 (drop (24 + p) (s_data st)) = putValue_buf us 4"
    "take 4 (drop (38 + p) (s_data st)) = putValue_buf efa 4"
    "take 4 (drop (42 + p) (s_data st)) = putValue_buf off 4"
    unfolding at by (simp_all add: central_header_def)
  show ?thesis
    by (simp add: info_fixed_def ff m f2 [THEN g(1)] f4 [THEN g(2)] Let_def note_err_def central_info_def)
qed

text \<open>The pass over the extra field finds nothing and only moves the stream.\<close>

lemma info_extra_loop_any:
  fixes s :: "('w, 'z) unz64_s"
  assumes ff: "us_filefunc s = ff" "us_filestream s = h" and st: "fetch w h = Some st" "s_rd st" "\<not> s_err st"
    and small: "small_info fi fii"
  shows "\<exists>q'. info_extra_loop s n acc (UNZ_OK, fi, fii, store h (s_seek q st) w) = (UNZ_OK, fi, fii, store h (s_seek q' st) w)"
proof (induction "n - acc" arbitrary: acc q rule: less_induct)
  case less
  show ?case
  proof (cases "acc < n")
    case False
    then show ?thesis by (auto simp: info_extra_loop.simps [of s n acc])
  next
    case True
    obtain i q1 where g1: "unz64local_getShort ff h (store h (s_seek q st) w) = (UNZ_OK, i, store h (s_seek q1 st) w)"
      using getShort_any [OF st] by blast
    obtain k q2 where g2: "unz64local_getShort ff h (store h (s_seek q1 st) w) = (UNZ_OK, k, store h (s_seek q2 st) w)"
      using getShort_any [OF st] by blast
    have "unat k < 2 ^ 63" using getShort_bound [OF g2] by simp
    note sk = seek_by [OF st(1) this, of q2]
    have "\<exists>q'. info_extra_loop s n (acc + (2 + 2 + unat k)) (UNZ_OK, fi, fii, store h (s_seek v st) w)
        = (UNZ_OK, fi, fii, store h (s_seek q' st) w)" for v
      by (rule less.hyps) (use True in linarith)
    then show ?thesis using True g1 g2 sk
      by (subst info_extra_loop.simps) (simp add: Let_def ff note_err_def info_zip64_block_small [OF small])
  qed
qed

lemma info_zip64_any:
  fixes s :: "('w, 'z) unz64_s"
  assumes ff: "us_filefunc s = ff" "us_filestream s = h" and st: "fetch w h = Some st" "s_rd st" "\<not> s_err st"
    and small: "small_info fi fii" "unat (lSeek - fi_size_file_extra fi) < 2 ^ 63"
  shows "\<exists>l q'. info_zip64 s UNZ_OK lSeek fi fii (store h (s_seek q st) w) = (UNZ_OK, l, fi, fii, store h (s_seek q' st) w)"
proof (cases "fi_size_file_extra fi = 0")
  case True
  then show ?thesis by (auto simp: info_zip64_def)
next
  case False
  have "\<exists>l q1. info_seek s (lSeek - fi_size_file_extra fi) UNZ_OK (store h (s_seek q st) w) = (UNZ_OK, l, store h (s_seek q1 st) w)"
    using seek_by [OF st(1) small(2), of q] by (cases "lSeek - fi_size_file_extra fi = 0") (auto simp: info_seek_def ff)
  then obtain l q1 where i: "info_seek s (lSeek - fi_size_file_extra fi) UNZ_OK (store h (s_seek q st) w)
      = (UNZ_OK, l, store h (s_seek q1 st) w)" by blast
  show ?thesis using False i info_extra_loop_any [OF ff st small(1), of "unat (fi_size_file_extra fi)" 0 q1]
    by (auto simp: info_zip64_def)
qed

text \<open>A directory entry is read back, with or without a buffer for its name.\<close>

lemma file_info_eq:
  fixes s :: "('w, 'z) unz64_s"
  assumes ff: "us_filefunc s = ff" "us_filestream s = h" and st: "fetch w h = Some st" "s_rd st" "\<not> s_err st"
    and p: "us_pos_in_central_dir s + us_byte_before_the_zipfile s = of_nat p" "p < 2 ^ 63"
    and d: "drop p (s_data st) = central_header mb fl m d crc cs us ifa efa off name extra comment @ r"
  shows "\<exists>q. unz64local_GetCurrentFileInfoInternal s no_bufs w =
    (UNZ_OK, Some (central_info mb fl m d crc cs us ifa efa name extra comment, \<lparr>offset_curfile = field 4 off\<rparr>),
     no_bufs, store h (s_seek q st) w)"
proof -
  let ?fi = "central_info mb fl m d crc cs us ifa efa name extra comment" and ?fii = "\<lparr>offset_curfile = field 4 off\<rparr>"
  note fixed = info_fixed_eq [OF assms]
  have small: "small_info ?fi ?fii" by (rule info_fixed_small [OF fixed])
  have "unat (fi_size_filename ?fi) < 2 ^ 63" by (simp add: central_info_def unat_field)
  with info_zip64_any [OF ff st small, of "fi_size_filename ?fi + fi_size_file_extra ?fi" "46 + p"] obtain l q where
    z: "info_zip64 s UNZ_OK (fi_size_filename ?fi + fi_size_file_extra ?fi) ?fi ?fii (store h (s_seek (46 + p) st) w)
      = (UNZ_OK, l, ?fi, ?fii, store h (s_seek q st) w)" by auto
  then show ?thesis
    by (auto simp: unz64local_GetCurrentFileInfoInternal_def fixed no_bufs_def info_filename_def info_extra_def info_comment_def)
qed

lemma file_name_eq:
  fixes s :: "('w, 'z) unz64_s"
  assumes ff: "us_filefunc s = ff" "us_filestream s = h" and st: "fetch w h = Some st" "s_rd st" "\<not> s_err st"
    and p: "us_pos_in_central_dir s + us_byte_before_the_zipfile s = of_nat p" "p < 2 ^ 63"
    and d: "drop p (s_data st) = central_header mb fl m d crc cs us ifa efa off name extra comment @ r"
    and buf: "length name < length buf" "length buf < 2 ^ 16"
  shows "\<exists>q. unz64local_GetCurrentFileInfoInternal s (no_bufs\<lparr>ib_szFileName := Some buf\<rparr>) w =
    (UNZ_OK, Some (central_info mb fl m d crc cs us ifa efa name extra comment, \<lparr>offset_curfile = field 4 off\<rparr>),
     no_bufs\<lparr>ib_szFileName := Some (name @ 0 # drop (Suc (length name)) buf)\<rparr>, store h (s_seek q st) w)"
proof -
  define fi where fi: "fi = central_info mb fl m d crc cs us ifa efa name extra comment"
  let ?fii = "\<lparr>offset_curfile = field 4 off\<rparr>"
  let ?n = "of_nat (length name) :: 64 word" and ?b = "of_nat (length buf) :: 64 word"
  have fn: "fi_size_filename fi = ?n" using buf by (simp add: fi central_info_def field_of_nat)
  have un: "unat ?n = length name" "unat ?b = length buf" by (rule unat_of_nat_small, use buf in simp)+
  have lt: "?n < ?b" using un buf(1) by (simp add: word_less_nat_alt)
  note fixed = info_fixed_eq [OF ff st p d, folded fi]
  have small: "small_info fi ?fii" by (rule info_fixed_small [OF fixed])
  have buf': "buf[length name := 0] = take (length name) buf @ 0 # drop (Suc (length name)) buf"
    using buf(1) by (simp add: upd_conv_take_nth_drop)
  have dn: "drop (46 + p) (s_data st) = name @ extra @ comment @ r"
  proof -
    have "drop (46 + p) (s_data st) = drop 46 (central_header mb fl m d crc cs us ifa efa off name extra comment @ r)"
      using d [symmetric] by (simp add: drop_drop)
    then show ?thesis by (simp add: central_header_def)
  qed
  have "\<exists>q. info_filename s fi (Some buf) UNZ_OK (store h (s_seek (46 + p) st) w) =
    (UNZ_OK, 0, Some (name @ 0 # drop (Suc (length name)) buf), store h (s_seek q st) w)"
  proof (cases "name = []")
    case True
    then show ?thesis using lt un buf' by (auto simp: info_filename_def fn)
  next
    case False
    have "46 + p + unat ?n \<le> length (s_data st)"
      using arg_cong [OF dn, of length] un(1) False by (cases name) simp_all
    note rd = read_seek [OF st(1,2) this]
    have pos: "0 < ?n" "0 < ?b" using False buf(1) un by (auto simp: word_less_nat_alt)
    show ?thesis using lt un(1) rd dn pos buf(1)
      by (auto simp: info_filename_def info_read_def fn ff buf' mem_write_def)
  qed
  then obtain q0 where n: "info_filename s fi (Some buf) UNZ_OK (store h (s_seek (46 + p) st) w) =
    (UNZ_OK, 0, Some (name @ 0 # drop (Suc (length name)) buf), store h (s_seek q0 st) w)" by blast
  from info_zip64_any [OF ff st small, of "fi_size_file_extra fi" q0] obtain l q where
    z: "info_zip64 s UNZ_OK (fi_size_file_extra fi) fi ?fii (store h (s_seek q0 st) w)
      = (UNZ_OK, l, fi, ?fii, store h (s_seek q st) w)" by auto
  with n show ?thesis
    by (auto simp: unz64local_GetCurrentFileInfoInternal_def fixed no_bufs_def info_extra_def info_comment_def fi [symmetric])
qed

end

end
