(* ===== verification/UnzArchive.thy ===== *)
theory UnzArchive
  imports UnzFormat ArchiveRun
begin

text \<open>
  Reading an archive of the shape that \<open>zip.c\<close> writes, possibly behind other data: opening
  it, moving through its directory, and opening and reading its entries.
\<close>

section \<open>Positions\<close>

definition entry_info :: "zip_entry \<Rightarrow> unz_file_info64" where
  "entry_info e =
     (let nf = ze_file e in
      central_info (nf_versionMadeBy nf) (new_file_flag nf) (nf_method nf) (new_file_dosDate nf) (ze_crc e)
        (of_nat (length (ze_data e))) (ze_size e) (new_file_internal_fa nf) (new_file_external_fa nf)
        (new_file_name nf) (nf_extrafield_global nf) (new_file_comment nf))"

text \<open>Where the \<open>n\<close>-th entry lies in the archive, and its header in the directory.\<close>

definition local_pos :: "zip_entry list \<Rightarrow> nat \<Rightarrow> nat" where
  "local_pos es n = length (locals (take n es))"

definition central_pos :: "zip_entry list \<Rightarrow> nat \<Rightarrow> nat" where
  "central_pos es n = length (locals es) + length (central_dir 0 (take n es))"

lemma take_Suc_app: "n < length es \<Longrightarrow> take (Suc n) es = take n es @ [es ! n]"
  by (rule take_Suc_conv_app_nth)

lemma split_at: "n < length es \<Longrightarrow> es = take n es @ es ! n # drop (Suc n) es"
  by (simp add: id_take_nth_drop)

lemma local_pos_Suc: "n < length es \<Longrightarrow> local_pos es (Suc n) = local_pos es n + length (entry_local (es ! n))"
  by (simp add: local_pos_def take_Suc_app)

lemma length_entry_central [simp]:
  "length (entry_central off e) = 46 + length (new_file_name (ze_file e)) + length (nf_extrafield_global (ze_file e))
     + length (new_file_comment (ze_file e))"
  by (simp add: entry_central_def)

lemma central_pos_Suc:
  "n < length es \<Longrightarrow> central_pos es (Suc n) = central_pos es n + length (entry_central 0 (es ! n))"
  by (simp add: central_pos_def take_Suc_app central_dir_append)

lemma drop_local:
  assumes "n < length es"
  shows "\<exists>r. drop (length pre + local_pos es n) (pre @ archive_bytes es c) = entry_local (es ! n) @ r"
proof -
  have "locals es = locals (take n es) @ entry_local (es ! n) @ locals (drop (Suc n) es)"
    using split_at [OF assms] by (metis locals_simps(2,3))
  then show ?thesis by (simp add: archive_bytes_def local_pos_def)
qed

lemma drop_central:
  assumes "n < length es"
  shows "\<exists>r. drop (length pre + central_pos es n) (pre @ archive_bytes es c)
    = entry_central (of_nat (local_pos es n)) (es ! n) @ r"
proof -
  have "central_dir 0 es = central_dir 0 (take n es) @ central_dir (of_nat (local_pos es n)) (es ! n # drop (Suc n) es)"
    using split_at [OF assms] central_dir_append [of 0 "take n es"] by (metis add_0 local_pos_def)
  then show ?thesis by (simp add: archive_bytes_def central_pos_def)
qed

lemma drop_end:
  "drop (length pre + central_pos es (length es)) (pre @ archive_bytes es c)
    = end_of_central_dir (of_nat (length es)) (of_nat (length (central_dir 0 es))) (of_nat (length (locals es))) c"
  by (simp add: archive_bytes_def central_pos_def)

lemma length_archive: "length (archive_bytes es c) = central_pos es (length es) + 22 + length c"
  by (simp add: archive_bytes_def central_pos_def)

lemma central_pos_mono: "n \<le> length es \<Longrightarrow> central_pos es n \<le> central_pos es (length es)"
proof -
  assume "n \<le> length es"
  have "central_dir 0 es = central_dir 0 (take n es) @ central_dir (of_nat (length (locals (take n es)))) (drop n es)"
    using central_dir_append [of 0 "take n es" "drop n es"] by simp
  then have "length (central_dir 0 (take n es)) \<le> length (central_dir 0 es)" by (metis le_add1 length_append)
  then show ?thesis by (simp add: central_pos_def)
qed

lemma local_pos_le: "local_pos es n \<le> length (locals es)"
  using locals_simps(3) [of "take n es" "drop n es"] by (simp add: local_pos_def)

section \<open>An open archive\<close>

text \<open>What an archive has to satisfy: entries as they are written, and sizes below the ZIP64 limits.\<close>

definition archive_ok :: "byte list \<Rightarrow> zip_entry list \<Rightarrow> byte list \<Rightarrow> bool" where
  "archive_ok pre es c \<longleftrightarrow> (\<forall>e \<in> set es. nf_ok (ze_file e) \<and> length (ze_data e) < 0xffffffff \<and> ze_size e < 0xffffffff)
     \<and> length es < 0xffff \<and> length c < 0xffff - 22 \<and> length (locals es) < 0xffffffff
     \<and> length (central_dir 0 es) < 0xffffffff \<and> length (pre @ archive_bytes es c) < 2 ^ 63"

definition opened ::
    "'w zlib_filefunc64_32_def \<Rightarrow> voidpf \<Rightarrow> byte list \<Rightarrow> zip_entry list \<Rightarrow> byte list \<Rightarrow> ('w, 'z) unz64_s \<Rightarrow> bool" where
  "opened ff h pre es c s \<longleftrightarrow> us_filefunc s = ff \<and> us_filestream s = h
     \<and> us_gi s = \<lparr>gi_number_entry = of_nat (length es), gi_size_comment = of_nat (length c)\<rparr>
     \<and> us_byte_before_the_zipfile s = of_nat (length pre)
     \<and> us_central_pos s = of_nat (length pre + central_pos es (length es))
     \<and> us_offset_central_dir s = of_nat (length (locals es))"

text \<open>The current entry is the \<open>n\<close>-th.\<close>

definition at_entry :: "zip_entry list \<Rightarrow> nat \<Rightarrow> ('w, 'z) unz64_s \<Rightarrow> bool" where
  "at_entry es n s \<longleftrightarrow> n < length es \<and> us_current_file_ok s \<and> us_num_file s = of_nat n
     \<and> us_pos_in_central_dir s = of_nat (central_pos es n) \<and> us_cur_file_info s = entry_info (es ! n)
     \<and> us_cur_file_info_internal s = \<lparr>offset_curfile = field 4 (of_nat (local_pos es n))\<rparr>"

text \<open>Moving to a header in the directory.\<close>

definition moved :: "zip_entry list \<Rightarrow> nat \<Rightarrow> ('w, 'z) unz64_s \<Rightarrow> ('w, 'z) unz64_s" where
  "moved es n s = s\<lparr>us_pos_in_central_dir := of_nat (central_pos es n), us_num_file := of_nat n,
     us_cur_file_info := entry_info (es ! n),
     us_cur_file_info_internal := \<lparr>offset_curfile = field 4 (of_nat (local_pos es n))\<rparr>, us_current_file_ok := True\<rparr>"

lemma moved_simps: "n < length es \<Longrightarrow> at_entry es n (moved es n s)" "opened ff h pre es c (moved es n s) = opened ff h pre es c s"
  by (simp_all add: at_entry_def opened_def moved_def)

context filefunc
begin

lemma refresh_eq:
  fixes s :: "('w, 'z) unz64_s"
  assumes op: "opened ff h pre es c s" and st: "fetch w h = Some st" "s_rd st" "\<not> s_err st"
    and d: "s_data st = pre @ archive_bytes es c" "length (s_data st) < 2 ^ 63" and n: "n < length es"
  shows "\<exists>q. refresh_current (s\<lparr>us_pos_in_central_dir := of_nat (central_pos es n), us_num_file := of_nat n\<rparr>) w
    = (UNZ_OK, moved es n s, store h (s_seek q st) w)"
proof -
  let ?s = "s\<lparr>us_pos_in_central_dir := of_nat (central_pos es n), us_num_file := of_nat n\<rparr>"
  let ?p = "length pre + central_pos es n"
  obtain r where r: "drop ?p (s_data st) = entry_central (of_nat (local_pos es n)) (es ! n) @ r"
    using drop_central [OF n, of pre c] d(1) by auto
  have p: "us_pos_in_central_dir ?s + us_byte_before_the_zipfile ?s = of_nat ?p"
    using op by (simp add: opened_def)
  have "?p < 2 ^ 63" using d central_pos_mono [of n es] n length_archive [of es c] by simp
  moreover have "us_filefunc ?s = ff" "us_filestream ?s = h" using op by (simp_all add: opened_def)
  ultimately obtain q where "unz64local_GetCurrentFileInfoInternal ?s no_bufs w =
    (UNZ_OK, Some (entry_info (es ! n), \<lparr>offset_curfile = field 4 (of_nat (local_pos es n))\<rparr>),
     no_bufs, store h (s_seek q st) w)"
    using file_info_eq [OF _ _ st p _ r [unfolded entry_central_def dir_header_def]] by (auto simp: entry_info_def Let_def)
  then show ?thesis by (intro exI [of _ q]) (simp add: refresh_current_def moved_def)
qed

lemma go_first:
  fixes s :: "('w, 'z) unz64_s"
  assumes "opened ff h pre es c s" "fetch w h = Some st" "s_rd st" "\<not> s_err st"
    "s_data st = pre @ archive_bytes es c" "length (s_data st) < 2 ^ 63" "es \<noteq> []"
  shows "\<exists>q. unzGoToFirstFile_s s w = (UNZ_OK, moved es 0 s, store h (s_seek q st) w)"
proof -
  have "us_offset_central_dir s = of_nat (central_pos es 0)"
    using assms(1) by (simp add: opened_def central_pos_def)
  with refresh_eq [OF assms(1-6), of 0] assms(7) show ?thesis by (simp add: unzGoToFirstFile_s_def)
qed

lemma nf_ok_sizes:
  assumes "nf_ok (ze_file e)"
  shows "fi_size_filename (entry_info e) = of_nat (length (new_file_name (ze_file e)))"
    "fi_size_file_extra (entry_info e) = of_nat (length (nf_extrafield_global (ze_file e)))"
    "fi_size_file_comment (entry_info e) = of_nat (length (new_file_comment (ze_file e)))"
  using assms by (simp_all add: entry_info_def central_info_def nf_ok_def field_of_nat Let_def)

lemma go_next:
  fixes s :: "('w, 'z) unz64_s"
  assumes op: "opened ff h pre es c s" and st: "fetch w h = Some st" "s_rd st" "\<not> s_err st"
    and d: "s_data st = pre @ archive_bytes es c" and ok: "archive_ok pre es c" and at: "at_entry es n s"
  shows "\<exists>q. unzGoToNextFile_s s w =
    (if Suc n = length es then (UNZ_END_OF_LIST_OF_FILE, s, store h (s_seek (s_pos st) st) w)
     else (UNZ_OK, moved es (Suc n) s, store h (s_seek q st) w))"
proof -
  have n: "n < length es" "us_current_file_ok s" "us_num_file s = of_nat n"
    "us_pos_in_central_dir s = of_nat (central_pos es n)" "us_cur_file_info s = entry_info (es ! n)"
    using at by (simp_all add: at_entry_def)
  have es: "length es < 0xffff" and nf: "nf_ok (ze_file (es ! n))" using ok n(1) by (auto simp: archive_ok_def)
  have u: "unat (of_nat (length es) :: 64 word) = length es" "unat (of_nat (Suc n) :: 64 word) = Suc n"
    by (rule unat_of_nat_small, use es n(1) in simp)+
  have gi: "gi_number_entry (us_gi s) = of_nat (length es)" using op by (simp add: opened_def)
  have "us_num_file s + 1 = of_nat (Suc n)" using n(3) by simp
  then have eq: "us_num_file s + 1 = gi_number_entry (us_gi s) \<longleftrightarrow> Suc n = length es"
    unfolding gi word_unat_eq_iff by (simp only: u)
  have "unat (0xffff :: 64 word) = 0xffff" by simp
  then have ne: "gi_number_entry (us_gi s) \<noteq> 0xffff"
    unfolding gi word_unat_eq_iff using es u(1) by linarith
  show ?thesis
  proof (cases "Suc n = length es")
    case True
    have "store h (s_seek (s_pos st) st) w = w" using store_fetch [OF st(1)] by (simp add: s_seek_def)
    with True eq ne n(2) show ?thesis by (simp add: unzGoToNextFile_s_def)
  next
    case False
    have "us_pos_in_central_dir s + (SIZECENTRALDIRITEM + fi_size_filename (us_cur_file_info s)
        + fi_size_file_extra (us_cur_file_info s) + fi_size_file_comment (us_cur_file_info s)) = of_nat (central_pos es (Suc n))"
      by (simp add: n(4,5) nf_ok_sizes [OF nf] central_pos_Suc [OF n(1)] add.assoc)
    moreover have "us_num_file s + 1 = of_nat (Suc n)" using n(3) by simp
    moreover have "length (s_data st) < 2 ^ 63" "Suc n < length es" using ok d False n(1) by (simp_all add: archive_ok_def)
    note refresh_eq [OF op st d this]
    ultimately show ?thesis using False eq ne n(2) by (simp add: unzGoToNextFile_s_def Let_def add.commute)
  qed
qed

text \<open>The end record, and opening the archive it belongs to.\<close>

lemma plain_record_eq:
  assumes st: "fetch w h = Some st" "s_rd st" "\<not> s_err st" and p: "0 < p" "p < 2 ^ 63"
    and d: "drop p (s_data st) = end_of_central_dir entries size_cd off comment"
  shows "unz_plain_record ff h (of_nat p) w =
    (UNZ_OK, \<lparr>ue_gi = \<lparr>gi_number_entry = field 2 entries, gi_size_comment = field 2 (of_nat (length comment))\<rparr>,
       ue_size_central_dir = field 4 size_cd, ue_offset_central_dir = field 4 off\<rparr>, store h (s_seek (22 + p) st) w)"
proof -
  have "unat (of_nat p :: 64 word) = p" by (rule unat_of_nat_small) (use p in simp)
  then have ne: "(of_nat p :: 64 word) \<noteq> 0" using p(1) by (auto simp: unat_eq_0 [symmetric])
  have at: "drop (k + p) (s_data st) = drop k (end_of_central_dir entries size_cd off comment)" for k
    using d [symmetric] by (simp add: drop_drop)
  have f2: "take 2 (drop (4 + p) (s_data st)) = putValue_buf 0 2"
    "take 2 (drop (6 + p) (s_data st)) = putValue_buf 0 2"
    "take 2 (drop (8 + p) (s_data st)) = putValue_buf entries 2"
    "take 2 (drop (10 + p) (s_data st)) = putValue_buf entries 2"
    "take 2 (drop (20 + p) (s_data st)) = putValue_buf (of_nat (length comment)) 2"
    unfolding at by (simp_all add: end_of_central_dir_def)
  have f4: "take 4 (drop p (s_data st)) = putValue_buf 0x06054b50 4"
    "take 4 (drop (12 + p) (s_data st)) = putValue_buf size_cd 4"
    "take 4 (drop (16 + p) (s_data st)) = putValue_buf off 4"
    using at [of 0] at [of 12] at [of 16] by (simp_all add: end_of_central_dir_def)
  have z: "field 2 0 = 0" by (rule field_id) simp_all
  show ?thesis
    by (simp add: unz_plain_record_def ne seek_to [OF st(1) p(2) refl] f2 [THEN getShort_seek [OF st]]
        f4 [THEN getLong_seek [OF st]] z Let_def note_err_def del: ZLIB_FILEFUNC_SEEK_SET_def)
qed

lemma search_ends:
  assumes st: "fetch w h = Some st" "s_rd st" "length (s_data st) < 2 ^ 63" and mt: "malloc_total \<sigma>"
  shows "\<exists>\<sigma>' q. search_signature ff h magic \<sigma> w =
    (last_sig magic (s_data st) (min (length (s_data st)) 0xffff), \<sigma>', store h (s_seek q st) w) \<and> malloc_total \<sigma>'"
proof -
  obtain \<sigma>' where "malloc 1028 \<sigma> = (True, \<sigma>')" "malloc_total \<sigma>'" using malloc_total_malloc [OF mt] by blast
  with search_signature_eq [OF st, of \<sigma> \<sigma>' magic] show ?thesis by blast
qed

lemma open_eq:
  assumes op: "ZOPEN64 ff path (ZLIB_FILEFUNC_MODE_READ OR ZLIB_FILEFUNC_MODE_EXISTING) w0 = (h, w)" "h \<noteq> NULL"
    and st: "fetch w h = Some st" "s_rd st" "\<not> s_err st"
    and d: "s_data st = pre @ archive_bytes es c" and ok: "archive_ok pre es c" "es \<noteq> []" and mt: "malloc_total \<sigma>"
    and found: "last_sig sig_zip64_locator (s_data st) (min (length (s_data st)) 0xffff) = 0"
      "last_sig sig_end_of_central_dir (s_data st) (min (length (s_data st)) 0xffff) = length pre + central_pos es (length es)"
  shows "\<exists>(s :: ('w, 'z) unz64_s) \<sigma>' q. unzOpenInternal_ff fi0 fii0 ff path is64 \<sigma> w0 = (Some s, \<sigma>', store h (s_seek q st) w)
    \<and> malloc_total \<sigma>' \<and> opened ff h pre es c s \<and> at_entry es 0 s \<and> us_pfile_in_zip_read s = None"
proof -
  let ?p = "length pre + central_pos es (length es)"
  have len: "length (s_data st) < 2 ^ 63" "length es < 0xffff" "length c < 0xffff" "length (locals es) < 0xffffffff"
    "length (central_dir 0 es) < 0xffffffff"
    using ok d by (simp_all add: archive_ok_def)
  have p: "?p < 2 ^ 63" using len(1) d length_archive [of es c] by simp
  have p0: "0 < ?p" using ok(2) by (cases es) (simp_all add: central_pos_def)
  obtain \<sigma>1 q1 where s1: "search_signature ff h sig_zip64_locator \<sigma> w = (0, \<sigma>1, store h (s_seek q1 st) w)" "malloc_total \<sigma>1"
    using search_ends [OF st(1,2) len(1) mt, of sig_zip64_locator] found(1) by auto
  let ?w1 = "store h (s_seek q1 st) w"
  have f1: "fetch ?w1 h = Some (s_seek q1 st)" by (rule fetch_store [OF st(1)])
  obtain \<sigma>2 q2 where s2: "search_signature ff h sig_end_of_central_dir \<sigma>1 ?w1 = (?p, \<sigma>2, store h (s_seek q2 st) w)" "malloc_total \<sigma>2"
    using search_ends [OF f1 _ _ s1(2), of sig_end_of_central_dir] st(2) len(1) found(2) by (auto simp: store_store)
  let ?w2 = "store h (s_seek q2 st) w"
  have f2: "fetch ?w2 h = Some (s_seek q2 st)" by (rule fetch_store [OF st(1)])
  have dp: "drop ?p (s_data (s_seek q2 st)) = end_of_central_dir (of_nat (length es)) (of_nat (length (central_dir 0 es)))
      (of_nat (length (locals es))) c" using drop_end [of pre es c] d by simp
  have rec: "unz_plain_record ff h (of_nat ?p) ?w2 = (UNZ_OK,
      \<lparr>ue_gi = \<lparr>gi_number_entry = of_nat (length es), gi_size_comment = of_nat (length c)\<rparr>,
       ue_size_central_dir = of_nat (length (central_dir 0 es)), ue_offset_central_dir = of_nat (length (locals es))\<rparr>,
      store h (s_seek (22 + ?p) st) w)"
    using plain_record_eq [OF f2 _ _ p0 p dp] st(2,3) len
    by (simp add: field_of_nat store_store del: of_nat_add)
  let ?w3 = "store h (s_seek (22 + ?p) st) w"
  have f3: "fetch ?w3 h = Some (s_seek (22 + ?p) st)" by (rule fetch_store [OF st(1)])
  let ?k = "of_nat (length (locals es)) + of_nat (length (central_dir 0 es)) :: 64 word"
  have k: "?k = of_nat (central_pos es (length es))" by (simp add: central_pos_def)
  have "unat (of_nat ?p :: 64 word) = ?p" "unat (of_nat (central_pos es (length es)) :: 64 word) = central_pos es (length es)"
    by (rule unat_of_nat_small, use p in simp)+
  then have before: "\<not> of_nat ?p < ?k" "of_nat ?p - ?k = of_nat (length pre)"
    unfolding k by (simp_all add: word_less_nat_alt)
  obtain \<sigma>3 where m: "malloc sizeof_unz64_s \<sigma>2 = (True, \<sigma>3)" "malloc_total \<sigma>3" using malloc_total_malloc [OF s2(2)] by blast
  let ?us = "\<lparr>us_filefunc = ff, us_is64bitOpenFunction = is64, us_filestream = h,
     us_gi = \<lparr>gi_number_entry = of_nat (length es), gi_size_comment = of_nat (length c)\<rparr>,
     us_byte_before_the_zipfile = of_nat (length pre), us_num_file = 0, us_pos_in_central_dir = 0,
     us_current_file_ok = False, us_central_pos = of_nat ?p, us_size_central_dir = of_nat (length (central_dir 0 es)),
     us_offset_central_dir = of_nat (length (locals es)), us_cur_file_info = fi0, us_cur_file_info_internal = fii0,
     us_pfile_in_zip_read = None, us_encrypted = 0, us_isZip64 = 0\<rparr> :: ('w, 'z) unz64_s"
  have op1: "opened ff h pre es c ?us" by (simp add: opened_def)
  obtain q4 where go: "unzGoToFirstFile_s ?us ?w3 = (UNZ_OK, moved es 0 ?us, store h (s_seek q4 st) w)"
    using go_first [OF op1 f3 _ _ _ _ ok(2)] st(2,3) d len(1) by (auto simp: store_store)
  have "unzOpenInternal_ff fi0 fii0 ff path is64 \<sigma> w0 = (Some (moved es 0 ?us), \<sigma>3, store h (s_seek q4 st) w)"
    using op s1(1) s2(1) rec before m(1) go
    by (simp add: unzOpenInternal_ff_def unz64local_SearchCentralDir64_def unz64local_SearchCentralDir_def
        Let_def del: of_nat_add)
  moreover have "us_pfile_in_zip_read (moved es 0 ?us) = None" by (simp add: moved_def)
  moreover have "at_entry es 0 (moved es 0 ?us)" using ok(2) by (intro moved_simps) simp
  moreover have "opened ff h pre es c (moved es 0 ?us)" using op1 by (simp only: moved_simps)
  ultimately show ?thesis using m(2) by blast
qed

end

end
