(* ===== verification/UnzData.thy ===== *)
theory UnzData
  imports UnzArchive
begin

text \<open>
  Reading the data of an entry: the check of its local header, opening it, and the copying loop
  of \<open>unzReadCurrentFile\<close> for an entry that is stored or read raw.
\<close>

section \<open>The local header agrees with the directory\<close>

context filefunc
begin

lemma coherency_eq:
  fixes s :: "('w, 'z) unz64_s"
  assumes op: "opened ff h pre es c s" and at: "at_entry es n s" and st: "fetch w h = Some st" "s_rd st" "\<not> s_err st"
    and d: "s_data st = pre @ archive_bytes es c" and ok: "archive_ok pre es c" and e: "e = es ! n"
  shows "\<exists>q. unz64local_CheckCurrentFileCoherencyHeader s w =
    (UNZ_OK, of_nat (length (new_file_name (ze_file e)) + length (nf_extrafield_local (ze_file e))),
     of_nat (local_pos es n + 30 + length (new_file_name (ze_file e))),
     of_nat (length (nf_extrafield_local (ze_file e))), store h (s_seek q st) w)"
proof -
  let ?nf = "ze_file e" and ?p = "length pre + local_pos es n"
  have n: "n < length es" and info: "us_cur_file_info s = entry_info e"
    and off: "us_cur_file_info_internal s = \<lparr>offset_curfile = field 4 (of_nat (local_pos es n))\<rparr>"
    using at e by (simp_all add: at_entry_def)
  have nf: "nf_ok ?nf" and lp: "length (locals es) < 0xffffffff" using ok n e by (auto simp: archive_ok_def)
  have ff: "us_filefunc s = ff" "us_filestream s = h" "us_byte_before_the_zipfile s = of_nat (length pre)"
    using op by (simp_all add: opened_def)
  have lp': "local_pos es n < 256 ^ 4" using lp local_pos_le [of es n] by simp
  have off': "field 4 (of_nat (local_pos es n)) = of_nat (local_pos es n)" using lp' by (intro field_of_nat) simp_all
  obtain r where r: "drop ?p (s_data st) = entry_local e @ r" using drop_local [OF n, of pre c] d e by auto
  have at: "drop (k + ?p) (s_data st) = drop k (entry_header ?nf (ze_crc e) (of_nat (length (ze_data e))) (ze_size e) @ ze_data e @ r)" for k
    using drop_drop [of k ?p "s_data st", symmetric] r by (simp only: entry_local_def append_assoc)
  have f2: "take 2 (drop (4 + ?p) (s_data st)) = putValue_buf 20 2"
    "take 2 (drop (6 + ?p) (s_data st)) = putValue_buf (new_file_flag ?nf) 2"
    "take 2 (drop (8 + ?p) (s_data st)) = putValue_buf (of_int (nf_method ?nf)) 2"
    "take 2 (drop (26 + ?p) (s_data st)) = putValue_buf (of_nat (length (new_file_name ?nf))) 2"
    "take 2 (drop (28 + ?p) (s_data st)) = putValue_buf (of_nat (length (nf_extrafield_local ?nf))) 2"
    unfolding at by (simp_all add: entry_header_def local_header_def)
  have f4: "take 4 (drop ?p (s_data st)) = putValue_buf 0x04034b50 4"
    "take 4 (drop (10 + ?p) (s_data st)) = putValue_buf (new_file_dosDate ?nf) 4"
    "take 4 (drop (14 + ?p) (s_data st)) = putValue_buf (ze_crc e) 4"
    "take 4 (drop (18 + ?p) (s_data st)) = putValue_buf (of_nat (length (ze_data e))) 4"
    "take 4 (drop (22 + ?p) (s_data st)) = putValue_buf (ze_size e) 4"
    using at [of 0] at [of 10] at [of 14] at [of 18] at [of 22] by (simp_all add: entry_header_def local_header_def)
  have fi: "fi_compression_method (entry_info e) = field 2 (of_int (nf_method ?nf))" "fi_crc (entry_info e) = field 4 (ze_crc e)"
    "fi_compressed_size (entry_info e) = field 4 (of_nat (length (ze_data e)))"
    "fi_uncompressed_size (entry_info e) = field 4 (ze_size e)"
    "fi_size_filename (entry_info e) = field 2 (of_nat (length (new_file_name ?nf)))"
    by (simp_all add: entry_info_def central_info_def Let_def)
  have m: "field 2 (of_int (nf_method ?nf)) = 0 \<or> field 2 (of_int (nf_method ?nf)) = 8"
    using nf field_of_nat [of 2 0] field_of_nat [of 2 8] by (auto simp: nf_ok_def)
  have magic: "field 4 0x04034b50 = 0x04034b50" by (rule field_id) simp_all
  have sz: "field 2 (of_nat (length (new_file_name ?nf))) = of_nat (length (new_file_name ?nf))"
    "field 2 (of_nat (length (nf_extrafield_local ?nf))) = of_nat (length (nf_extrafield_local ?nf))"
    using nf by (simp_all add: field_of_nat nf_ok_def)
  have uc: "(ucast (of_nat k :: 64 word) :: 32 word) = of_nat k" for k by transfer (simp add: take_bit_of_nat)
  have "?p < 2 ^ 63" using d ok local_pos_le [of es n] by (simp add: archive_ok_def archive_bytes_def)
  then have sk: "ZSEEK64 ff h (of_nat (local_pos es n) + of_nat (length pre)) ZLIB_FILEFUNC_SEEK_SET w = (0, store h (s_seek ?p st) w)"
    using seek_to [OF st(1), of ?p] by (simp add: add.commute)
  show ?thesis
    using m unfolding unz64local_CheckCurrentFileCoherencyHeader_def
    by (auto simp: ff info off off' sk f2 [THEN getShort_seek [OF st]] f4 [THEN getLong_seek [OF st]] magic fi sz uc
        note_err_def Let_def simp del: ZLIB_FILEFUNC_SEEK_SET_def)
qed

end

section \<open>Copying the data\<close>

text \<open>
  The data that is still to be delivered, in a file of contents \<open>d\<close>: what is in the read
  buffer, and what is left of the entry in the file.
\<close>

definition data_pos :: "('w, 'z) file_in_zip64_read_info_s \<Rightarrow> nat" where
  "data_pos p = unat (pr_pos_in_zipfile p + pr_byte_before_the_zipfile p)"

definition source :: "byte list \<Rightarrow> ('w, 'z) file_in_zip64_read_info_s \<Rightarrow> byte list" where
  "source d p = next_in (pr_stream p) @ take (unat (pr_rest_read_compressed p)) (drop (data_pos p) d)"

definition reader_ok ::
    "'w zlib_filefunc64_32_def \<Rightarrow> voidpf \<Rightarrow> byte list \<Rightarrow> ('w, 'z) file_in_zip64_read_info_s \<Rightarrow> bool" where
  "reader_ok ff h d p \<longleftrightarrow> pr_filefunc p = ff \<and> pr_filestream p = h \<and> pr_read_buffer p
     \<and> (pr_compression_method p = 0 \<or> pr_raw p \<noteq> 0)
     \<and> data_pos p + unat (pr_rest_read_compressed p) \<le> length d"

text \<open>The same for any way of reading.\<close>

definition reader_at ::
    "'w zlib_filefunc64_32_def \<Rightarrow> voidpf \<Rightarrow> byte list \<Rightarrow> ('w, 'z) file_in_zip64_read_info_s \<Rightarrow> bool" where
  "reader_at ff h d p \<longleftrightarrow> pr_filefunc p = ff \<and> pr_filestream p = h \<and> pr_read_buffer p
     \<and> data_pos p + unat (pr_rest_read_compressed p) \<le> length d"

lemma reader_ok_at: "reader_ok ff h d p \<longleftrightarrow> reader_at ff h d p \<and> (pr_compression_method p = 0 \<or> pr_raw p \<noteq> 0)"
  by (auto simp: reader_ok_def reader_at_def)

text \<open>What filling the buffer leaves alone.\<close>

definition refilled ::
    "('w, 'z) file_in_zip64_read_info_s \<Rightarrow> ('w, 'z) file_in_zip64_read_info_s \<Rightarrow> bool" where
  "refilled p p' \<longleftrightarrow> avail_out (pr_stream p') = avail_out (pr_stream p) \<and> next_out (pr_stream p') = next_out (pr_stream p)
     \<and> pr_crc32 p' = pr_crc32 p \<and> pr_crc32_wait p' = pr_crc32_wait p \<and> pr_raw p' = pr_raw p
     \<and> pr_compression_method p' = pr_compression_method p
     \<and> pr_rest_read_uncompressed p' = pr_rest_read_uncompressed p \<and> pr_total_out_64 p' = pr_total_out_64 p
     \<and> pr_stream_initialised p' = pr_stream_initialised p"

lemma length_source: "reader_ok ff h d p \<Longrightarrow> length (source d p) = avail_in (pr_stream p) + unat (pr_rest_read_compressed p)"
  by (auto simp: source_def reader_ok_def)

lemma buf_write_append: "buf_write (n + length xs) ys (buf_write n xs f) = buf_write n (xs @ ys) f"
  by (rule ext) (auto simp: buf_write_def nth_append)

context filefunc
begin

lemma read_refill_at:
  fixes p :: "('w, 'z) file_in_zip64_read_info_s"
  assumes ok: "reader_at ff h (s_data st) p" and st: "fetch w h = Some st" "s_rd st" "length (s_data st) < 2 ^ 63"
    and ne: "source (s_data st) p \<noteq> []"
  shows "\<exists>p' q. read_refill p w = (Inr p', store h (s_seek q st) w) \<and> reader_at ff h (s_data st) p'
    \<and> source (s_data st) p' = source (s_data st) p \<and> next_in (pr_stream p') \<noteq> [] \<and> refilled p p'
    \<and> pr_stream p' = (pr_stream p)\<lparr>next_in := next_in (pr_stream p')\<rparr>"
proof (cases "next_in (pr_stream p) = []")
  case False
  have "store h (s_seek (s_pos st) st) w = w" using store_fetch [OF st(1)] by (simp add: s_seek_def)
  moreover have "refilled p p" by (simp add: refilled_def)
  ultimately show ?thesis using False ok
    by (intro exI [of _ p] exI [of _ "s_pos st"]) (simp add: read_refill_def)
next
  case True
  let ?R = "pr_rest_read_compressed p" and ?P = "data_pos p" and ?d = "s_data st"
  have R: "0 < unat ?R" using ne True ok by (auto simp: source_def)
  then have Rpos: "0 < ?R" by (simp add: word_less_nat_alt)
  have fit: "?P + unat ?R \<le> length ?d" using ok by (simp add: reader_at_def)
  define u :: uInt where "u = (if ?R < of_nat UNZ_BUFSIZE then ucast ?R else of_nat UNZ_BUFSIZE)"
  let ?k = "min (unat ?R) 16384"
  have u: "unat u = ?k"
  proof (cases "?R < of_nat UNZ_BUFSIZE")
    case True
    then have "unat ?R < 16384" by (simp add: word_less_nat_alt)
    then show ?thesis using True by (simp add: u_def unsigned_ucast_eq take_bit_nat_eq_self)
  next
    case False
    then have "16384 \<le> unat ?R" by (simp add: word_less_nat_alt)
    then show ?thesis using False by (simp add: u_def)
  qed
  have u64: "unat (ucast u :: 64 word) = ?k" using u by (simp add: unsigned_ucast_eq take_bit_nat_eq_self)
  have k0: "0 < ?k" using R by simp
  have une: "u \<noteq> 0" using u k0 by auto
  have pos: "pr_pos_in_zipfile p + pr_byte_before_the_zipfile p = of_nat ?P" by (simp add: data_pos_def)
  have "?P < 2 ^ 63" using fit R st(3) by linarith
  note sk = seek_to [OF st(1) this pos]
  have "?P + unat (ucast u :: 64 word) \<le> length ?d" unfolding u64 using fit by simp
  note rd = read_seek [OF st(1,2) this, unfolded u64]
  let ?bs = "take ?k (drop ?P ?d)"
  let ?p = "p\<lparr>pr_pos_in_zipfile := pr_pos_in_zipfile p + ucast u, pr_rest_read_compressed := ?R - ucast u,
      pr_stream := (pr_stream p)\<lparr>next_in := ?bs\<rparr>\<rparr>"
  have lb: "length ?bs = ?k" using fit by simp
  have rf: "read_refill p w = (Inr ?p, store h (s_seek (?P + ?k) st) w)"
    unfolding read_refill_def Let_def u_def [symmetric]
    using True Rpos une ok by (simp add: reader_at_def sk rd u lb del: ZLIB_FILEFUNC_SEEK_SET_def length_take length_drop)
  have cu: "(ucast u :: 64 word) = of_nat ?k" unfolding word_unat_eq_iff u64 by (rule unat_of_nat_small [symmetric]) simp
  have P': "data_pos ?p = ?P + ?k"
  proof -
    have "data_pos ?p = unat ((pr_pos_in_zipfile p + pr_byte_before_the_zipfile p) + ucast u)"
      by (simp add: data_pos_def algebra_simps)
    also have "\<dots> = unat (of_nat (?P + ?k) :: 64 word)" by (simp add: pos cu)
    also have "\<dots> = ?P + ?k" by (rule unat_of_nat_small) (use fit st(3) in simp)
    finally show ?thesis .
  qed
  have R': "unat (?R - ucast u) = unat ?R - ?k"
    using u64 by (subst unat_sub) (simp_all add: word_le_nat_alt)
  have "reader_at ff h ?d ?p" using ok fit P' R' by (simp add: reader_at_def)
  moreover have "source ?d ?p = source ?d p"
    using True take_add [of ?k "unat ?R - ?k" "drop ?P ?d"] by (simp add: source_def P' R' add.commute)
  moreover have "?bs \<noteq> []" using lb k0 by (metis length_0_conv not_less_zero)
  moreover have "refilled p ?p" by (simp add: refilled_def)
  ultimately show ?thesis using rf
    by (intro exI [of _ ?p] exI [of _ "?P + ?k"]) (simp del: drop_eq_Nil take_eq_Nil)
qed

lemma read_refill_eq:
  fixes p :: "('w, 'z) file_in_zip64_read_info_s"
  assumes "reader_ok ff h (s_data st) p" "fetch w h = Some st" "s_rd st" "length (s_data st) < 2 ^ 63"
    "source (s_data st) p \<noteq> []"
  shows "\<exists>p' q. read_refill p w = (Inr p', store h (s_seek q st) w) \<and> reader_ok ff h (s_data st) p'
    \<and> source (s_data st) p' = source (s_data st) p \<and> next_in (pr_stream p') \<noteq> [] \<and> refilled p p'"
proof -
  have "reader_at ff h (s_data st) p" using assms(1) by (simp add: reader_ok_at)
  from read_refill_at [OF this assms(2-5)] assms(1) show ?thesis by (fastforce simp: reader_ok_at refilled_def)
qed

end

text \<open>What delivering the bytes \<open>bs\<close> does to the counters of the entry.\<close>

definition delivered ::
    "'z zlib \<Rightarrow> byte list \<Rightarrow> ('w, 'z) file_in_zip64_read_info_s \<Rightarrow> ('w, 'z) file_in_zip64_read_info_s \<Rightarrow> bool" where
  "delivered Z bs p p' \<longleftrightarrow> pr_crc32 p' = zl_crc32 Z (pr_crc32 p) bs
     \<and> pr_rest_read_uncompressed p' = pr_rest_read_uncompressed p - of_nat (length bs)
     \<and> pr_total_out_64 p' = pr_total_out_64 p + of_nat (length bs)
     \<and> pr_crc32_wait p' = pr_crc32_wait p \<and> pr_raw p' = pr_raw p \<and> pr_compression_method p' = pr_compression_method p
     \<and> pr_stream_initialised p' = pr_stream_initialised p"

lemma delivered_none: "crc32_streams Z \<Longrightarrow> delivered Z [] p p"
  by (simp add: delivered_def crc32_streams_def)

lemma delivered_append:
  "crc32_streams Z \<Longrightarrow> delivered Z xs p q \<Longrightarrow> delivered Z ys q r \<Longrightarrow> delivered Z (xs @ ys) p r"
  by (simp add: delivered_def crc32_streams_def diff_diff_eq add.assoc)

lemma refilled_delivered: "refilled p q \<Longrightarrow> delivered Z bs q r \<Longrightarrow> delivered Z bs p r"
  by (simp add: delivered_def refilled_def)

text \<open>One round of the copying branch.\<close>

lemma read_copy_eq:
  fixes p :: "('w, 'z) file_in_zip64_read_info_s"
  assumes ok: "reader_ok ff h d p" and k: "k = min (avail_out (pr_stream p)) (avail_in (pr_stream p))"
  shows "\<exists>p'. read_copy Z p buf = (of_nat k, p', buf_write (next_out (pr_stream p)) (take k (source d p)) buf)
    \<and> reader_ok ff h d p' \<and> source d p' = drop k (source d p) \<and> delivered Z (take k (source d p)) p p'
    \<and> avail_out (pr_stream p') = avail_out (pr_stream p) - k \<and> next_out (pr_stream p') = next_out (pr_stream p) + k"
proof -
  let ?strm = "pr_stream p"
  let ?bs = "take k (next_in ?strm)"
  have kk: "k \<le> avail_in ?strm" using k by simp
  then have bs: "take k (source d p) = ?bs" by (simp add: source_def)
  let ?p = "p\<lparr>pr_total_out_64 := pr_total_out_64 p + of_nat k, pr_crc32 := zl_crc32 Z (pr_crc32 p) ?bs,
      pr_rest_read_uncompressed := pr_rest_read_uncompressed p - of_nat k,
      pr_stream := ?strm\<lparr>next_in := drop k (next_in ?strm), avail_out := avail_out ?strm - k,
        next_out := next_out ?strm + k, total_out := total_out ?strm + of_nat k\<rparr>\<rparr>"
  have kif: "(if avail_out ?strm < avail_in ?strm then avail_out ?strm else avail_in ?strm) = k" using k by auto
  have "read_copy Z p buf = (of_nat k, ?p, buf_write (next_out ?strm) ?bs buf)"
    unfolding read_copy_def Let_def kif ..
  moreover have "reader_ok ff h d ?p" using ok by (simp add: reader_ok_def data_pos_def)
  moreover have "source d ?p = drop k (source d p)" using kk by (simp add: source_def data_pos_def)
  moreover have "delivered Z ?bs p ?p" using kk by (simp add: delivered_def)
  ultimately show ?thesis unfolding bs by (intro exI [of _ ?p]) simp
qed

context filefunc
begin

lemma read_loop_copy:
  fixes p :: "('w, 'z) file_in_zip64_read_info_s"
  assumes Z: "crc32_streams Z" and ok: "reader_ok ff h (s_data st) p"
    and st: "fetch w h = Some st" "s_rd st" "length (s_data st) < 2 ^ 63"
    and a: "avail_out (pr_stream p) = a" "a \<le> length (source (s_data st) p)"
  shows "\<exists>p' q. read_loop Z UNZ_OK iRead p buf w = Some (sint (iRead + of_nat a), p',
        buf_write (next_out (pr_stream p)) (take a (source (s_data st) p)) buf, store h (s_seek q st) w)
    \<and> reader_ok ff h (s_data st) p' \<and> source (s_data st) p' = drop a (source (s_data st) p)
    \<and> delivered Z (take a (source (s_data st) p)) p p'"
  using ok st(1,2,3) a
proof (induction a arbitrary: p w st iRead buf rule: less_induct)
  case (less a)
  let ?d = "s_data st"
  show ?case
  proof (cases "a = 0")
    case True
    have "store h (s_seek (s_pos st) st) w = w" using store_fetch [OF less.prems(2)] by (simp add: s_seek_def)
    moreover have "buf_write n [] buf = buf" for n by (rule ext) (auto simp: buf_write_def)
    ultimately show ?thesis using True less.prems(1,5) delivered_none [OF Z, of p]
      by (intro exI [of _ p] exI [of _ "s_pos st"]) (simp add: read_loop.simps [of Z 0])
  next
    case False
    let ?D = "source ?d p"
    have "?D \<noteq> []" using False less.prems(6) by auto
    from read_refill_eq [OF less.prems(1-4) this] obtain p1 q1 where
      r: "read_refill p w = (Inr p1, store h (s_seek q1 st) w)" "reader_ok ff h ?d p1" "source ?d p1 = ?D"
        "next_in (pr_stream p1) \<noteq> []" "refilled p p1" by blast
    define k where "k = min (avail_out (pr_stream p1)) (avail_in (pr_stream p1))"
    have sel: "avail_out (pr_stream p1) = a" "next_out (pr_stream p1) = next_out (pr_stream p)"
      using r(5) less.prems(5) by (simp_all add: refilled_def)
    then have k: "0 < k" "k \<le> a" using r(4) False by (simp_all add: k_def)
    from read_copy_eq [OF r(2) k_def, of Z buf] obtain p2 where
      c: "read_copy Z p1 buf = (of_nat k, p2, buf_write (next_out (pr_stream p)) (take k ?D) buf)"
        "reader_ok ff h ?d p2" "source ?d p2 = drop k ?D" "delivered Z (take k ?D) p1 p2"
        "avail_out (pr_stream p2) = a - k" "next_out (pr_stream p2) = next_out (pr_stream p) + k"
      unfolding r(3) sel by blast
    let ?w1 = "store h (s_seek q1 st) w" and ?buf1 = "buf_write (next_out (pr_stream p)) (take k ?D) buf"
    have "\<exists>p' q. read_loop Z UNZ_OK (iRead + of_nat k) p2 ?buf1 ?w1 = Some (sint ((iRead + of_nat k) + of_nat (a - k)), p',
        buf_write (next_out (pr_stream p2)) (take (a - k) (source (s_data (s_seek q1 st)) p2)) ?buf1,
        store h (s_seek q (s_seek q1 st)) ?w1)
      \<and> reader_ok ff h (s_data (s_seek q1 st)) p'
      \<and> source (s_data (s_seek q1 st)) p' = drop (a - k) (source (s_data (s_seek q1 st)) p2)
      \<and> delivered Z (take (a - k) (source (s_data (s_seek q1 st)) p2)) p2 p'"
    proof (rule less.IH)
      show "a - k < a" using k by simp
      show "fetch ?w1 h = Some (s_seek q1 st)" by (rule fetch_store [OF less.prems(2)])
      show "a - k \<le> length (source (s_data (s_seek q1 st)) p2)" using less.prems(6) c(3) by simp
    qed (use c less.prems in simp_all)
    then obtain p3 q3 where i: "read_loop Z UNZ_OK (iRead + of_nat k) p2 ?buf1 ?w1 = Some (sint ((iRead + of_nat k) + of_nat (a - k)), p3,
        buf_write (next_out (pr_stream p) + k) (take (a - k) (drop k ?D)) ?buf1, store h (s_seek q3 st) w)"
      "reader_ok ff h ?d p3" "source ?d p3 = drop (a - k) (drop k ?D)" "delivered Z (take (a - k) (drop k ?D)) p2 p3"
      by (auto simp: c(3,6) store_store)
    have ta: "take k ?D @ take (a - k) (drop k ?D) = take a ?D" using take_add [of k "a - k" ?D] k(2) by simp
    have lk: "length (take k ?D) = k" using k less.prems(6) by simp
    have "pr_compression_method p1 = 0 \<or> pr_raw p1 \<noteq> 0" using r(2) by (simp add: reader_ok_def)
    then have "read_loop Z UNZ_OK iRead p buf w = read_loop Z UNZ_OK (iRead + of_nat k) p2 ?buf1 ?w1"
      using False less.prems(5) r(1,4) c(1) by (simp add: read_loop.simps [of Z 0 _ p])
    also have "\<dots> = Some (sint (iRead + of_nat a), p3, buf_write (next_out (pr_stream p)) (take a ?D) buf, store h (s_seek q3 st) w)"
    proof -
      have "(iRead + of_nat k) + of_nat (a - k) = iRead + of_nat a" using k(2) by (simp add: of_nat_diff)
      moreover have "buf_write (next_out (pr_stream p) + k) (take (a - k) (drop k ?D)) ?buf1
          = buf_write (next_out (pr_stream p)) (take a ?D) buf"
        using buf_write_append [of "next_out (pr_stream p)" "take k ?D" "take (a - k) (drop k ?D)" buf] by (simp only: lk ta)
      ultimately show ?thesis using i(1) by (simp only:)
    qed
    finally have "read_loop Z UNZ_OK iRead p buf w = Some (sint (iRead + of_nat a), p3,
        buf_write (next_out (pr_stream p)) (take a ?D) buf, store h (s_seek q3 st) w)" .
    moreover have "source ?d p3 = drop a ?D" using i(3) k(2) by simp
    moreover have "delivered Z (take a ?D) p p3"
      using refilled_delivered [OF r(5) delivered_append [OF Z c(4) i(4)]] by (simp only: ta)
    ultimately show ?thesis using i(2) by blast
  qed
qed

end

section \<open>Reading the current entry\<close>

text \<open>The uncompressed count agrees with the data, when the entry is not read raw.\<close>

definition counted :: "byte list \<Rightarrow> ('w, 'z) file_in_zip64_read_info_s \<Rightarrow> bool" where
  "counted d p \<longleftrightarrow> (pr_raw p = 0 \<longrightarrow> pr_rest_read_uncompressed p = of_nat (length (source d p)))"

lemma ucast_len: "unat (ucast (len :: uInt) :: 64 word) = unat len"
proof -
  have "unat len < 2 ^ 32" using unsigned_less [of len, where ?'a = nat] by simp
  then show ?thesis by (simp add: unsigned_ucast_eq take_bit_nat_eq_self)
qed

lemma ucast_small32: "unat (x :: 64 word) < 2 ^ 32 \<Longrightarrow> unat (ucast x :: uInt) = unat x"
  by (simp add: unsigned_ucast_eq take_bit_nat_eq_self)

lemma read_window_eq:
  assumes ok: "reader_ok ff h d p" and c: "counted d p" and l: "length d < 2 ^ 63" "length (source d p) < 2 ^ 63"
  shows "read_window p len = min (unat len) (length (source d p))"
proof -
  let ?D = "length (source d p)"
  have len: "unat len < 2 ^ 32" using unsigned_less [of len, where ?'a = nat] by simp
  have D: "?D = avail_in (pr_stream p) + unat (pr_rest_read_compressed p)" by (rule length_source [OF ok])
  show ?thesis
  proof (cases "pr_raw p = 0")
    case True
    have u: "unat (pr_rest_read_uncompressed p) = ?D"
      using c True l(2) by (simp add: counted_def unat_of_nat_small)
    have "ucast len > pr_rest_read_uncompressed p \<longleftrightarrow> ?D < unat len" by (simp add: word_less_nat_alt u ucast_len)
    moreover have "?D < unat len \<Longrightarrow> unat (ucast (pr_rest_read_uncompressed p) :: uInt) = ?D"
      using ucast_small32 [of "pr_rest_read_uncompressed p"] u len by simp
    ultimately show ?thesis using True by (simp add: read_window_def min_def)
  next
    case False
    have s: "pr_rest_read_compressed p + of_nat (avail_in (pr_stream p)) = of_nat ?D" by (simp add: D)
    have u: "unat (of_nat ?D :: 64 word) = ?D" by (rule unat_of_nat_small) (use l(2) in simp)
    have gt: "ucast len > pr_rest_read_compressed p + of_nat (avail_in (pr_stream p)) \<longleftrightarrow> ?D < unat len"
      unfolding s by (simp only: word_less_nat_alt u ucast_len)
    have "unat (ucast (pr_rest_read_compressed p) + of_nat (avail_in (pr_stream p)) :: uInt) = ?D" if "?D < unat len"
    proof -
      have "unat (pr_rest_read_compressed p) < 2 ^ 32" using that len D by linarith
      then have "(ucast (pr_rest_read_compressed p) :: uInt) = of_nat (unat (pr_rest_read_compressed p))"
        by (simp add: word_unat_eq_iff ucast_small32 unat_of_nat_small)
      then have "(ucast (pr_rest_read_compressed p) + of_nat (avail_in (pr_stream p)) :: uInt) = of_nat ?D" by (simp add: D)
      moreover have "unat (of_nat ?D :: uInt) = ?D" by (rule unat_of_nat_small) (use that len in simp)
      ultimately show ?thesis by simp
    qed
    with False gt show ?thesis by (simp add: read_window_def min_def)
  qed
qed

lemma sint_of_nat32: "n < 2 ^ 31 \<Longrightarrow> sint (of_nat n :: 32 word) = int n"
  by (simp add: sint_uint unat_of_nat_small uint_nat signed_take_bit_int_eq_self)

context filefunc
begin

lemma read_current_eq:
  fixes s :: "('w, 'z) unz64_s" and st :: stream
  defines "d \<equiv> s_data st"
  assumes Z: "crc32_streams Z" and p: "us_pfile_in_zip_read s = Some p" "reader_ok ff h d p" "counted d p"
    and st: "fetch w h = Some st" "s_rd st" "length d < 2 ^ 63" and D: "D = source d p"
    and n: "n = min (unat len) (length D)" "n < 2 ^ 31" "length D < 2 ^ 63"
  shows "\<exists>p' q. unzReadCurrentFile Z (Some s) buf len w =
      Some (int n, Some (s\<lparr>us_pfile_in_zip_read := Some p'\<rparr>), buf_write 0 (take n D) buf, store h (s_seek q st) w)
    \<and> reader_ok ff h d p' \<and> counted d p' \<and> source d p' = drop n D \<and> delivered Z (take n D) p p'"
proof (cases "len = 0")
  case True
  have "store h (s_seek (s_pos st) st) w = w" using store_fetch [OF st(1)] by (simp add: s_seek_def)
  moreover have "buf_write 0 [] buf = buf" by (rule ext) (auto simp: buf_write_def)
  moreover have "s\<lparr>us_pfile_in_zip_read := Some p\<rparr> = s" using p(1) by simp
  ultimately show ?thesis using True p delivered_none [OF Z, of p] n(1) D
    by (intro exI [of _ p] exI [of _ "s_pos st"]) (simp add: unzReadCurrentFile_def reader_ok_def)
next
  case False
  let ?p = "p\<lparr>pr_stream := (pr_stream p)\<lparr>next_out := 0, avail_out := read_window p len\<rparr>\<rparr>"
  have win: "read_window p len = n" using read_window_eq [OF p(2,3) st(3)] n D by simp
  have src: "source d ?p = D" by (simp add: D source_def data_pos_def)
  have ok: "reader_ok ff h (s_data st) ?p" using p(2) by (simp add: reader_ok_def data_pos_def d_def)
  obtain p' q where r: "read_loop Z UNZ_OK 0 ?p buf w = Some (sint (0 + of_nat n :: uInt), p',
        buf_write (next_out (pr_stream ?p)) (take n D) buf, store h (s_seek q st) w)"
    "reader_ok ff h d p'" "source d p' = drop n D" "delivered Z (take n D) ?p p'"
    using read_loop_copy [OF Z ok st(1,2), of n 0 buf] st(3) win n(1) src unfolding d_def by auto
  have del: "delivered Z (take n D) p p'" using r(4) by (simp add: delivered_def)
  have "counted d p'"
  proof -
    have "pr_rest_read_uncompressed p' = of_nat (length (drop n D))" if "pr_raw p' = 0"
      using del p(3) n(1) that by (simp add: delivered_def counted_def D of_nat_diff)
    then show ?thesis using r(3) by (simp add: counted_def)
  qed
  moreover have "pr_read_buffer p" using p(2) by (simp add: reader_ok_def)
  ultimately show ?thesis using False p(1) r del sint_of_nat32 [OF n(2)]
    by (intro exI [of _ p'] exI [of _ q]) (simp add: unzReadCurrentFile_def Let_def)
qed

text \<open>Opening the current entry: its data lies ahead, and its CRC is expected at the end.\<close>

lemma open_current_gen:
  fixes s :: "('w, 'z) unz64_s" and st :: stream and ini :: uLong
  assumes op: "opened ff h pre es c s" and at: "at_entry es n s" "us_pfile_in_zip_read s = None"
    and st: "fetch w h = Some st" "s_rd st" "\<not> s_err st" and d: "s_data st = pre @ archive_bytes es c"
    and ok: "archive_ok pre es c" and mt: "malloc_total \<sigma>" and e: "e = es ! n"
    and start: "if nf_method (ze_file e) = Z_DEFLATED \<and> raw = 0
        then zl_inflateInit2 Z (strm0\<lparr>total_out := 0, next_in := []\<rparr>) (- MAX_WBITS) = (Z_OK, strm) \<and> ini = of_int Z_DEFLATED
        else strm = strm0\<lparr>total_out := 0\<rparr> \<and> ini = 0"
  shows "\<exists>ml p \<sigma>' q. unzOpenCurrentFile3 Z strm0 (Some s) raw None \<sigma> w =
      (UNZ_OK, Some ml, Some (s\<lparr>us_pfile_in_zip_read := Some p, us_encrypted := 0\<rparr>), \<sigma>', store h (s_seek q st) w)
    \<and> malloc_total \<sigma>' \<and> reader_at ff h (s_data st) p \<and> source (s_data st) p = ze_data e
    \<and> pr_crc32 p = 0 \<and> pr_crc32_wait p = field 4 (ze_crc e) \<and> pr_raw p = raw
    \<and> pr_compression_method p = of_int (nf_method (ze_file e)) \<and> pr_rest_read_uncompressed p = ze_size e
    \<and> pr_stream p = strm\<lparr>next_in := []\<rparr>"
proof -
  let ?nf = "ze_file e" and ?k = "length (new_file_name (ze_file e)) + length (nf_extrafield_local (ze_file e))"
  obtain q where co: "unz64local_CheckCurrentFileCoherencyHeader s w =
    (UNZ_OK, of_nat ?k, of_nat (local_pos es n + 30 + length (new_file_name ?nf)),
     of_nat (length (nf_extrafield_local ?nf)), store h (s_seek q st) w)"
    using coherency_eq [OF op at(1) st d ok e] by blast
  obtain \<sigma>1 \<sigma>2 where m: "malloc sizeof_file_in_zip \<sigma> = (True, \<sigma>1)" "malloc UNZ_BUFSIZE \<sigma>1 = (True, \<sigma>2)" "malloc_total \<sigma>2"
    using malloc_total_malloc mt by metis
  have n: "n < length es" "us_current_file_ok s" and info: "us_cur_file_info s = entry_info e"
    and off: "us_cur_file_info_internal s = \<lparr>offset_curfile = field 4 (of_nat (local_pos es n))\<rparr>"
    using at e by (simp_all add: at_entry_def)
  have nf: "nf_ok ?nf" "length (ze_data e) < 0xffffffff" "ze_size e < 0xffffffff" and lp: "length (locals es) < 0xffffffff"
    using ok n e by (auto simp: archive_ok_def)
  have off': "field 4 (of_nat (local_pos es n)) = of_nat (local_pos es n)"
    using lp local_pos_le [of es n] by (intro field_of_nat) simp_all
  have meth: "fi_compression_method (entry_info e) = of_int (nf_method ?nf)"
    using nf field_of_nat [of 2 0] field_of_nat [of 2 8] by (auto simp: nf_ok_def entry_info_def central_info_def Let_def)
  have cs: "fi_compressed_size (entry_info e) = of_nat (length (ze_data e))"
    using nf(2) by (simp add: entry_info_def central_info_def Let_def field_of_nat)
  have us: "fi_uncompressed_size (entry_info e) = ze_size e"
    using nf(3) by (simp add: entry_info_def central_info_def Let_def field_id word_less_nat_alt)
  have crc: "fi_crc (entry_info e) = field 4 (ze_crc e)" by (simp add: entry_info_def central_info_def Let_def)
  have cmp: "(of_int (nf_method ?nf) = (of_int Z_BZIP2ED :: 64 word) \<and> raw = 0) = False"
    "(of_int (nf_method ?nf) = (of_int Z_DEFLATED :: 64 word)) = (nf_method ?nf = Z_DEFLATED)"
    using nf(1) by (auto simp: nf_ok_def)
  let ?p = "\<lparr>pr_read_buffer = True, pr_stream = strm\<lparr>next_in := []\<rparr>,
      pr_pos_in_zipfile = of_nat (local_pos es n) + 30 + of_nat ?k,
      pr_stream_initialised = ini, pr_offset_local_extrafield = of_nat (local_pos es n + 30 + length (new_file_name ?nf)),
      pr_size_local_extrafield = of_nat (length (nf_extrafield_local ?nf)), pr_pos_local_extrafield = 0,
      pr_total_out_64 = 0, pr_crc32 = 0, pr_crc32_wait = field 4 (ze_crc e),
      pr_rest_read_compressed = of_nat (length (ze_data e)), pr_rest_read_uncompressed = ze_size e,
      pr_filefunc = ff, pr_filestream = h, pr_compression_method = of_int (nf_method ?nf),
      pr_byte_before_the_zipfile = of_nat (length pre), pr_raw = raw\<rparr> :: ('w, 'z) file_in_zip64_read_info_s"
  have uk: "(ucast (of_nat ?k :: uInt) :: 64 word) = of_nat ?k"
  proof -
    have "?k < 2 ^ 32" using nf(1) by (simp add: nf_ok_def)
    then show ?thesis by (simp add: word_unat_eq_iff ucast_len unat_of_nat_small del: of_nat_add)
  qed
  have ff: "us_filefunc s = ff" "us_filestream s = h" "us_byte_before_the_zipfile s = of_nat (length pre)"
    using op by (simp_all add: opened_def)
  have oc: "open_current_read Z strm0 s raw (of_nat ?k) (of_nat (local_pos es n + 30 + length (new_file_name ?nf)))
      (of_nat (length (nf_extrafield_local ?nf))) = (UNZ_OK, s\<lparr>us_pfile_in_zip_read := Some ?p, us_encrypted := 0\<rparr>)"
  proof (cases "nf_method ?nf = Z_DEFLATED \<and> raw = 0")
    case True
    then have "zl_inflateInit2 Z (strm0\<lparr>total_out := 0, next_in := []\<rparr>) (- MAX_WBITS) = (Z_OK, strm)" "ini = of_int Z_DEFLATED"
      using start by simp_all
    with True show ?thesis unfolding open_current_read_def Let_def info meth cmp if_False
      by (simp add: off off' cs us crc ff uk del: of_nat_add)
  next
    case False
    then have "strm = strm0\<lparr>total_out := 0\<rparr>" "ini = 0" using start by simp_all
    then show ?thesis unfolding open_current_read_def Let_def info meth cmp Eq_FalseI [OF False] if_False
      by (simp add: off off' cs us crc ff uk del: of_nat_add)
  qed
  obtain r where "drop (length pre + local_pos es n) (s_data st) = entry_local e @ r"
    using drop_local [OF n(1), of pre c] d e by auto
  then have dd: "drop (30 + ?k + (length pre + local_pos es n)) (s_data st) = ze_data e @ r"
    using drop_drop [of "30 + ?k" "length pre + local_pos es n" "s_data st", symmetric] by (simp add: entry_local_def)
  have pos: "data_pos ?p = 30 + ?k + (length pre + local_pos es n)"
  proof -
    have "of_nat (local_pos es n) + 30 + of_nat ?k + of_nat (length pre)
        = (of_nat (30 + ?k + (length pre + local_pos es n)) :: 64 word)" by (simp add: add_ac)
    then have "data_pos ?p = unat (of_nat (30 + ?k + (length pre + local_pos es n)) :: 64 word)"
      by (simp only: data_pos_def file_in_zip64_read_info_s.simps)
    also have "\<dots> = 30 + ?k + (length pre + local_pos es n)"
    proof (rule unat_of_nat_small)
      show "30 + ?k + (length pre + local_pos es n) < 2 ^ LENGTH(64)"
        using ok local_pos_le [of es n] nf(1) by (simp add: archive_ok_def archive_bytes_def nf_ok_def)
    qed
    finally show ?thesis .
  qed
  have rest: "unat (pr_rest_read_compressed ?p) = length (ze_data e)" using nf(2) by (simp add: unat_of_nat_small)
  have dd': "drop (data_pos ?p) (s_data st) = ze_data e @ r" by (simp only: pos dd)
  have src: "source (s_data st) ?p = ze_data e" by (simp only: source_def rest dd') simp
  have fit: "data_pos ?p + length (ze_data e) \<le> length (s_data st)"
  proof (cases "ze_data e = []")
    case True
    have "length pre + local_pos es (Suc n) \<le> length (s_data st)"
      using d local_pos_le [of es "Suc n"] by (simp add: archive_bytes_def)
    then show ?thesis unfolding pos using True by (simp add: local_pos_Suc [OF n(1)] e [symmetric] entry_local_def)
  next
    case False
    then show ?thesis using arg_cong [OF dd', of length] by (cases "ze_data e") simp_all
  qed
  have "reader_at ff h (s_data st) ?p" using fit rest by (simp add: reader_at_def)
  moreover have "unzOpenCurrentFile3 Z strm0 (Some s) raw None \<sigma> w =
      (UNZ_OK, Some (sint (ucast (fi_compression_method (entry_info e)) :: uInt), unz_level (fi_flag (entry_info e))),
       Some (s\<lparr>us_pfile_in_zip_read := Some ?p, us_encrypted := 0\<rparr>), \<sigma>2, store h (s_seek q st) w)"
    using n(2) at(2) co m(1,2) oc by (simp add: unzOpenCurrentFile3_def info Let_def)
  ultimately show ?thesis using src m(3)
    by (intro exI [of _ "(sint (ucast (fi_compression_method (entry_info e)) :: uInt), unz_level (fi_flag (entry_info e)))"]
        exI [of _ ?p] exI [of _ \<sigma>2] exI [of _ q]) simp
qed

lemma open_current_eq:
  fixes s :: "('w, 'z) unz64_s" and st :: stream
  assumes op: "opened ff h pre es c s" and at: "at_entry es n s" "us_pfile_in_zip_read s = None"
    and st: "fetch w h = Some st" "s_rd st" "\<not> s_err st" and d: "s_data st = pre @ archive_bytes es c"
    and ok: "archive_ok pre es c" and mt: "malloc_total \<sigma>" and e: "e = es ! n"
    and raw: "nf_method (ze_file e) = 0 \<and> ze_size e = of_nat (length (ze_data e)) \<or> raw \<noteq> 0"
  shows "\<exists>ml p \<sigma>' q. unzOpenCurrentFile3 Z strm0 (Some s) raw None \<sigma> w =
      (UNZ_OK, Some ml, Some (s\<lparr>us_pfile_in_zip_read := Some p, us_encrypted := 0\<rparr>), \<sigma>', store h (s_seek q st) w)
    \<and> malloc_total \<sigma>' \<and> reader_ok ff h (s_data st) p \<and> counted (s_data st) p \<and> source (s_data st) p = ze_data e
    \<and> pr_crc32 p = 0 \<and> pr_crc32_wait p = field 4 (ze_crc e) \<and> pr_raw p = raw"
proof -
  have nz: "\<not> (nf_method (ze_file e) = Z_DEFLATED \<and> raw = 0)" using raw by auto
  then have "if nf_method (ze_file e) = Z_DEFLATED \<and> raw = 0
      then zl_inflateInit2 Z (strm0\<lparr>total_out := 0, next_in := []\<rparr>) (- MAX_WBITS) = (Z_OK, strm0\<lparr>total_out := 0\<rparr>) \<and> 0 = of_int Z_DEFLATED
      else strm0\<lparr>total_out := 0\<rparr> = strm0\<lparr>total_out := 0\<rparr> \<and> 0 = (0 :: uLong)" by auto
  from open_current_gen [OF op at st d ok mt e this] obtain ml p \<sigma>' q where
    "unzOpenCurrentFile3 Z strm0 (Some s) raw None \<sigma> w =
      (UNZ_OK, Some ml, Some (s\<lparr>us_pfile_in_zip_read := Some p, us_encrypted := 0\<rparr>), \<sigma>', store h (s_seek q st) w)"
    "malloc_total \<sigma>'" "reader_at ff h (s_data st) p" "source (s_data st) p = ze_data e"
    "pr_crc32 p = 0" "pr_crc32_wait p = field 4 (ze_crc e)" "pr_raw p = raw"
    "pr_compression_method p = of_int (nf_method (ze_file e))" "pr_rest_read_uncompressed p = ze_size e" by blast
  moreover from this have "reader_ok ff h (s_data st) p" "counted (s_data st) p"
    using raw by (auto simp: reader_ok_at counted_def)
  ultimately show ?thesis by blast
qed

end

text \<open>Closing compares the CRC only when all the data was delivered and not raw.\<close>

lemma close_current_eq:
  "us_pfile_in_zip_read s = Some p \<Longrightarrow> unzCloseCurrentFile Z (Some s) =
    (if pr_rest_read_uncompressed p = 0 \<and> pr_raw p = 0 \<and> pr_crc32 p \<noteq> pr_crc32_wait p then UNZ_CRCERROR else UNZ_OK,
     Some (s\<lparr>us_pfile_in_zip_read := None\<rparr>))"
  by (simp add: unzCloseCurrentFile_def)

end
