(* ===== verification/Codec.thy ===== *)
theory Codec
  imports Zlib
begin

text \<open>
  What \<open>zlib.h\<close> documents of a compressor and of a decompressor, as named properties of the table
  of functions: every call keeps the counters of the stream, makes progress, and the bytes that
  were given in all are a compressed form of the data that was taken in all, and back.
\<close>

section \<open>Views of a stream\<close>

text \<open>
  A stream is followed through views of its state. Of a compressor: whether it takes data, whether
  it is being finished, whether it is finished, the data it has taken and the bytes it has given so
  far; \<open>cv_bound\<close> is the bound of \<open>deflateBound\<close>. Of a decompressor: whether it is in use, the
  bytes it has taken and the data it has given. \<open>cv_coded d c\<close> is that \<open>c\<close> is a deflate stream
  for the data \<open>d\<close>.
\<close>

record 'z codec_view =
  cv_live :: "'z \<Rightarrow> bool"
  cv_last :: "'z \<Rightarrow> bool"
  cv_ended :: "'z \<Rightarrow> bool"
  cv_taken :: "'z \<Rightarrow> byte list"
  cv_given :: "'z \<Rightarrow> byte list"
  cv_bound :: "nat \<Rightarrow> nat"
  cv_coded :: "byte list \<Rightarrow> byte list \<Rightarrow> bool"
  iv_live :: "'z \<Rightarrow> bool"
  iv_taken :: "'z \<Rightarrow> byte list"
  iv_given :: "'z \<Rightarrow> byte list"

section \<open>The compressor\<close>

text \<open>One call: it keeps the counters, and the views follow what was consumed and stored.\<close>

definition deflate_call :: "'z codec_view \<Rightarrow> 'z z_stream \<Rightarrow> byte list \<Rightarrow> 'z z_stream \<Rightarrow> bool" where
  "deflate_call V s bs s' \<longleftrightarrow> strm_step s bs s'
     \<and> cv_taken V (zstate s') = cv_taken V (zstate s) @ take (avail_in s - avail_in s') (next_in s)
     \<and> cv_given V (zstate s') = cv_given V (zstate s) @ bs
     \<and> length (cv_given V (zstate s')) \<le> cv_bound V (length (cv_taken V (zstate s')))"

text \<open>The parameters that \<open>deflateInit2\<close> accepts for a stream without header.\<close>

definition deflate_params :: "int \<Rightarrow> int \<Rightarrow> int \<Rightarrow> int \<Rightarrow> bool" where
  "deflate_params level windowBits memLevel strategy \<longleftrightarrow> -1 \<le> level \<and> level \<le> 9
     \<and> -15 \<le> windowBits \<and> windowBits \<le> -9 \<and> 1 \<le> memLevel \<and> memLevel \<le> 9 \<and> 0 \<le> strategy \<and> strategy \<le> 4"

text \<open>With enough memory a stream starts; it touches neither the input nor the output.\<close>

definition deflate_starts :: "'z zlib \<Rightarrow> 'z codec_view \<Rightarrow> bool" where
  "deflate_starts Z V \<longleftrightarrow> (\<forall>s level windowBits memLevel strategy. deflate_params level windowBits memLevel strategy \<longrightarrow>
     (\<exists>s'. zl_deflateInit2 Z s level Z_DEFLATED windowBits memLevel strategy = (Z_OK, s')
       \<and> next_in s' = next_in s \<and> avail_out s' = avail_out s \<and> next_out s' = next_out s
       \<and> total_in s' = 0 \<and> total_out s' = 0
       \<and> cv_live V (zstate s') \<and> cv_taken V (zstate s') = [] \<and> cv_given V (zstate s') = []))"

text \<open>
  With input and room for output \<open>deflate\<close> makes progress and returns \<open>Z_OK\<close>. Without input
  and with \<open>Z_FINISH\<close> it also makes progress, until everything is out and it returns
  \<open>Z_STREAM_END\<close>; the first of these calls has at least the end of the last block to store.
\<close>

definition deflate_progress :: "'z zlib \<Rightarrow> 'z codec_view \<Rightarrow> bool" where
  "deflate_progress Z V \<longleftrightarrow>
     (\<forall>s. cv_live V (zstate s) \<and> 0 < avail_in s \<and> 0 < avail_out s \<longrightarrow>
       (\<exists>bs s'. zl_deflate Z s Z_NO_FLUSH = (Z_OK, bs, s') \<and> deflate_call V s bs s' \<and> cv_live V (zstate s')
         \<and> (avail_in s' < avail_in s \<or> bs \<noteq> [])))"

definition deflate_finishes :: "'z zlib \<Rightarrow> 'z codec_view \<Rightarrow> bool" where
  "deflate_finishes Z V \<longleftrightarrow>
     (\<forall>s. (cv_live V (zstate s) \<or> cv_last V (zstate s)) \<and> avail_in s = 0 \<and> 0 < avail_out s \<longrightarrow>
       (\<exists>err bs s'. zl_deflate Z s Z_FINISH = (err, bs, s') \<and> deflate_call V s bs s'
         \<and> (cv_live V (zstate s) \<longrightarrow> bs \<noteq> [])
         \<and> (err = Z_OK \<and> cv_last V (zstate s') \<and> bs \<noteq> []
            \<or> err = Z_STREAM_END \<and> cv_ended V (zstate s') \<and> cv_coded V (cv_taken V (zstate s')) (cv_given V (zstate s')))))
     \<and> (\<forall>s. cv_ended V (zstate s) \<longrightarrow> fst (zl_deflateEnd Z s) = Z_OK)"

definition deflates :: "'z zlib \<Rightarrow> 'z codec_view \<Rightarrow> bool" where
  "deflates Z V \<longleftrightarrow> mono (cv_bound V) \<and> deflate_starts Z V \<and> deflate_progress Z V \<and> deflate_finishes Z V"

section \<open>The decompressor\<close>

definition inflate_starts :: "'z zlib \<Rightarrow> 'z codec_view \<Rightarrow> bool" where
  "inflate_starts Z V \<longleftrightarrow> (\<forall>s. \<exists>s'. zl_inflateInit2 Z s (- MAX_WBITS) = (Z_OK, s') \<and> \<not> msg_set s'
     \<and> iv_live V (zstate s') \<and> iv_taken V (zstate s') = [] \<and> iv_given V (zstate s') = [])"

text \<open>
  On a stream for \<open>d\<close> that is not delivered yet, with room for output, and with input unless the
  whole stream was taken: \<open>inflate\<close> makes progress, and returns \<open>Z_OK\<close>, or \<open>Z_STREAM_END\<close> with
  the last of the data.
\<close>

definition inflate_call :: "'z codec_view \<Rightarrow> 'z z_stream \<Rightarrow> byte list \<Rightarrow> 'z z_stream \<Rightarrow> bool" where
  "inflate_call V s bs s' \<longleftrightarrow> strm_step s bs s' \<and> \<not> msg_set s'
     \<and> iv_taken V (zstate s') = iv_taken V (zstate s) @ take (avail_in s - avail_in s') (next_in s)
     \<and> iv_given V (zstate s') = iv_given V (zstate s) @ bs \<and> (avail_in s' < avail_in s \<or> bs \<noteq> [])"

definition inflate_progress :: "'z zlib \<Rightarrow> 'z codec_view \<Rightarrow> bool" where
  "inflate_progress Z V \<longleftrightarrow> (\<forall>s d c. cv_coded V d c \<and> iv_live V (zstate s) \<and> \<not> msg_set s
     \<and> prefix (iv_taken V (zstate s) @ next_in s) c \<and> strict_prefix (iv_given V (zstate s)) d
     \<and> 0 < avail_out s \<and> (next_in s \<noteq> [] \<or> iv_taken V (zstate s) = c) \<longrightarrow>
     (\<exists>err bs s'. zl_inflate Z s Z_SYNC_FLUSH = (err, bs, s') \<and> inflate_call V s bs s'
       \<and> prefix (iv_given V (zstate s')) d
       \<and> (err = Z_OK \<and> iv_live V (zstate s') \<or> err = Z_STREAM_END \<and> iv_given V (zstate s') = d)))"

definition inflates :: "'z zlib \<Rightarrow> 'z codec_view \<Rightarrow> bool" where
  "inflates Z V \<longleftrightarrow> inflate_starts Z V \<and> inflate_progress Z V"

lemma strm_step_input:
  assumes "strm_step s bs s'"
  shows "take (avail_in s - avail_in s') (next_in s) @ next_in s' = next_in s" "avail_in s' \<le> avail_in s"
  using assms by (auto simp: strm_step_def suffix_def)

end
