(* ===== verification/Inflate.thy ===== *)
theory Inflate
  imports UnzData Codec
begin

text \<open>
  Reading a deflated entry: the loop of \<open>unzReadCurrentFile\<close> ends and delivers the data whose
  compressed form is in the archive; and what reading an entry promises however it is stored.
\<close>

section \<open>Reading\<close>

text \<open>The entry holds a compressed form \<open>c\<close> of \<open>d\<close>, and \<open>k\<close> bytes of \<open>d\<close> were delivered.\<close>

definition inflating ::
    "'w zlib_filefunc64_32_def \<Rightarrow> voidpf \<Rightarrow> byte list \<Rightarrow> 'z codec_view \<Rightarrow> byte list \<Rightarrow> byte list
     \<Rightarrow> ('w, 'z) file_in_zip64_read_info_s \<Rightarrow> nat \<Rightarrow> bool" where
  "inflating ff h f V d c p k \<longleftrightarrow> reader_at ff h f p \<and> pr_compression_method p = of_int Z_DEFLATED \<and> pr_raw p = 0
     \<and> cv_coded V d c \<and> k \<le> length d \<and> pr_rest_read_uncompressed p = of_nat (length d - k)
     \<and> (k < length d \<longrightarrow> iv_live V (zstate (pr_stream p)) \<and> \<not> msg_set (pr_stream p)
          \<and> iv_given V (zstate (pr_stream p)) = take k d \<and> iv_taken V (zstate (pr_stream p)) @ source f p = c)"

lemma map_buf_write: "n = length bs \<Longrightarrow> map (buf_write k bs f) [k..<k + n] = bs"
  by (rule nth_equalityI) (simp_all add: buf_write_def)

lemma read_inflate_eq:
  assumes call: "zl_inflate Z (pr_stream p) Z_SYNC_FLUSH = (err, bs, strm)" "strm_step (pr_stream p) bs strm" "\<not> msg_set strm"
    and fit: "avail_out (pr_stream p) < 2 ^ 32"
  shows "\<exists>p'. read_inflate Z p buf = (err, of_nat (length bs), p', buf_write (next_out (pr_stream p)) bs buf)
    \<and> delivered Z bs p p' \<and> pr_stream p' = strm
    \<and> source f p' = next_in strm @ drop (avail_in (pr_stream p)) (source f p) \<and> reader_at ff h f p' = reader_at ff h f p"
proof -
  let ?n = "length bs" and ?o = "next_out (pr_stream p)"
  have "?n < 2 ^ LENGTH(32)" using call(2) fit by (simp add: strm_step_def)
  moreover have uc: "(ucast (of_nat ?n :: 64 word) :: 32 word) = of_nat ?n" by transfer (simp add: take_bit_of_nat)
  ultimately have n: "unat (ucast (total_out strm - total_out (pr_stream p)) :: uInt) = ?n"
    "total_out strm - total_out (pr_stream p) = of_nat ?n"
    using call(2) unat_of_nat_small [of ?n, where ?'a = 32] by (simp_all add: strm_step_def)
  let ?p = "p\<lparr>pr_total_out_64 := pr_total_out_64 p + of_nat ?n, pr_crc32 := zl_crc32 Z (pr_crc32 p) bs,
      pr_rest_read_uncompressed := pr_rest_read_uncompressed p - of_nat ?n, pr_stream := strm\<rparr>"
  have "read_inflate Z p buf = (err, of_nat ?n, ?p, buf_write ?o bs buf)"
    using call(1,3) n uc by (simp add: read_inflate_def Let_def map_buf_write)
  then show ?thesis
    by (intro exI [of _ ?p]) (simp add: delivered_def source_def data_pos_def reader_at_def)
qed

context filefunc
begin

lemma read_refill_any:
  fixes p :: "('w, 'z) file_in_zip64_read_info_s"
  assumes ok: "reader_at ff h (s_data st) p" and st: "fetch w h = Some st" "s_rd st" "length (s_data st) < 2 ^ 63"
  shows "\<exists>p' q. read_refill p w = (Inr p', store h (s_seek q st) w) \<and> reader_at ff h (s_data st) p'
    \<and> source (s_data st) p' = source (s_data st) p \<and> (next_in (pr_stream p') \<noteq> [] \<or> source (s_data st) p' = []) \<and> refilled p p'
    \<and> pr_stream p' = (pr_stream p)\<lparr>next_in := next_in (pr_stream p')\<rparr>"
proof (cases "source (s_data st) p = []")
  case False
  from read_refill_at [OF ok st this] show ?thesis by blast
next
  case True
  have len: "length (source (s_data st) p) = avail_in (pr_stream p) + unat (pr_rest_read_compressed p)"
    using ok by (auto simp: source_def reader_at_def)
  have "\<not> 0 < pr_rest_read_compressed p" using len True by (simp add: word_less_nat_alt)
  then have "read_refill p w = (Inr p, w)" by (simp add: read_refill_def)
  moreover have "store h (s_seek (s_pos st) st) w = w" using store_fetch [OF st(1)] by (simp add: s_seek_def)
  ultimately show ?thesis using True ok
    by (intro exI [of _ p] exI [of _ "s_pos st"]) (simp add: refilled_def)
qed

text \<open>One round of the decompressing branch.\<close>

lemma inflate_round:
  fixes p :: "('w, 'z) file_in_zip64_read_info_s"
  assumes Z: "crc32_streams Z" "inflates Z V" and inf: "inflating ff h (s_data st) V d c p k" and k: "k < length d"
    and st: "fetch w h = Some st" "s_rd st" "length (s_data st) < 2 ^ 63"
    and a: "0 < avail_out (pr_stream p)" "avail_out (pr_stream p) < 2 ^ 32"
  shows "\<exists>err bs p' q. (\<forall>iRead. read_loop Z UNZ_OK iRead p buf w =
      (if err = Z_STREAM_END then Some (sint (iRead + of_nat (length bs)), p', buf_write (next_out (pr_stream p)) bs buf, store h (s_seek q st) w)
       else read_loop Z UNZ_OK (iRead + of_nat (length bs)) p' (buf_write (next_out (pr_stream p)) bs buf) (store h (s_seek q st) w)))
    \<and> bs = take (length bs) (drop k d) \<and> inflating ff h (s_data st) V d c p' (k + length bs) \<and> delivered Z bs p p'
    \<and> length bs \<le> avail_out (pr_stream p) \<and> avail_out (pr_stream p') = avail_out (pr_stream p) - length bs
    \<and> next_out (pr_stream p') = next_out (pr_stream p) + length bs
    \<and> (err = Z_STREAM_END \<longrightarrow> k + length bs = length d)
    \<and> length (source (s_data st) p') \<le> length (source (s_data st) p)
    \<and> (length (source (s_data st) p') < length (source (s_data st) p) \<or> bs \<noteq> [])"
proof -
  let ?f = "s_data st"
  note i = inf [unfolded inflating_def]
  have ra: "reader_at ff h ?f p" using i by blast
  obtain p1 q1 where r: "read_refill p w = (Inr p1, store h (s_seek q1 st) w)" "reader_at ff h ?f p1" "source ?f p1 = source ?f p"
    "next_in (pr_stream p1) \<noteq> [] \<or> source ?f p1 = []" "refilled p p1" "pr_stream p1 = (pr_stream p)\<lparr>next_in := next_in (pr_stream p1)\<rparr>"
    using read_refill_any [OF ra st] by blast
  have z: "zstate (pr_stream p1) = zstate (pr_stream p)" "msg_set (pr_stream p1) = msg_set (pr_stream p)"
    by (simp_all add: arg_cong [OF r(6), of zstate] arg_cong [OF r(6), of msg_set])
  let ?s = "pr_stream p1"
  have src: "iv_taken V (zstate ?s) @ source ?f p1 = c" "iv_given V (zstate ?s) = take k d" "iv_live V (zstate ?s)" "\<not> msg_set ?s"
    using i k r(3) z by simp_all
  have pre: "source ?f p1 = next_in ?s @ drop (avail_in ?s) (source ?f p1)" by (simp add: source_def)
  have "prefix (iv_taken V (zstate ?s) @ next_in ?s) c" using src(1) pre by (metis append.assoc prefixI)
  moreover have "length (take k d) < length d" using k by simp
  then have "strict_prefix (take k d) d" unfolding strict_prefix_def using take_is_prefix [of k d] by auto
  moreover have "next_in ?s \<noteq> [] \<or> iv_taken V (zstate ?s) = c" using r(4) src(1) by auto
  moreover have ao: "avail_out ?s = avail_out (pr_stream p)" "next_out ?s = next_out (pr_stream p)" using r(5) by (simp_all add: refilled_def)
  ultimately have "\<exists>err bs s'. zl_inflate Z ?s Z_SYNC_FLUSH = (err, bs, s') \<and> inflate_call V ?s bs s' \<and> prefix (iv_given V (zstate s')) d
       \<and> (err = Z_OK \<and> iv_live V (zstate s') \<or> err = Z_STREAM_END \<and> iv_given V (zstate s') = d)"
    using Z(2) [unfolded inflates_def inflate_progress_def, THEN conjunct2, rule_format, of d c ?s] i src(2-4) a(1) by simp
  then obtain err bs strm where c: "zl_inflate Z ?s Z_SYNC_FLUSH = (err, bs, strm)" "inflate_call V ?s bs strm"
    "prefix (iv_given V (zstate strm)) d" "err = Z_OK \<and> iv_live V (zstate strm) \<or> err = Z_STREAM_END \<and> iv_given V (zstate strm) = d"
    by blast
  have call: "strm_step ?s bs strm" "\<not> msg_set strm" "iv_given V (zstate strm) = take k d @ bs"
    "iv_taken V (zstate strm) = iv_taken V (zstate ?s) @ take (avail_in ?s - avail_in strm) (next_in ?s)"
    "avail_in strm < avail_in ?s \<or> bs \<noteq> []"
    using c(2) src(2) by (simp_all add: inflate_call_def)
  have "avail_out ?s < 2 ^ 32" using a(2) ao by simp
  from read_inflate_eq [OF c(1) call(1,2) this, of buf ?f ff h] obtain p2 where
    2: "read_inflate Z p1 buf = (err, of_nat (length bs), p2, buf_write (next_out ?s) bs buf)" "delivered Z bs p1 p2" "pr_stream p2 = strm"
    "source ?f p2 = next_in strm @ drop (avail_in ?s) (source ?f p1)" "reader_at ff h ?f p2" using r(2) by blast
  note inp = strm_step_input [OF call(1)]
  obtain ys where ys: "d = take k d @ bs @ ys" using c(3) call(3) by (auto simp: prefix_def)
  then have "drop k d = drop k (take k d @ bs @ ys)" by simp
  also have "\<dots> = bs @ ys" using k by simp
  finally have dk: "drop k d = bs @ ys" .
  have lk: "k + length bs \<le> length d" using arg_cong [OF dk, of length] k by simp
  have del: "delivered Z bs p p2" by (rule refilled_delivered [OF r(5) 2(2)])
  have meth: "pr_compression_method p1 = of_int Z_DEFLATED" "pr_raw p1 = 0" using r(5) i by (simp_all add: refilled_def)
  have eof: "(if x = 0 then UNZ_EOF else sint x) = sint x" for x :: uInt by simp
  have src2: "iv_taken V (zstate strm) @ source ?f p2 = c"
  proof -
    have "take (avail_in ?s - avail_in strm) (next_in ?s) @ next_in strm @ drop (avail_in ?s) (source ?f p1) = source ?f p1"
      using inp(1) pre by (metis append.assoc)
    then show ?thesis using call(4) 2(4) src(1) by simp
  qed
  have lg: "length (iv_given V (zstate strm)) = k + length bs" using call(3) k by simp
  have live: "iv_live V (zstate strm)" if "k + length bs < length d"
  proof -
    have "iv_given V (zstate strm) \<noteq> d" using lg that by auto
    with c(4) show ?thesis by blast
  qed
  have tk: "take (k + length bs) d = take k d @ bs" using dk k by (simp add: take_add)
  have "inflating ff h ?f V d c p2 (k + length bs)"
    unfolding inflating_def
  proof (intro conjI impI)
    show "pr_rest_read_uncompressed p2 = of_nat (length d - (k + length bs))"
      using del i lk by (simp add: delivered_def of_nat_diff)
  qed (use 2(3,5) del i lk live call(2,3) tk src2 in \<open>simp_all add: delivered_def\<close>)
  moreover have "read_loop Z UNZ_OK iRead p buf w =
      (if err = Z_STREAM_END then Some (sint (iRead + of_nat (length bs)), p2, buf_write (next_out (pr_stream p)) bs buf, store h (s_seek q1 st) w)
       else read_loop Z UNZ_OK (iRead + of_nat (length bs)) p2 (buf_write (next_out (pr_stream p)) bs buf) (store h (s_seek q1 st) w))" for iRead
    using a(1) r(1) meth 2(1) c(4) ao eof [of "iRead + of_nat (length bs)"] by (auto simp: read_loop.simps [of Z 0 _ p])
  moreover have "err = Z_STREAM_END \<longrightarrow> k + length bs = length d" using c(4) lg by auto
  moreover have "bs = take (length bs) (drop k d)" using dk by simp
  moreover have "length bs \<le> avail_out (pr_stream p)" "avail_out (pr_stream p2) = avail_out (pr_stream p) - length bs"
    "next_out (pr_stream p2) = next_out (pr_stream p) + length bs"
    using call(1) ao 2(3) by (auto simp: strm_step_def)
  moreover have "length (source ?f p2) \<le> length (source ?f p)" "length (source ?f p2) < length (source ?f p) \<or> bs \<noteq> []"
  proof -
    have "length (source ?f p2) + (avail_in ?s - avail_in strm) = length (source ?f p)"
      using arg_cong [OF pre, of length] inp(2) by (simp add: 2(4) r(3))
    then show "length (source ?f p2) \<le> length (source ?f p)" "length (source ?f p2) < length (source ?f p) \<or> bs \<noteq> []"
      using call(5) by auto
  qed
  ultimately show ?thesis using del by blast
qed

end

context filefunc
begin

lemma read_loop_inflate:
  fixes p :: "('w, 'z) file_in_zip64_read_info_s"
  assumes Z: "crc32_streams Z" "inflates Z V" and "inflating ff h (s_data st) V d c p k"
    "fetch w h = Some st" "s_rd st" "length (s_data st) < 2 ^ 63"
    "avail_out (pr_stream p) = a" "a < 2 ^ 32" "k + a \<le> length d"
  shows "\<exists>p' q. read_loop Z UNZ_OK iRead p buf w = Some (sint (iRead + of_nat a), p',
        buf_write (next_out (pr_stream p)) (take a (drop k d)) buf, store h (s_seek q st) w)
    \<and> inflating ff h (s_data st) V d c p' (k + a) \<and> delivered Z (take a (drop k d)) p p'"
  using assms(3-)
proof (induction "length (source (s_data st) p) + a" arbitrary: p w st iRead buf k a rule: less_induct)
  case less
  let ?f = "s_data st"
  show ?case
  proof (cases "a = 0")
    case True
    have "store h (s_seek (s_pos st) st) w = w" using store_fetch [OF less.prems(2)] by (simp add: s_seek_def)
    moreover have "buf_write n [] buf = buf" for n by (rule ext) (auto simp: buf_write_def)
    ultimately show ?thesis using True less.prems(1,5) delivered_none [OF Z(1), of p]
      by (intro exI [of _ p] exI [of _ "s_pos st"]) (simp add: read_loop.simps [of Z 0])
  next
    case False
    have k: "k < length d" "0 < avail_out (pr_stream p)" "avail_out (pr_stream p) < 2 ^ 32" using False less.prems(5-7) by auto
    obtain err bs p1 q1 where r: "\<And>iRead. read_loop Z UNZ_OK iRead p buf w =
      (if err = Z_STREAM_END then Some (sint (iRead + of_nat (length bs)), p1, buf_write (next_out (pr_stream p)) bs buf, store h (s_seek q1 st) w)
       else read_loop Z UNZ_OK (iRead + of_nat (length bs)) p1 (buf_write (next_out (pr_stream p)) bs buf) (store h (s_seek q1 st) w))"
      "bs = take (length bs) (drop k d)" "inflating ff h ?f V d c p1 (k + length bs)" "delivered Z bs p p1"
      "length bs \<le> a" "avail_out (pr_stream p1) = a - length bs" "next_out (pr_stream p1) = next_out (pr_stream p) + length bs"
      "err = Z_STREAM_END \<longrightarrow> k + length bs = length d" "length (source ?f p1) \<le> length (source ?f p)"
      "length (source ?f p1) < length (source ?f p) \<or> bs \<noteq> []"
      using inflate_round [OF Z less.prems(1) k(1) less.prems(2-4) k(2,3), of buf] less.prems(5) by blast
    let ?n = "length bs" and ?o = "next_out (pr_stream p)"
    let ?w1 = "store h (s_seek q1 st) w" and ?buf1 = "buf_write ?o bs buf"
    show ?thesis
    proof (cases "err = Z_STREAM_END")
      case True
      then have "?n = a" using r(5,8) less.prems(7) by linarith
      moreover from this have "bs = take a (drop k d)" using r(2) by simp
      ultimately show ?thesis using r(1,3,4) True by auto
    next
      case False
      have "\<exists>p' q. read_loop Z UNZ_OK (iRead + of_nat ?n) p1 ?buf1 ?w1 = Some (sint ((iRead + of_nat ?n) + of_nat (a - ?n)), p',
          buf_write (next_out (pr_stream p1)) (take (a - ?n) (drop (k + ?n) d)) ?buf1, store h (s_seek q (s_seek q1 st)) ?w1)
        \<and> inflating ff h (s_data (s_seek q1 st)) V d c p' ((k + ?n) + (a - ?n))
        \<and> delivered Z (take (a - ?n) (drop (k + ?n) d)) p1 p'"
      proof (rule less.hyps)
        show "length (source (s_data (s_seek q1 st)) p1) + (a - ?n) < length (source ?f p) + a"
          using r(5,9,10) by (cases bs) auto
        show "fetch ?w1 h = Some (s_seek q1 st)" by (rule fetch_store [OF less.prems(2)])
      qed (use r(3,5,6) less.prems in simp_all)
      then obtain p2 q2 where i: "read_loop Z UNZ_OK (iRead + of_nat ?n) p1 ?buf1 ?w1 = Some (sint ((iRead + of_nat ?n) + of_nat (a - ?n)), p2,
          buf_write (?o + ?n) (take (a - ?n) (drop (k + ?n) d)) ?buf1, store h (s_seek q2 st) w)"
        "inflating ff h ?f V d c p2 (k + a)" "delivered Z (take (a - ?n) (drop (k + ?n) d)) p1 p2"
        using r(5,7) by (auto simp: store_store)
      have ta: "bs @ take (a - ?n) (drop (k + ?n) d) = take a (drop k d)"
        using take_add [of ?n "a - ?n" "drop k d"] r(2,5) by (simp add: add.commute)
      have "(iRead + of_nat ?n) + of_nat (a - ?n) = iRead + of_nat a" using r(5) by (simp add: of_nat_diff)
      then have "read_loop Z UNZ_OK iRead p buf w = Some (sint (iRead + of_nat a), p2, buf_write ?o (take a (drop k d)) buf, store h (s_seek q2 st) w)"
        using r(1) False i(1) by (simp only: buf_write_append ta if_False)
      moreover have "delivered Z (take a (drop k d)) p p2" using delivered_append [OF Z(1) r(4) i(3)] by (simp only: ta)
      ultimately show ?thesis using i(2) by blast
    qed
  qed
qed

lemma read_window_inflate:
  assumes "inflating ff h f V d c p k" "length d < 2 ^ 32"
  shows "read_window p len = min (unat len) (length d - k)"
proof -
  have raw: "pr_raw p = 0" and r: "pr_rest_read_uncompressed p = of_nat (length d - k)"
    using assms by (simp_all add: inflating_def)
  have u: "unat (pr_rest_read_uncompressed p) = length d - k"
    unfolding r by (rule unat_of_nat_small) (use assms(2) in simp)
  have "ucast len > pr_rest_read_uncompressed p \<longleftrightarrow> length d - k < unat len" by (simp add: word_less_nat_alt u ucast_len)
  moreover have "unat (ucast (pr_rest_read_uncompressed p) :: uInt) = length d - k"
    using ucast_small32 [of "pr_rest_read_uncompressed p"] u assms(2) by simp
  ultimately show ?thesis using raw by (simp add: read_window_def min_def)
qed

lemma read_current_inflate:
  fixes s :: "('w, 'z) unz64_s" and st :: stream
  assumes Z: "crc32_streams Z" "inflates Z V" and p: "us_pfile_in_zip_read s = Some p" "inflating ff h (s_data st) V d c p k"
    and st: "fetch w h = Some st" "s_rd st" "length (s_data st) < 2 ^ 63"
    and n: "n = min (unat len) (length d - k)" "n < 2 ^ 31" "length d < 2 ^ 32"
  shows "\<exists>p' q. unzReadCurrentFile Z (Some s) buf len w =
      Some (int n, Some (s\<lparr>us_pfile_in_zip_read := Some p'\<rparr>), buf_write 0 (take n (drop k d)) buf, store h (s_seek q st) w)
    \<and> inflating ff h (s_data st) V d c p' (k + n) \<and> delivered Z (take n (drop k d)) p p'"
proof (cases "len = 0")
  case True
  have "store h (s_seek (s_pos st) st) w = w" using store_fetch [OF st(1)] by (simp add: s_seek_def)
  moreover have "buf_write 0 [] buf = buf" by (rule ext) (auto simp: buf_write_def)
  moreover have "s\<lparr>us_pfile_in_zip_read := Some p\<rparr> = s" using p(1) by simp
  moreover have "pr_read_buffer p" using p(2) by (simp add: inflating_def reader_at_def)
  ultimately show ?thesis using True p delivered_none [OF Z(1), of p] n(1)
    by (intro exI [of _ p] exI [of _ "s_pos st"]) (simp add: unzReadCurrentFile_def)
next
  case False
  let ?p = "p\<lparr>pr_stream := (pr_stream p)\<lparr>next_out := 0, avail_out := read_window p len\<rparr>\<rparr>"
  have win: "read_window p len = n" using read_window_inflate [OF p(2) n(3)] n(1) by simp
  have kd: "k \<le> length d" using p(2) by (simp add: inflating_def)
  have inf: "inflating ff h (s_data st) V d c ?p k"
    using p(2) by (simp add: inflating_def reader_at_def data_pos_def source_def)
  have o: "next_out (pr_stream ?p) = 0" by simp
  have "avail_out (pr_stream ?p) = n" "n < 2 ^ 32" "k + n \<le> length d" using win n kd by auto
  from read_loop_inflate [OF Z inf st this, of 0 buf, unfolded o]
  obtain p' q where r: "read_loop Z UNZ_OK 0 ?p buf w = Some (sint (0 + of_nat n :: uInt), p',
        buf_write 0 (take n (drop k d)) buf, store h (s_seek q st) w)"
    "inflating ff h (s_data st) V d c p' (k + n)" "delivered Z (take n (drop k d)) ?p p'"
    by blast
  have del: "delivered Z (take n (drop k d)) p p'" using r(3) by (simp add: delivered_def)
  moreover have "pr_read_buffer p" using p(2) by (simp add: inflating_def reader_at_def)
  ultimately show ?thesis using False p(1) r sint_of_nat32 [OF n(2)]
    by (intro exI [of _ p'] exI [of _ q]) (simp add: unzReadCurrentFile_def Let_def)
qed

text \<open>Opening it.\<close>

lemma open_current_inflate:
  fixes s :: "('w, 'z) unz64_s" and st :: stream and Z :: "'z zlib"
  assumes Z: "inflates Z V" and op: "opened ff h pre es c s" and at: "at_entry es n s" "us_pfile_in_zip_read s = None"
    and st: "fetch w h = Some st" "s_rd st" "\<not> s_err st" and d: "s_data st = pre @ archive_bytes es c"
    and ok: "archive_ok pre es c" and mt: "malloc_total \<sigma>" and e: "e = es ! n"
    and coded: "nf_method (ze_file e) = Z_DEFLATED" "cv_coded V D (ze_data e)" "ze_size e = of_nat (length D)"
  shows "\<exists>ml p \<sigma>' q. unzOpenCurrentFile3 Z strm0 (Some s) 0 None \<sigma> w =
      (UNZ_OK, Some ml, Some (s\<lparr>us_pfile_in_zip_read := Some p, us_encrypted := 0\<rparr>), \<sigma>', store h (s_seek q st) w)
    \<and> malloc_total \<sigma>' \<and> inflating ff h (s_data st) V D (ze_data e) p 0
    \<and> pr_crc32 p = 0 \<and> pr_crc32_wait p = field 4 (ze_crc e) \<and> pr_raw p = 0"
proof -
  obtain strm where i: "zl_inflateInit2 Z (strm0\<lparr>total_out := 0, next_in := []\<rparr>) (- MAX_WBITS) = (Z_OK, strm)" "\<not> msg_set strm"
    "iv_live V (zstate strm)" "iv_taken V (zstate strm) = []" "iv_given V (zstate strm) = []"
    using Z unfolding inflates_def inflate_starts_def by blast
  have "if nf_method (ze_file e) = Z_DEFLATED \<and> (0 :: int) = 0
      then zl_inflateInit2 Z (strm0\<lparr>total_out := 0, next_in := []\<rparr>) (- MAX_WBITS) = (Z_OK, strm) \<and> of_int Z_DEFLATED = (of_int Z_DEFLATED :: uLong)
      else strm = strm0\<lparr>total_out := 0\<rparr> \<and> of_int Z_DEFLATED = (0 :: uLong)" using coded(1) i(1) by simp
  from open_current_gen [OF op at st d ok mt e this] obtain ml p \<sigma>' q where
    1: "unzOpenCurrentFile3 Z strm0 (Some s) 0 None \<sigma> w =
      (UNZ_OK, Some ml, Some (s\<lparr>us_pfile_in_zip_read := Some p, us_encrypted := 0\<rparr>), \<sigma>', store h (s_seek q st) w)"
    "malloc_total \<sigma>'" "reader_at ff h (s_data st) p" "source (s_data st) p = ze_data e"
    "pr_crc32 p = 0" "pr_crc32_wait p = field 4 (ze_crc e)" "pr_raw p = 0"
    "pr_compression_method p = of_int (nf_method (ze_file e))" "pr_rest_read_uncompressed p = ze_size e"
    "pr_stream p = strm\<lparr>next_in := []\<rparr>" by blast
  have "inflating ff h (s_data st) V D (ze_data e) p 0"
    using 1 i coded by (simp add: inflating_def)
  with 1 show ?thesis by blast
qed

end

section \<open>Reading an entry\<close>

text \<open>
  However the entry is stored: reading will deliver \<open>D\<close>. A file that is stored holds its data, and
  one that is deflated a compressed form of it.
\<close>

definition serves ::
    "'z zlib \<Rightarrow> 'w zlib_filefunc64_32_def \<Rightarrow> voidpf \<Rightarrow> byte list \<Rightarrow> ('w, 'z) file_in_zip64_read_info_s \<Rightarrow> byte list \<Rightarrow> bool" where
  "serves Z ff h f p D \<longleftrightarrow> pr_raw p = 0 \<and> pr_rest_read_uncompressed p = of_nat (length D) \<and> length D < 2 ^ 32
     \<and> (reader_ok ff h f p \<and> source f p = D
        \<or> (\<exists>V d c k. inflates Z V \<and> inflating ff h f V d c p k \<and> drop k d = D \<and> length d < 2 ^ 32))"

definition holds :: "'z zlib \<Rightarrow> zip_entry \<Rightarrow> byte list \<Rightarrow> bool" where
  "holds Z e D \<longleftrightarrow> ze_size e = of_nat (length D)
     \<and> (nf_method (ze_file e) = 0 \<and> ze_data e = D
        \<or> nf_method (ze_file e) = Z_DEFLATED \<and> length D < 2 ^ 32 \<and> (\<exists>V. inflates Z V \<and> cv_coded V D (ze_data e)))"

context filefunc
begin

lemma read_current_serves:
  fixes s :: "('w, 'z) unz64_s" and st :: stream
  assumes Z: "crc32_streams Z" and p: "us_pfile_in_zip_read s = Some p" "serves Z ff h (s_data st) p D"
    and st: "fetch w h = Some st" "s_rd st" "length (s_data st) < 2 ^ 63"
    and n: "n = min (unat len) (length D)" "n < 2 ^ 31"
  shows "\<exists>p' q. unzReadCurrentFile Z (Some s) buf len w =
      Some (int n, Some (s\<lparr>us_pfile_in_zip_read := Some p'\<rparr>), buf_write 0 (take n D) buf, store h (s_seek q st) w)
    \<and> serves Z ff h (s_data st) p' (drop n D) \<and> delivered Z (take n D) p p'"
proof -
  have D: "length D < 2 ^ 32" and raw: "pr_raw p = 0" and rest: "pr_rest_read_uncompressed p = of_nat (length D)"
    using p(2) by (simp_all add: serves_def)
  have left: "pr_raw p' = 0" "pr_rest_read_uncompressed p' = of_nat (length (drop n D))" "length (drop n D) < 2 ^ 32"
    if "delivered Z (take n D) p p'" for p' :: "('w, 'z) file_in_zip64_read_info_s"
    using that raw rest n(1) D by (simp_all add: delivered_def of_nat_diff)
  consider (copy) "reader_ok ff h (s_data st) p" "source (s_data st) p = D"
    | (inflate) V d c k where "inflates Z V" "inflating ff h (s_data st) V d c p k" "drop k d = D" "length d < 2 ^ 32"
    using p(2) unfolding serves_def by blast
  then show ?thesis
  proof cases
    case copy
    have "counted (s_data st) p" "length D < 2 ^ 63" using rest copy(2) D by (simp_all add: counted_def)
    from read_current_eq [OF Z p(1) copy(1) this(1) st copy(2) [symmetric] n this(2), of buf]
    obtain p' q where r: "unzReadCurrentFile Z (Some s) buf len w =
        Some (int n, Some (s\<lparr>us_pfile_in_zip_read := Some p'\<rparr>), buf_write 0 (take n D) buf, store h (s_seek q st) w)"
      "reader_ok ff h (s_data st) p'" "source (s_data st) p' = drop n D" "delivered Z (take n D) p p'" by blast
    then have "serves Z ff h (s_data st) p' (drop n D)" using left [OF r(4)] by (simp add: serves_def)
    with r show ?thesis by blast
  next
    case inflate
    have n': "n = min (unat len) (length d - k)" using n(1) inflate(3) by auto
    from read_current_inflate [OF Z inflate(1) p(1) inflate(2) st n' n(2) inflate(4), of buf]
    obtain p' q where r: "unzReadCurrentFile Z (Some s) buf len w =
        Some (int n, Some (s\<lparr>us_pfile_in_zip_read := Some p'\<rparr>), buf_write 0 (take n D) buf, store h (s_seek q st) w)"
      "inflating ff h (s_data st) V d c p' (k + n)" "delivered Z (take n D) p p'"
      unfolding inflate(3) by blast
    have "drop (k + n) d = drop n D" using inflate(3) by (metis add.commute drop_drop)
    then have "serves Z ff h (s_data st) p' (drop n D)"
      using left [OF r(3)] r(2) inflate(1,4) unfolding serves_def by blast
    with r show ?thesis by blast
  qed
qed

lemma open_current_holds:
  fixes s :: "('w, 'z) unz64_s" and st :: stream and Z :: "'z zlib"
  assumes op: "opened ff h pre es c s" and at: "at_entry es n s" "us_pfile_in_zip_read s = None"
    and st: "fetch w h = Some st" "s_rd st" "\<not> s_err st" and d: "s_data st = pre @ archive_bytes es c"
    and ok: "archive_ok pre es c" and mt: "malloc_total \<sigma>" and e: "e = es ! n" "holds Z e D"
  shows "\<exists>ml p \<sigma>' q. unzOpenCurrentFile3 Z strm0 (Some s) 0 None \<sigma> w =
      (UNZ_OK, Some ml, Some (s\<lparr>us_pfile_in_zip_read := Some p, us_encrypted := 0\<rparr>), \<sigma>', store h (s_seek q st) w)
    \<and> malloc_total \<sigma>' \<and> serves Z ff h (s_data st) p D \<and> pr_crc32 p = 0 \<and> pr_crc32_wait p = field 4 (ze_crc e)"
proof (cases "nf_method (ze_file e) = 0")
  case True
  then have h: "ze_size e = of_nat (length (ze_data e))" "ze_data e = D" using e(2) by (simp_all add: holds_def)
  have "e \<in> set es" using at(1) e(1) by (simp add: at_entry_def)
  then have len: "length D < 2 ^ 32" using ok h(2) by (auto simp: archive_ok_def)
  obtain ml p \<sigma>' q where 1: "unzOpenCurrentFile3 Z strm0 (Some s) 0 None \<sigma> w =
      (UNZ_OK, Some ml, Some (s\<lparr>us_pfile_in_zip_read := Some p, us_encrypted := 0\<rparr>), \<sigma>', store h (s_seek q st) w)"
    "malloc_total \<sigma>'" "reader_ok ff h (s_data st) p" "counted (s_data st) p" "source (s_data st) p = ze_data e"
    "pr_crc32 p = 0" "pr_crc32_wait p = field 4 (ze_crc e)" "pr_raw p = 0"
    using open_current_eq [OF op at st d ok mt e(1), of 0 Z strm0] True h(1) by blast
  then have "serves Z ff h (s_data st) p D" using len h(2) by (simp add: serves_def counted_def)
  with 1 show ?thesis by blast
next
  case False
  then obtain V where h: "nf_method (ze_file e) = Z_DEFLATED" "length D < 2 ^ 32" "inflates Z V" "cv_coded V D (ze_data e)"
    "ze_size e = of_nat (length D)" using e(2) by (auto simp: holds_def)
  obtain ml p \<sigma>' q where 1: "unzOpenCurrentFile3 Z strm0 (Some s) 0 None \<sigma> w =
      (UNZ_OK, Some ml, Some (s\<lparr>us_pfile_in_zip_read := Some p, us_encrypted := 0\<rparr>), \<sigma>', store h (s_seek q st) w)"
    "malloc_total \<sigma>'" "inflating ff h (s_data st) V D (ze_data e) p 0"
    "pr_crc32 p = 0" "pr_crc32_wait p = field 4 (ze_crc e)" "pr_raw p = 0"
    using open_current_inflate [OF h(3) op at st d ok mt e(1) h(1,4,5), of strm0] by blast
  have "pr_rest_read_uncompressed p = of_nat (length D)" using 1(3) by (simp add: inflating_def)
  moreover have "drop 0 D = D" by simp
  ultimately have "serves Z ff h (s_data st) p D" using 1(3,6) h(2,3) unfolding serves_def by blast
  with 1 show ?thesis by blast
qed

end

end
