(* ===== verification/RoundTrip.thy ===== *)
theory RoundTrip
  imports Inflate
begin

text \<open>
  An archive that was written is read back: a client that opens an archive, moves to an entry,
  reads it and closes everything gets the data that another client stored.
\<close>

section \<open>Clients\<close>

fun next_files ::
    "nat \<Rightarrow> ('w, 'z) unz64_s option \<Rightarrow> 'w \<Rightarrow> int \<times> ('w, 'z) unz64_s option \<times> 'w" where
  "next_files 0 file w = (UNZ_OK, file, w)"
| "next_files (Suc n) file w =
     (let (err, file, w) = unzGoToNextFile file w
      in if err \<noteq> UNZ_OK then (err, file, w) else next_files n file w)"

text \<open>
  The result has the codes of opening the entry, reading it and closing it, and the buffer. The
  archive is open with its first entry current.
\<close>

definition extract_entry ::
    "'z zlib \<Rightarrow> 'z z_stream \<Rightarrow> ('w, 'z) unz64_s option \<Rightarrow> nat \<Rightarrow> (nat \<Rightarrow> byte) \<Rightarrow> uInt \<Rightarrow> sys \<Rightarrow> 'w
     \<Rightarrow> (int \<times> int \<times> int \<times> (nat \<Rightarrow> byte) \<times> 'w) option" where
  "extract_entry Z strm0 file n buf len \<sigma> w =
     (let (err, file, w) = next_files n file w
      in if err \<noteq> UNZ_OK then Some (err, 0, 0, buf, w)
         else
           (let (err, ml, file, \<sigma>, w) = unzOpenCurrentFile3 Z strm0 file 0 None \<sigma> w
            in if err \<noteq> UNZ_OK then Some (err, 0, 0, buf, w)
               else do {
                 (ret, file, buf, w) \<leftarrow> unzReadCurrentFile Z file buf len w;
                 let (err2, file) = unzCloseCurrentFile Z file;
                 let (_, w) = unzClose Z file w;
                 Some (err, ret, err2, buf, w) }))"

definition extract_from ::
    "'z zlib \<Rightarrow> 'z z_stream \<Rightarrow> unz_file_info64 \<Rightarrow> unz_file_info64_internal \<Rightarrow> path \<Rightarrow> nat \<Rightarrow> (nat \<Rightarrow> byte) \<Rightarrow> uInt
     \<Rightarrow> sys \<Rightarrow> stdio \<Rightarrow> (int \<times> int \<times> int \<times> (nat \<Rightarrow> byte) \<times> stdio) option" where
  "extract_from Z strm0 fi0 fii0 path n buf len \<sigma> w =
     (let (file, \<sigma>, w) = unzOpen64 fi0 fii0 (Some path) \<sigma> w in extract_entry Z strm0 file n buf len \<sigma> w)"

section \<open>Reading the \<open>n\<close>-th entry\<close>

context filefunc
begin

lemma next_files_eq:
  fixes s :: "('w, 'z) unz64_s"
  assumes "opened ff h pre es c s" "fetch w h = Some st" "s_rd st" "\<not> s_err st"
    "s_data st = pre @ archive_bytes es c" "archive_ok pre es c" "at_entry es k s" "k + n < length es"
    "us_pfile_in_zip_read s = None"
  shows "\<exists>s' q. next_files n (Some s) w = (UNZ_OK, Some s', store h (s_seek q st) w)
    \<and> opened ff h pre es c s' \<and> at_entry es (k + n) s' \<and> us_pfile_in_zip_read s' = None"
  using assms
proof (induction n arbitrary: k s w st)
  case 0
  have "store h (s_seek (s_pos st) st) w = w" using store_fetch [OF 0(2)] by (simp add: s_seek_def)
  with 0 show ?case by (intro exI [of _ s] exI [of _ "s_pos st"]) simp
next
  case (Suc n)
  have ne: "Suc k \<noteq> length es" "Suc k < length es" using Suc.prems(8) by auto
  obtain q where g: "unzGoToNextFile_s s w = (UNZ_OK, moved es (Suc k) s, store h (s_seek q st) w)"
    using go_next [OF Suc.prems(1-7)] ne by auto
  let ?w = "store h (s_seek q st) w" and ?s = "moved es (Suc k) s"
  have "opened ff h pre es c ?s" "at_entry es (Suc k) ?s" "us_pfile_in_zip_read ?s = None"
    using Suc.prems(1,9) ne moved_simps by (auto simp: moved_def opened_def at_entry_def)
  then have "\<exists>s' q'. next_files n (Some ?s) ?w = (UNZ_OK, Some s', store h (s_seek q' (s_seek q st)) ?w)
    \<and> opened ff h pre es c s' \<and> at_entry es (Suc k + n) s' \<and> us_pfile_in_zip_read s' = None"
    using Suc.prems by (intro Suc.IH [OF _ fetch_store [OF Suc.prems(2)]]) simp_all
  with g show ?case by (auto simp: unzGoToNextFile_def with_file_def store_store)
qed

lemma extract_eq:
  fixes s :: "('w, 'z) unz64_s"
  assumes Z: "crc32_streams Z" and op: "opened ff h pre es c s" and st: "fetch w h = Some st" "s_rd st" "\<not> s_err st"
    and d: "s_data st = pre @ archive_bytes es c" and ok: "archive_ok pre es c" and at: "at_entry es 0 s"
    and n: "n < length es" and none: "us_pfile_in_zip_read s = None" and mt: "malloc_total \<sigma>" and e: "e = es ! n" "holds Z e D"
    and len: "length D \<le> unat len" "length D < 2 ^ 31"
  shows "\<exists>w'. extract_entry Z strm0 (Some s) n buf len \<sigma> w = Some (UNZ_OK, int (length D),
      (if zl_crc32 Z 0 D = field 4 (ze_crc e) then UNZ_OK else UNZ_CRCERROR), buf_write 0 D buf, w')"
proof -
  obtain s1 q1 where 1: "next_files n (Some s) w = (UNZ_OK, Some s1, store h (s_seek q1 st) w)"
    "opened ff h pre es c s1" "at_entry es n s1" "us_pfile_in_zip_read s1 = None"
    using next_files_eq [OF op st d ok at _ none, of n] n by auto
  let ?w1 = "store h (s_seek q1 st) w"
  have f1: "fetch ?w1 h = Some (s_seek q1 st)" by (rule fetch_store [OF st(1)])
  have d': "s_data (s_seek q1 st) = pre @ archive_bytes es c" "s_rd (s_seek q1 st)" "\<not> s_err (s_seek q1 st)"
    using st d by simp_all
  obtain ml p \<sigma>2 q2 where 2: "unzOpenCurrentFile3 Z strm0 (Some s1) 0 None \<sigma> ?w1 =
      (UNZ_OK, Some ml, Some (s1\<lparr>us_pfile_in_zip_read := Some p, us_encrypted := 0\<rparr>), \<sigma>2, store h (s_seek q2 (s_seek q1 st)) ?w1)"
    "serves Z ff h (s_data (s_seek q1 st)) p D" "pr_crc32 p = 0" "pr_crc32_wait p = field 4 (ze_crc e)"
    using open_current_holds [OF 1(2-4) f1 d'(2,3,1) ok mt e, of strm0] by blast
  let ?w2 = "store h (s_seek q2 (s_seek q1 st)) ?w1" and ?s2 = "s1\<lparr>us_pfile_in_zip_read := Some p, us_encrypted := 0\<rparr>"
  let ?st2 = "s_seek q2 (s_seek q1 st)"
  have f2: "fetch ?w2 h = Some ?st2" by (rule fetch_store [OF f1])
  have l63: "length (s_data ?st2) < 2 ^ 63" using ok d by (simp add: archive_ok_def)
  have p2: "us_pfile_in_zip_read ?s2 = Some p" "serves Z ff h (s_data ?st2) p D" "s_rd ?st2" using 2(2) st(2) by simp_all
  have "length D = min (unat len) (length D)" using len by simp
  from read_current_serves [OF Z p2(1,2) f2 p2(3) l63 this len(2), of buf] obtain p3 q3 where
    3: "unzReadCurrentFile Z (Some ?s2) buf len ?w2 = Some (int (length D),
      Some (?s2\<lparr>us_pfile_in_zip_read := Some p3\<rparr>), buf_write 0 (take (length D) D) buf, store h (s_seek q3 ?st2) ?w2)"
    "serves Z ff h (s_data ?st2) p3 (drop (length D) D)" "delivered Z (take (length D) D) p p3"
    by blast
  have p3: "pr_rest_read_uncompressed p3 = 0" "pr_raw p3 = 0" "pr_crc32 p3 = zl_crc32 Z 0 D"
    "pr_crc32_wait p3 = field 4 (ze_crc e)"
    using 3(2,3) 2(3,4) by (simp_all add: serves_def delivered_def)
  obtain r w3 where 4: "ZCLOSE64 (us_filefunc s1) (us_filestream s1) (store h (s_seek q3 ?st2) ?w2) = (r, w3)" by fastforce
  have "extract_entry Z strm0 (Some s) n buf len \<sigma> w = Some (UNZ_OK, int (length D),
      (if zl_crc32 Z 0 D = field 4 (ze_crc e) then UNZ_OK else UNZ_CRCERROR), buf_write 0 D buf, w3)"
    using 1(1) 2(1) 3(1) 4 p3 by (simp add: extract_entry_def Let_def close_current_eq unzClose_def store_store)
  then show ?thesis by blast
qed

end

section \<open>Written, then read\<close>

lemma foldl_crc32: "crc32_streams Z \<Longrightarrow> foldl (zl_crc32 Z) c bufs = zl_crc32 Z c (concat bufs)"
  by (induction bufs arbitrary: c) (simp_all add: crc32_streams_def)

lemma stdio_open_read:
  assumes "\<not> w_denied w path" "w_files w path = Some d"
  shows "\<exists>w'. ZOPEN64 stdio_filefunc64 (Some path) (ZLIB_FILEFUNC_MODE_READ OR ZLIB_FILEFUNC_MODE_EXISTING) w = (Suc (w_next w), w')
    \<and> stdio_fetch w' (Suc (w_next w)) = Some \<lparr>s_data = d, s_pos = 0, s_rd = True, s_wr = False, s_err = False\<rparr>"
  using assms by (simp add: ZOPEN64_def call_zopen64_def stdio_filefunc64_def fill_fopen64_filefunc_def
      fopen64_file_func_def mode_fopen_def libc_fopen_def stdio_fetch_def)

text \<open>
  The searches of \<open>unzip.c\<close> find the end of this archive: no end record begins in the end
  record itself (its numbers or the comment could spell one), and no ZIP64 locator begins in
  the window that is searched, where the data of the entries could spell one.
\<close>

definition unambiguous :: "byte list \<Rightarrow> zip_entry list \<Rightarrow> byte list \<Rightarrow> bool" where
  "unambiguous pre es c \<longleftrightarrow>
     (let d = pre @ archive_bytes es c in
      (\<forall>j>length pre + central_pos es (length es). take 4 (drop j d) \<noteq> [0x50, 0x4b, 0x05, 0x06])
      \<and> (\<forall>j>0. length d - 0xffff \<le> j \<longrightarrow> take 4 (drop j d) \<noteq> [0x50, 0x4b, 0x06, 0x07]))"

lemma end_signature: "take 4 (end_of_central_dir n sz off c) = [0x50, 0x4b, 0x05, 0x06]"
proof -
  have "putValue_buf 0x06054b50 4 = [0x50, 0x4b, 0x05, 0x06]" by code_simp
  then show ?thesis by (simp add: end_of_central_dir_def)
qed

lemma unambiguous_found:
  assumes "unambiguous pre es c" "archive_ok pre es c" "d = pre @ archive_bytes es c"
  shows "last_sig sig_zip64_locator d (min (length d) 0xffff) = 0"
    "last_sig sig_end_of_central_dir d (min (length d) 0xffff) = length pre + central_pos es (length es)"
proof -
  have u: "\<forall>j>length pre + central_pos es (length es). take 4 (drop j d) \<noteq> [0x50, 0x4b, 0x05, 0x06]"
    "\<forall>j>0. length d - 0xffff \<le> j \<longrightarrow> take 4 (drop j d) \<noteq> [0x50, 0x4b, 0x06, 0x07]"
    using assms(1,3) unfolding unambiguous_def Let_def by blast+
  have bk: "length d - min (length d) 0xffff = length d - 0xffff" by simp
  show "last_sig sig_zip64_locator d (min (length d) 0xffff) = 0"
    by (rule last_sig_none) (use u(2) bk in \<open>simp_all add: sig_zip64_locator_def\<close>)
  show "last_sig sig_end_of_central_dir d (min (length d) 0xffff) = length pre + central_pos es (length es)"
  proof (rule last_sig_found)
    have "length c + 22 \<le> 0xffff" using assms(2) by (simp add: archive_ok_def)
    then show "length d - min (length d) 0xffff \<le> length pre + central_pos es (length es)"
      unfolding bk assms(3) by (simp add: length_archive)
    show "take 4 (drop (length pre + central_pos es (length es)) d) = sig_end_of_central_dir"
      unfolding assms(3) drop_end by (simp add: end_signature sig_end_of_central_dir_def)
  qed (use u(1) in \<open>simp_all add: sig_end_of_central_dir_def\<close>)
qed

text \<open>Opening an archive through stdio.\<close>

lemma open_stdio_eq:
  assumes there: "\<not> w_denied w path" "w_files w path = Some (pre @ archive_bytes es c)"
    and ok: "archive_ok pre es c" "unambiguous pre es c" "es \<noteq> []" and mt: "malloc_total \<sigma>"
  shows "\<exists>(s :: (stdio, 'z) unz64_s) \<sigma>' w' h st. unzOpen64 fi0 fii0 (Some path) \<sigma> w = (Some s, \<sigma>', w')
    \<and> malloc_total \<sigma>' \<and> stdio_fetch w' h = Some st \<and> s_rd st \<and> \<not> s_err st \<and> s_data st = pre @ archive_bytes es c
    \<and> opened stdio_filefunc64 h pre es c s \<and> at_entry es 0 s \<and> us_pfile_in_zip_read s = None"
proof -
  let ?h = "Suc (w_next w)"
  let ?st = "\<lparr>s_data = pre @ archive_bytes es c, s_pos = 0, s_rd = True, s_wr = False, s_err = False\<rparr>"
  obtain w1 where o: "ZOPEN64 stdio_filefunc64 (Some path) (ZLIB_FILEFUNC_MODE_READ OR ZLIB_FILEFUNC_MODE_EXISTING) w = (?h, w1)"
    "stdio_fetch w1 ?h = Some ?st" using stdio_open_read [OF there] by blast
  obtain s :: "(stdio, 'z) unz64_s" and \<sigma>2 q where 1: "unzOpenInternal_ff fi0 fii0 stdio_filefunc64 (Some path) 1 \<sigma> w = (Some s, \<sigma>2, stdio_store ?h (s_seek q ?st) w1)"
    "malloc_total \<sigma>2" "opened stdio_filefunc64 ?h pre es c s" "at_entry es 0 s" "us_pfile_in_zip_read s = None"
    using stdio64.open_eq [OF o(1) _ o(2) _ _ _ ok(1,3) mt] unambiguous_found [OF ok(2,1) refl] by fastforce
  have f: "stdio_fetch (stdio_store ?h (s_seek q ?st) w1) ?h = Some (s_seek q ?st)" by (rule stdio_fetch_store [OF o(2)])
  have u: "unzOpen64 fi0 fii0 (Some path) \<sigma> w = (Some s, \<sigma>2, stdio_store ?h (s_seek q ?st) w1)"
    using 1(1) by (simp add: unzOpen64_def unzOpenInternal_def)
  show ?thesis
    by (rule exI [of _ s], rule exI [of _ \<sigma>2], rule exI [of _ "stdio_store ?h (s_seek q ?st) w1"], rule exI [of _ ?h],
        rule exI [of _ "s_seek q ?st"]) (simp add: u 1(2-5) f)
qed

lemma extract_from_eq:
  fixes Z :: "'z zlib"
  assumes Z: "crc32_streams Z" and there: "\<not> w_denied w path" "w_files w path = Some (pre @ archive_bytes es c)"
    and ok: "archive_ok pre es c" "unambiguous pre es c" and n: "n < length es" and mt: "malloc_total \<sigma>" and e: "e = es ! n" "holds Z e D"
    and len: "length D \<le> unat len" "length D < 2 ^ 31"
  shows "\<exists>w'. extract_from Z strm0 fi0 fii0 path n buf len \<sigma> w = Some (UNZ_OK, int (length D),
      (if zl_crc32 Z 0 D = field 4 (ze_crc e) then UNZ_OK else UNZ_CRCERROR), buf_write 0 D buf, w')"
proof -
  have "es \<noteq> []" using n by auto
  from open_stdio_eq [OF there ok this mt, of fi0 fii0] obtain s :: "(stdio, 'z) unz64_s" and \<sigma>2 w2 h st where
    1: "unzOpen64 fi0 fii0 (Some path) \<sigma> w = (Some s, \<sigma>2, w2)"
    "malloc_total \<sigma>2" "stdio_fetch w2 h = Some st" "s_rd st" "\<not> s_err st" "s_data st = pre @ archive_bytes es c"
    "opened stdio_filefunc64 h pre es c s" "at_entry es 0 s" "us_pfile_in_zip_read s = None" by blast
  show ?thesis using stdio64.extract_eq [OF Z 1(7,3-6) ok(1) 1(8) n 1(9,2) e len, of strm0 buf] 1(1)
    by (simp add: extract_from_def)
qed

end
