(* ===== verification/UnzNames.thy ===== *)
theory UnzNames
  imports RoundTrip
begin

text \<open>
  Reading the names of the entries of an archive, and finding an entry by its name.
\<close>

text \<open>The names as C strings that fit the buffer of \<open>unzLocateFile\<close>.\<close>

definition names_ok :: "zip_entry list \<Rightarrow> bool" where
  "names_ok es \<longleftrightarrow> (\<forall>e \<in> set es. length (new_file_name (ze_file e)) < UNZ_MAXFILENAMEINZIP \<and> 0 \<notin> set (new_file_name (ze_file e)))"

definition entry_matches :: "byte list \<Rightarrow> int \<Rightarrow> zip_entry \<Rightarrow> bool" where
  "entry_matches name cs e \<longleftrightarrow> unzStringFileNameCompare (new_file_name (ze_file e)) name cs = 0"

lemma c_string_terminated: "0 \<notin> set name \<Longrightarrow> c_string (name @ 0 # r) = name"
  by (induction name) (auto simp: c_string_def)

lemma moved_moved: "moved es j (moved es k s) = moved es j s"
  by (simp add: moved_def)

context filefunc
begin

lemma entry_name_eq:
  fixes s :: "('w, 'z) unz64_s"
  assumes op: "opened ff h pre es c s" and st: "fetch w h = Some st" "s_rd st" "\<not> s_err st"
    and d: "s_data st = pre @ archive_bytes es c" "length (s_data st) < 2 ^ 63" and at: "at_entry es n s"
    and buf: "length (new_file_name (ze_file (es ! n))) < length buf" "length buf < 2 ^ 16"
  shows "\<exists>q. unzGetCurrentFileInfo64 (Some s) (no_bufs\<lparr>ib_szFileName := Some buf\<rparr>) w =
    (UNZ_OK, Some (entry_info (es ! n)),
     no_bufs\<lparr>ib_szFileName := Some (new_file_name (ze_file (es ! n)) @ 0 # drop (Suc (length (new_file_name (ze_file (es ! n))))) buf)\<rparr>,
     store h (s_seek q st) w)"
proof -
  let ?p = "length pre + central_pos es n"
  have n: "n < length es" using at by (simp add: at_entry_def)
  obtain r where r: "drop ?p (s_data st) = entry_central (of_nat (local_pos es n)) (es ! n) @ r"
    using drop_central [OF n, of pre c] d(1) by auto
  have p: "us_pos_in_central_dir s + us_byte_before_the_zipfile s = of_nat ?p"
    using op at by (simp add: opened_def at_entry_def)
  have "?p < 2 ^ 63" using d central_pos_mono [of n es] n length_archive [of es c] by simp
  moreover have "us_filefunc s = ff" "us_filestream s = h" using op by (simp_all add: opened_def)
  ultimately show ?thesis
    using file_name_eq [OF _ _ st p _ r [unfolded entry_central_def dir_header_def] buf]
    by (auto simp: entry_info_def Let_def unzGetCurrentFileInfo64_def)
qed

lemma locate_loop_eq:
  fixes s :: "('w, 'z) unz64_s"
  assumes "opened ff h pre es c s" "fetch w h = Some st" "s_rd st" "\<not> s_err st"
    "s_data st = pre @ archive_bytes es c" "archive_ok pre es c" "names_ok es" "k < length es"
    "length junk = UNZ_MAXFILENAMEINZIP + 1"
  shows "\<exists>n q. k \<le> n \<and> n < length es \<and> (\<forall>j. k \<le> j \<and> j < n \<longrightarrow> \<not> entry_matches name cs (es ! j))
    \<and> (if entry_matches name cs (es ! n)
       then locate_loop junk name cs UNZ_OK (moved es k s) w = Some (UNZ_OK, True, moved es n s, store h (s_seek q st) w)
       else Suc n = length es
         \<and> locate_loop junk name cs UNZ_OK (moved es k s) w = Some (UNZ_END_OF_LIST_OF_FILE, False, moved es n s, store h (s_seek q st) w))"
  using assms
proof (induction "length es - k" arbitrary: k w st)
  case (Suc m)
  note op = Suc.prems(1) and st = Suc.prems(2-4) and d = Suc.prems(5) and ok = Suc.prems(6) and k = Suc.prems(8)
  let ?s = "moved es k s" and ?name = "new_file_name (ze_file (es ! k))" and ?buf = "take UNZ_MAXFILENAMEINZIP junk"
  have nm: "length ?name < 256" "0 \<notin> set ?name" using Suc.prems(7) k by (auto simp: names_ok_def)
  have at: "at_entry es k ?s" "opened ff h pre es c ?s" using moved_simps(1) [OF k] op by (simp_all add: moved_simps(2))
  have "length ?name < length ?buf" "length ?buf < 2 ^ 16" using nm(1) Suc.prems(9) by simp_all
  moreover have "length (s_data st) < 2 ^ 63" using ok d by (simp add: archive_ok_def)
  ultimately obtain q where i: "unzGetCurrentFileInfo64 (Some ?s) (no_bufs\<lparr>ib_szFileName := Some ?buf\<rparr>) w =
    (UNZ_OK, Some (entry_info (es ! k)),
     no_bufs\<lparr>ib_szFileName := Some (?name @ 0 # drop (Suc (length ?name)) ?buf)\<rparr>, store h (s_seek q st) w)"
    using entry_name_eq [OF at(2) st d _ at(1)] by blast
  let ?st = "s_seek q st" and ?w = "store h (s_seek q st) w"
  have st': "fetch ?w h = Some ?st" "s_rd ?st" "\<not> s_err ?st" "s_data ?st = pre @ archive_bytes es c"
    using fetch_store [OF st(1)] st d by simp_all
  have cstr: "c_string (?name @ 0 # drop (Suc (length ?name)) ?buf @ drop UNZ_MAXFILENAMEINZIP junk) = ?name"
    by (rule c_string_terminated [OF nm(2)])
  have step: "locate_loop junk name cs UNZ_OK ?s w =
      (if entry_matches name cs (es ! k) then Some (UNZ_OK, True, ?s, ?w)
       else (case unzGoToNextFile_s ?s ?w of (err, s, w) \<Rightarrow> locate_loop junk name cs err s w))"
    by (subst locate_loop.simps) (simp add: i [simplified] cstr [simplified] entry_matches_def Let_def)
  show ?case
  proof (cases "entry_matches name cs (es ! k)")
    case True
    show ?thesis by (rule exI [of _ k], rule exI [of _ q]) (use step k True in auto)
  next
    case False
    obtain q2 where g: "unzGoToNextFile_s ?s ?w = (if Suc k = length es then (UNZ_END_OF_LIST_OF_FILE, ?s, store h (s_seek (s_pos ?st) ?st) ?w)
        else (UNZ_OK, moved es (Suc k) ?s, store h (s_seek q2 ?st) ?w))"
      using go_next [OF at(2) st' ok at(1)] by blast
    show ?thesis
    proof (cases "Suc k = length es")
      case True
      have fin1: "locate_loop junk name cs (- 100) ?s ?w = Some (- 100, False, ?s, ?w)" by (subst locate_loop.simps) simp
      from g step True False fin1 have "locate_loop junk name cs UNZ_OK ?s w = Some (UNZ_END_OF_LIST_OF_FILE, False, ?s, store h (s_seek q st) w)"
        by (simp add: store_store)
      note fin = this
      show ?thesis by (rule exI [of _ k], rule exI [of _ q]) (use fin False True k in auto)
    next
      case ne: False
      let ?st2 = "s_seek q2 ?st" and ?w2 = "store h (s_seek q2 ?st) ?w"
      have "m = length es - Suc k" "Suc k < length es" using Suc.hyps(2) ne k by linarith+
      then obtain n q3 where n: "Suc k \<le> n" "n < length es" "\<forall>j. Suc k \<le> j \<and> j < n \<longrightarrow> \<not> entry_matches name cs (es ! j)"
        "if entry_matches name cs (es ! n)
         then locate_loop junk name cs UNZ_OK (moved es (Suc k) s) ?w2 = Some (UNZ_OK, True, moved es n s, store h (s_seek q3 ?st2) ?w2)
         else Suc n = length es
           \<and> locate_loop junk name cs UNZ_OK (moved es (Suc k) s) ?w2 = Some (UNZ_END_OF_LIST_OF_FILE, False, moved es n s, store h (s_seek q3 ?st2) ?w2)"
        using Suc.hyps(1) [of "Suc k" ?w2 ?st2] op fetch_store [OF st'(1), of ?st2] st' ok Suc.prems(7,9) by auto
      have eq: "locate_loop junk name cs UNZ_OK ?s w = locate_loop junk name cs UNZ_OK (moved es (Suc k) s) ?w2"
        using step g ne False by (simp add: moved_moved)
      have "\<forall>j. k \<le> j \<and> j < n \<longrightarrow> \<not> entry_matches name cs (es ! j)"
        using n(3) False by (metis le_antisym not_less_eq_eq)
      note all = this
      show ?thesis unfolding eq
        by (rule exI [of _ n], rule exI [of _ q3]) (use n all in \<open>cases "entry_matches name cs (es ! n)"; simp add: store_store\<close>)
    qed
  qed
qed simp

text \<open>\<open>unzLocateFile\<close> makes the first match current, or leaves the current entry as it was.\<close>

lemma locate_file_eq:
  fixes s :: "('w, 'z) unz64_s"
  assumes op: "opened ff h pre es c s" and st: "fetch w h = Some st" "s_rd st" "\<not> s_err st"
    and d: "s_data st = pre @ archive_bytes es c" and ok: "archive_ok pre es c" "names_ok es" and at: "at_entry es k s"
    and junk: "length junk = UNZ_MAXFILENAMEINZIP + 1" and name: "length name < UNZ_MAXFILENAMEINZIP"
  shows "\<exists>q. (\<exists>n<length es. entry_matches name cs (es ! n) \<and> (\<forall>j<n. \<not> entry_matches name cs (es ! j))
        \<and> unzLocateFile junk (Some s) name cs w = Some (UNZ_OK, Some (moved es n s), store h (s_seek q st) w))
    \<or> (\<forall>e \<in> set es. \<not> entry_matches name cs e)
        \<and> unzLocateFile junk (Some s) name cs w = Some (UNZ_END_OF_LIST_OF_FILE, Some s, store h (s_seek q st) w)"
proof -
  have ne: "es \<noteq> []" "us_current_file_ok s" using at by (auto simp: at_entry_def)
  have "length (s_data st) < 2 ^ 63" using ok d by (simp add: archive_ok_def)
  from go_first [OF op st d this ne(1)] obtain q1 where
    f: "unzGoToFirstFile_s s w = (UNZ_OK, moved es 0 s, store h (s_seek q1 st) w)" by blast
  let ?w = "store h (s_seek q1 st) w" and ?st = "s_seek q1 st"
  obtain n q where l: "n < length es" "\<forall>j<n. \<not> entry_matches name cs (es ! j)"
    "if entry_matches name cs (es ! n)
     then locate_loop junk name cs UNZ_OK (moved es 0 s) ?w = Some (UNZ_OK, True, moved es n s, store h (s_seek q ?st) ?w)
     else Suc n = length es
       \<and> locate_loop junk name cs UNZ_OK (moved es 0 s) ?w = Some (UNZ_END_OF_LIST_OF_FILE, False, moved es n s, store h (s_seek q ?st) ?w)"
    using locate_loop_eq [OF op fetch_store [OF st(1), of ?st], of 0 junk name cs] st d ok junk ne(1) by auto
  have restored: "(moved es n s)\<lparr>us_num_file := us_num_file s, us_pos_in_central_dir := us_pos_in_central_dir s,
      us_cur_file_info := us_cur_file_info s, us_cur_file_info_internal := us_cur_file_info_internal s\<rparr> = s"
    using ne(2) by (cases s) (simp add: moved_def)
  have run: "unzLocateFile junk (Some s) name cs w =
      (case locate_loop junk name cs UNZ_OK (moved es 0 s) ?w of None \<Rightarrow> None
       | Some (err, found, s2, w) \<Rightarrow>
           Some (err, Some (if found then s2
                         else s2\<lparr>us_num_file := us_num_file s, us_pos_in_central_dir := us_pos_in_central_dir s,
                                 us_cur_file_info := us_cur_file_info s,
                                 us_cur_file_info_internal := us_cur_file_info_internal s\<rparr>), w))"
    using name ne(2) f by (simp add: unzLocateFile_def)
  show ?thesis
  proof (cases "entry_matches name cs (es ! n)")
    case True
    with l run show ?thesis by (auto simp: store_store)
  next
    case False
    then have "\<forall>e \<in> set es. \<not> entry_matches name cs e" using l by (metis in_set_conv_nth less_SucE)
    moreover have "unzLocateFile junk (Some s) name cs w = Some (UNZ_END_OF_LIST_OF_FILE, Some s, store h (s_seek q st) w)"
      unfolding run using False l(3) restored by (simp add: store_store)
    ultimately show ?thesis by blast
  qed
qed

end

end
