(* ===== verification/UnzClient.thy ===== *)
theory UnzClient
  imports UnzNames
begin

text \<open>
  The world \<open>miniunz.c\<close> runs in, its loop that extracts the current entry buffer by buffer, and
  opening an archive through stdio.
\<close>

section \<open>The world of the tool\<close>

text \<open>
  What \<open>miniunz.c\<close> uses beside the archive library: directories, output files, file times, the
  terminal. \<open>mkdir\<close> gives its result and whether \<open>errno\<close> is \<open>ENOENT\<close>; \<open>scanf\<close> with \<open>%1s\<close> a
  character, or \<open>None\<close> where it fails; \<open>fwrite\<close> the number of bytes written.
\<close>

record 'd os =
  os_mkdir :: "path \<Rightarrow> 'd \<Rightarrow> int \<times> bool \<times> 'd"
  os_fopen :: "path \<Rightarrow> string \<Rightarrow> 'd \<Rightarrow> voidpf \<times> 'd"
  os_fwrite :: "byte list \<Rightarrow> voidpf \<Rightarrow> 'd \<Rightarrow> nat \<times> 'd"
  os_fclose :: "voidpf \<Rightarrow> 'd \<Rightarrow> 'd"
  os_utime :: "path \<Rightarrow> tm_unz \<Rightarrow> 'd \<Rightarrow> 'd"
  os_scanf :: "'d \<Rightarrow> byte option \<times> 'd"
  os_print :: "byte list \<Rightarrow> 'd \<Rightarrow> 'd"

text \<open>What is promised of it: \<open>view\<close> are the files, \<open>env\<close> how long a file may get and which cannot be created.\<close>

locale out_system =
  fixes os :: "'d os"
    and view :: "'d \<Rightarrow> path \<Rightarrow> byte list option"
    and writing :: "'d \<Rightarrow> voidpf \<Rightarrow> path \<Rightarrow> bool"
    and env :: "'d \<Rightarrow> nat \<times> (path \<Rightarrow> bool)"
  assumes out_open: "\<not> snd (env d) p \<Longrightarrow> \<exists>h d'. os_fopen os p ''wb'' d = (h, d') \<and> h \<noteq> NULL
      \<and> view d' = (view d)(p \<mapsto> []) \<and> writing d' h p \<and> env d' = env d"
    and out_write: "writing d h p \<Longrightarrow> view d p = Some bs \<Longrightarrow> length bs + length bs' \<le> fst (env d) \<Longrightarrow>
      \<exists>d'. os_fwrite os bs' h d = (length bs', d') \<and> view d' = (view d)(p \<mapsto> bs @ bs') \<and> writing d' h p \<and> env d' = env d"
    and out_close: "view (os_fclose os h d) = view d" "env (os_fclose os h d) = env d"
    and out_mkdir: "os_mkdir os p d = (r, e, d') \<Longrightarrow> view d' = view d \<and> env d' = env d"
    and out_utime: "view (os_utime os p t d) = view d" "env (os_utime os p t d) = env d"
    and out_print: "view (os_print os bs d) = view d" "env (os_print os bs d) = env d"
      "writing (os_print os bs d) h p = writing d h p"

text \<open>Text that is printed.\<close>

definition text_bytes :: "string \<Rightarrow> byte list" where
  "text_bytes = map of_char"

definition digit_char :: "nat \<Rightarrow> byte" where
  "digit_char k = of_nat (if k < 10 then 48 + k else 87 + k)"

fun digits_base :: "nat \<Rightarrow> nat \<Rightarrow> byte list" where
  "digits_base b n = (if b < 2 \<or> n < b then [digit_char n] else digits_base b (n div b) @ [digit_char (n mod b)])"

declare digits_base.simps [simp del]

text \<open>\<open>%d\<close>, and \<open>%w.plu\<close> or \<open>%w.plx\<close> of the digits \<open>ds\<close>.\<close>

definition print_int :: "int \<Rightarrow> byte list" where
  "print_int i = (if i < 0 then text_bytes ''-'' else []) @ digits_base 10 (nat \<bar>i\<bar>)"

definition print_field :: "nat \<Rightarrow> nat \<Rightarrow> byte list \<Rightarrow> byte list" where
  "print_field width precision ds =
     (let ds = replicate (precision - length ds) 48 @ ds in replicate (width - length ds) 32 @ ds)"

definition zip_error :: "int \<Rightarrow> string \<Rightarrow> byte list" where
  "zip_error err f = text_bytes ''error '' @ print_int err @ text_bytes '' with zipfile in '' @ text_bytes f @ [10]"

section \<open>Extracting in pieces\<close>

text \<open>Lines 421-437 of \<open>do_extract_currentfile\<close>. \<open>None\<close> is a loop that does not end.\<close>

partial_function (option) extract_loop ::
    "'z zlib \<Rightarrow> 'd os \<Rightarrow> voidpf \<Rightarrow> uInt \<Rightarrow> ('w, 'z) unz64_s option \<Rightarrow> (nat \<Rightarrow> byte) \<Rightarrow> 'w \<Rightarrow> 'd
     \<Rightarrow> (int \<times> ('w, 'z) unz64_s option \<times> 'w \<times> 'd) option" where
  "extract_loop Z os fout size_buf uf buf w d = do {
     (err, uf, buf, w) \<leftarrow> unzReadCurrentFile Z uf buf size_buf w;
     if err < 0 then Some (err, uf, w, os_print os (zip_error err ''unzReadCurrentFile'') d)
     else if err > 0 then
       (let (n, d) = os_fwrite os (buf_take (nat err) buf) fout d
        in if n \<noteq> nat err then Some (UNZ_ERRNO, uf, w, os_print os (text_bytes ''error in writing extracted file'' @ [10]) d)
           else extract_loop Z os fout size_buf uf buf w d)
     else Some (err, uf, w, d) }"

lemma buf_take_written: "n \<le> length bs \<Longrightarrow> buf_take n (buf_write 0 (take n bs) f) = take n bs"
  by (rule nth_equalityI) (auto simp: buf_take_def buf_write_def)

locale extraction = filefunc ff fetch store limit + out_system os view writing env
  for ff :: "'w zlib_filefunc64_32_def" and fetch store limit and os :: "'d os" and view writing env
begin

lemma extract_loop_eq:
  fixes s :: "('w, 'z) unz64_s"
  assumes Z: "crc32_streams Z" and len: "0 < unat size_buf" "unat size_buf < 2 ^ 31"
  shows "us_pfile_in_zip_read s = Some p \<Longrightarrow> serves Z ff h (s_data st) p D
    \<Longrightarrow> fetch w h = Some st \<Longrightarrow> s_rd st \<Longrightarrow> length (s_data st) < 2 ^ 63
    \<Longrightarrow> writing d fout dest \<Longrightarrow> view d dest = Some bs \<Longrightarrow> length bs + length D \<le> fst (env d)
    \<Longrightarrow> \<exists>p' q d'. extract_loop Z os fout size_buf (Some s) buf w d =
        Some (0, Some (s\<lparr>us_pfile_in_zip_read := Some p'\<rparr>), store h (s_seek q st) w, d')
      \<and> view d' = (view d)(dest \<mapsto> bs @ D) \<and> env d' = env d \<and> delivered Z D p p'"
proof (induction "length D" arbitrary: s p buf w st d bs D rule: less_induct)
  case less
  define n where "n = min (unat size_buf) (length D)"
  have n: "n < 2 ^ 31" "n \<le> length D" using len by (simp_all add: n_def)
  obtain p1 q1 where 1: "unzReadCurrentFile Z (Some s) buf size_buf w =
      Some (int n, Some (s\<lparr>us_pfile_in_zip_read := Some p1\<rparr>), buf_write 0 (take n D) buf, store h (s_seek q1 st) w)"
    "serves Z ff h (s_data st) p1 (drop n D)" "delivered Z (take n D) p p1"
    using read_current_serves [OF Z less.prems(1-5) n_def n(1), of buf] by blast
  let ?buf = "buf_write 0 (take n D) buf" and ?s = "s\<lparr>us_pfile_in_zip_read := Some p1\<rparr>"
  let ?st = "s_seek q1 st" and ?w = "store h (s_seek q1 st) w"
  have fits: "length bs + length (take n D) \<le> fst (env d)" using less.prems(8) n(2) by simp
  obtain d1 where d1: "os_fwrite os (take n D) fout d = (n, d1)" "view d1 = (view d)(dest \<mapsto> bs @ take n D)"
    "writing d1 fout dest" "env d1 = env d"
    using out_write [OF less.prems(6,7) fits] n(2) by auto
  have step: "extract_loop Z os fout size_buf (Some s) buf w d =
      (if 0 < n then extract_loop Z os fout size_buf (Some ?s) ?buf ?w d1 else Some (0, Some ?s, ?w, d))"
    using n(2) by (subst extract_loop.simps) (simp add: 1(1) buf_take_written d1(1))
  show ?case
  proof (cases "D = []")
    case True
    then have "n = 0" "take n D = D" by (simp_all add: n_def)
    with step 1(3) True less.prems(7) show ?thesis
      by (intro exI [of _ p1] exI [of _ q1] exI [of _ d]) (auto simp: fun_upd_idem)
  next
    case False
    then have n0: "0 < n" using len(1) by (simp add: n_def)
    have sh: "length (drop n D) < length D" using n0 False by simp
    have "us_pfile_in_zip_read ?s = Some p1" "serves Z ff h (s_data ?st) p1 (drop n D)"
      "fetch ?w h = Some ?st" "s_rd ?st" "length (s_data ?st) < 2 ^ 63"
      "writing d1 fout dest" "view d1 dest = Some (bs @ take n D)"
      "length (bs @ take n D) + length (drop n D) \<le> fst (env d1)"
      using 1(2) less.prems fetch_store [OF less.prems(3)] d1 n(2) by simp_all
    from less.hyps [OF sh this, of ?buf] obtain p2 q2 d2 where 2:
      "extract_loop Z os fout size_buf (Some ?s) ?buf ?w d1 =
        Some (0, Some (?s\<lparr>us_pfile_in_zip_read := Some p2\<rparr>), store h (s_seek q2 ?st) ?w, d2)"
      "view d2 = (view d)(dest \<mapsto> bs @ D)" "env d2 = env d"
      "delivered Z (drop n D) p1 p2" using d1(2,4) by auto
    have "delivered Z D p p2" using delivered_append [OF Z 1(3) 2(4)] by simp
    then show ?thesis unfolding step using n0 2(1-3)
      by (intro exI [of _ p2] exI [of _ q2] exI [of _ d2]) (simp add: store_store)
  qed
qed

end

end
