(* ===== verification/Miniunz.thy ===== *)
theory Miniunz
  imports UnzClient
begin

text \<open>
  \<open>minizip/miniunz.c\<close>: printing sizes, listing an archive, creating directories, and
  extracting one entry or all of them. Uninitialised local buffers are parameters.
\<close>

section \<open>Printing sizes\<close>

text \<open>One step of the loop of \<open>Display64BitsSize\<close>, at \<open>offset\<close>, and the loop down to offset 0.\<close>

definition size_digit :: "nat \<Rightarrow> ZPOS64_T \<Rightarrow> byte list \<times> nat \<Rightarrow> byte list \<times> nat" where
  "size_digit offset n r =
     (let number = (fst r)[offset := ucast (n mod 10) + 48]
      in (number, if number ! offset \<noteq> 48 then offset else snd r))"

fun size_digits :: "nat \<Rightarrow> ZPOS64_T \<Rightarrow> byte list \<times> nat \<Rightarrow> byte list \<times> nat" where
  "size_digits 0 n r = size_digit 0 n r"
| "size_digits (Suc offset) n r = size_digits offset (n div 10) (size_digit (Suc offset) n r)"

definition Display64BitsSize :: "byte list \<Rightarrow> ZPOS64_T \<Rightarrow> nat \<Rightarrow> byte list" where
  "Display64BitsSize junk n width =
     (let (number, pos_string) = size_digits 19 n (junk[20 := 0], 19);
          size_display_string = 19 - pos_string
      in replicate (width - size_display_string) 32 @ c_string (drop pos_string number))"

section \<open>Listing an archive\<close>

definition list_ratio :: "unz_file_info64 \<Rightarrow> uLong" where
  "list_ratio fi =
     (if fi_uncompressed_size fi > 0 then (fi_compressed_size fi * 100) div fi_uncompressed_size fi else 0)"

definition list_method :: "unz_file_info64 \<Rightarrow> string" where
  "list_method fi =
     (if fi_compression_method fi = 0 then ''Stored''
      else if fi_compression_method fi = of_int Z_DEFLATED then
        (let iLevel = (ucast ((fi_flag fi AND 6) div 2) :: uInt)
         in if iLevel = 0 then ''Defl:N'' else if iLevel = 1 then ''Defl:X'' else ''Defl:F'')
      else if fi_compression_method fi = of_int Z_BZIP2ED then ''BZip2 '' else ''Unkn. '')"

text \<open>
  What \<open>do_list\<close> prints for an entry. \<open>junk\<close> are the uninitialised arrays of
  \<open>Display64BitsSize\<close>. The method \<open>%6s\<close> has six characters.
\<close>

definition list_line :: "byte list \<Rightarrow> unz_file_info64 \<Rightarrow> byte list \<Rightarrow> byte list" where
  "list_line junk fi name =
     (let t = fi_tmu_date fi; lu = (\<lambda>w p n. print_field w p (digits_base 10 (unat n)));
          date = (\<lambda>n. lu 2 2 (ucast n :: uLong))
      in Display64BitsSize junk (fi_uncompressed_size fi) 7
         @ text_bytes ''  '' @ text_bytes (list_method fi) @ text_bytes (if fi_flag fi AND 1 \<noteq> 0 then ''*'' else '' '')
         @ Display64BitsSize junk (fi_compressed_size fi) 7
         @ text_bytes '' '' @ lu 3 0 (list_ratio fi) @ text_bytes ''%  ''
         @ lu 2 2 ((ucast (tmu_mon t) :: uLong) + 1) @ text_bytes ''-'' @ date (tmu_mday t) @ text_bytes ''-''
         @ lu 2 2 ((ucast (tmu_year t) :: uLong) mod 100) @ text_bytes ''  '' @ date (tmu_hour t) @ text_bytes '':''
         @ date (tmu_min t) @ text_bytes ''  '' @ print_field 8 8 (digits_base 16 (unat (fi_crc fi)))
         @ text_bytes ''   '' @ name @ [10])"

definition list_title :: "byte list" where
  "list_title =
     text_bytes ''  Length  Method     Size Ratio   Date    Time   CRC-32     Name'' @ [10]
     @ text_bytes ''  ------  ------     ---- -----   ----    ----   ------     ----'' @ [10]"

lemma next_round:
  assumes "(i :: 'a::len word) < n"
  shows "unat (i + 1) = Suc (unat i)" "unat n - Suc (unat i) < unat n - unat i"
proof -
  have i: "unat i < unat n" using assms by (simp add: word_less_nat_alt)
  moreover have "unat n < 2 ^ LENGTH('a)" by (rule unsigned_less)
  ultimately have "unat i + 1 < 2 ^ LENGTH('a)" by linarith
  then show "unat (i + 1) = Suc (unat i)" by (cases "LENGTH('a)") (simp_all add: unat_word_ariths)
  show "unat n - Suc (unat i) < unat n - unat i" using i by linarith
qed

text \<open>
  The loop over the entries, with the text printed. \<open>junk i\<close> is the uninitialised name buffer of
  round \<open>i\<close>; printing an unterminated name is undefined behaviour (\<open>None\<close>).
\<close>

function list_loop ::
    "(uLong \<Rightarrow> byte list) \<Rightarrow> byte list \<Rightarrow> uLong \<Rightarrow> uLong \<Rightarrow> ('w, 'z) unz64_s option \<Rightarrow> 'w \<Rightarrow> byte list
     \<Rightarrow> (byte list \<times> ('w, 'z) unz64_s option \<times> 'w) option" where
  "list_loop junk num number_entry i uf w printed =
     (if i < number_entry then
        (let (err, fi, ib, w) = unzGetCurrentFileInfo64 uf (no_bufs\<lparr>ib_szFileName := Some (junk i)\<rparr>) w
         in if err \<noteq> UNZ_OK then Some (printed @ zip_error err ''unzGetCurrentFileInfo'', uf, w)
            else if 0 \<notin> set (the (ib_szFileName ib)) then None
            else
              (let printed = printed @ list_line num (the fi) (c_string (the (ib_szFileName ib)));
                   (err, uf, w) = (if i + 1 < number_entry then unzGoToNextFile uf w else (UNZ_OK, uf, w))
               in if err \<noteq> UNZ_OK then Some (printed @ zip_error err ''unzGoToNextFile'', uf, w)
                  else list_loop junk num number_entry (i + 1) uf w printed))
      else Some (printed, uf, w))"
  by pat_completeness auto
termination
proof (relation "measure (\<lambda>(junk, num, n, i, r). unat n - unat i)", goal_cases)
  case (2 junk num n i uf w printed)
  then show ?case by (simp add: next_round)
qed simp

declare list_loop.simps [simp del]

definition do_list ::
    "(uLong \<Rightarrow> byte list) \<Rightarrow> byte list \<Rightarrow> ('w, 'z) unz64_s option \<Rightarrow> 'w
     \<Rightarrow> (int \<times> byte list \<times> ('w, 'z) unz64_s option \<times> 'w) option" where
  "do_list junk num uf w =
     (case unzGetGlobalInfo64 uf of
        (err, None) \<Rightarrow> None
      | (err, Some gi) \<Rightarrow>
          map_option (\<lambda>(printed, uf, w). (0, printed, uf, w)) (list_loop junk num (gi_number_entry gi) 0 uf w list_title))"

section \<open>Names and directories\<close>

definition separator :: "byte \<Rightarrow> bool" where
  "separator c \<longleftrightarrow> c = 47 \<or> c = 92"

text \<open>\<open>filename_withoutpath\<close>: the pointer behind the last separator, as the string it points to.\<close>

fun skip_path :: "byte list \<Rightarrow> byte list \<Rightarrow> byte list" where
  "skip_path [] filename_withoutpath = filename_withoutpath"
| "skip_path (c # p) filename_withoutpath = skip_path p (if separator c then p else filename_withoutpath)"

definition without_path :: "byte list \<Rightarrow> byte list" where
  "without_path name = skip_path name name"

text \<open>
  The loop of \<open>makedir\<close>: \<open>buffer\<close> is \<open>front @ p\<close>, and the string is cut at the next separator while
  the directory in front of it is created.
\<close>

function makedir_loop :: "'d os \<Rightarrow> byte list \<Rightarrow> byte list \<Rightarrow> 'd \<Rightarrow> int \<times> 'd" where
  "makedir_loop os front p d =
     (let seg = takeWhile (\<lambda>c. \<not> separator c) p; rest = dropWhile (\<lambda>c. \<not> separator c) p;
          (r, enoent, d) = os_mkdir os (front @ seg) d
      in if r = -1 \<and> enoent then
           (0, os_print os (text_bytes ''couldn't create directory '' @ front @ seg @ [10]) d)
         else if rest = [] then (1, d)
         else makedir_loop os (front @ seg @ [hd rest]) (tl rest) d)"
  by pat_completeness auto
termination
proof (relation "measure (\<lambda>(os, front, p, d). length p)", goal_cases)
  case (2 os front p d)
  then show ?case using length_dropWhile_le [of "\<lambda>c. \<not> separator c" p]
    by (cases "dropWhile (\<lambda>c. \<not> separator c) p") simp_all
qed simp

declare makedir_loop.simps [simp del]

definition makedir :: "'d os \<Rightarrow> byte list \<Rightarrow> sys \<Rightarrow> 'd \<Rightarrow> int \<times> sys \<times> 'd" where
  "makedir os newdir \<sigma> d =
     (if newdir = [] then (0, \<sigma>, d)
      else
        (let (ok, \<sigma>) = malloc (length newdir + 1) \<sigma>
         in if \<not> ok then (UNZ_INTERNALERROR, \<sigma>, os_print os (text_bytes ''Error allocating memory'' @ [10]) d)
            else
              (let buffer = (if last newdir = 47 then butlast newdir else newdir);
                   (r, enoent, d) = os_mkdir os buffer d
               in if r = 0 then (1, \<sigma>, d)
                  else (let (r, d) = makedir_loop os (take 1 buffer) (drop 1 buffer) d in (r, \<sigma>, d)))))"

section \<open>Extracting an entry\<close>

text \<open>The question whether to overwrite a file; \<open>None\<close> as an answer is a failing \<open>scanf\<close>, after which the tool exits.\<close>

partial_function (option) ask_loop :: "'d os \<Rightarrow> path \<Rightarrow> 'd \<Rightarrow> (byte option \<times> 'd) option" where
  "ask_loop os write_filename d =
     (let d = os_print os (text_bytes ''The file '' @ write_filename @ text_bytes '' exists. Overwrite ? [y]es, [n]o, [A]ll: '') d;
          (answer, d) = os_scanf os d
      in case answer of None \<Rightarrow> Some (None, d)
         | Some rep \<Rightarrow>
             (let rep = (if 97 \<le> sint rep \<and> sint rep \<le> 122 then rep - 0x20 else rep)
              in if rep = 89 \<or> rep = 78 \<or> rep = 65 then Some (Some rep, d) else ask_loop os write_filename d))"

text \<open>The result: skip the file, or \<open>None\<close> to exit; and the new overwrite option.\<close>

definition ask_overwrite :: "'d os \<Rightarrow> path \<Rightarrow> int \<Rightarrow> 'd \<Rightarrow> (bool option \<times> int \<times> 'd) option" where
  "ask_overwrite os write_filename opt_overwrite d =
     (let (ftestexist, d) = os_fopen os write_filename ''rb'' d
      in if ftestexist = NULL then Some (Some False, opt_overwrite, d)
         else do {
           (rep, d) \<leftarrow> ask_loop os write_filename (os_fclose os ftestexist d);
           case rep of None \<Rightarrow> Some (None, opt_overwrite, d)
           | Some rep \<Rightarrow> Some (Some (rep = 78), (if rep = 65 then 1 else opt_overwrite), d) })"

text \<open>
  Creating the output file, and the directory above it when that fails. Both pointers are into
  \<open>filename_inzip\<close>, so that they are equal if no separator was found.
\<close>

definition open_output ::
    "'d os \<Rightarrow> int \<Rightarrow> byte list \<Rightarrow> byte list \<Rightarrow> sys \<Rightarrow> 'd \<Rightarrow> voidpf \<times> sys \<times> 'd" where
  "open_output os opt_extract_without_path filename_inzip write_filename \<sigma> d =
     (let (fout, d) = os_fopen os write_filename ''wb'' d;
          base = without_path filename_inzip;
          (fout, \<sigma>, d) =
            (if fout = NULL \<and> opt_extract_without_path = 0 \<and> length base \<noteq> length filename_inzip then
               (let (r, \<sigma>, d) = makedir os (take (length filename_inzip - length base - 1) filename_inzip) \<sigma> d;
                    (fout, d) = os_fopen os write_filename ''wb'' d
                in (fout, \<sigma>, d))
             else (fout, \<sigma>, d))
      in if fout = NULL then (NULL, \<sigma>, os_print os (text_bytes ''error opening '' @ write_filename @ [10]) d)
         else (fout, \<sigma>, d))"

text \<open>The time stamp of an extracted file, on Unix.\<close>

definition change_file_date :: "'d os \<Rightarrow> path \<Rightarrow> uLong \<Rightarrow> tm_unz \<Rightarrow> 'd \<Rightarrow> 'd" where
  "change_file_date os filename dosdate tmu_date =
     os_utime os filename (tmu_date\<lparr>tmu_year := (if tmu_year tmu_date > 1900 then tmu_year tmu_date - 1900 else tmu_year tmu_date)\<rparr>)"

definition WRITEBUFFERSIZE :: uInt where [simp]: "WRITEBUFFERSIZE = 8192"

definition extract_to ::
    "'z zlib \<Rightarrow> 'd os \<Rightarrow> (nat \<Rightarrow> byte) \<Rightarrow> path \<Rightarrow> unz_file_info64 \<Rightarrow> voidpf \<Rightarrow> ('w, 'z) unz64_s option \<Rightarrow> 'w \<Rightarrow> 'd
     \<Rightarrow> (int \<times> ('w, 'z) unz64_s option \<times> 'w \<times> 'd) option" where
  "extract_to Z os buf write_filename file_info fout uf w d = do {
     (err, uf, w, d) \<leftarrow> extract_loop Z os fout WRITEBUFFERSIZE uf buf w
       (os_print os (text_bytes '' extracting: '' @ write_filename @ [10]) d);
     let d = os_fclose os fout d;
     Some (err, uf, w, if err = 0 then change_file_date os write_filename (fi_dosDate file_info) (fi_tmu_date file_info) d else d) }"

text \<open>The part for an entry that is not a directory. A result without a code is an exit of the tool.\<close>

definition extract_named ::
    "'z zlib \<Rightarrow> 'z z_stream \<Rightarrow> 'd os \<Rightarrow> (nat \<Rightarrow> byte) \<Rightarrow> int \<Rightarrow> int \<Rightarrow> byte list option \<Rightarrow> byte list \<Rightarrow> unz_file_info64
     \<Rightarrow> ('w, 'z) unz64_s option \<Rightarrow> sys \<Rightarrow> 'w \<Rightarrow> 'd
     \<Rightarrow> (int option \<times> int \<times> ('w, 'z) unz64_s option \<times> sys \<times> 'w \<times> 'd) option" where
  "extract_named Z strm0 os buf opt_extract_without_path opt_overwrite password filename_inzip file_info uf \<sigma> w d =
     (let write_filename = (if opt_extract_without_path = 0 then filename_inzip else without_path filename_inzip);
          (err, uf, \<sigma>, w) = unzOpenCurrentFilePassword Z strm0 uf password \<sigma> w;
          d = (if err \<noteq> UNZ_OK then os_print os (zip_error err ''unzOpenCurrentFilePassword'') d else d)
      in do {
        (skip, opt_overwrite, d) \<leftarrow>
          (if opt_overwrite = 0 \<and> err = UNZ_OK then ask_overwrite os write_filename opt_overwrite d
           else Some (Some False, opt_overwrite, d));
        case skip of None \<Rightarrow> Some (None, opt_overwrite, uf, \<sigma>, w, d)
        | Some skip \<Rightarrow>
            (let (fout, \<sigma>, d) = (if \<not> skip \<and> err = UNZ_OK
                   then open_output os opt_extract_without_path filename_inzip write_filename \<sigma> d else (NULL, \<sigma>, d))
             in do {
               (err, uf, w, d) \<leftarrow> (if fout \<noteq> NULL then extract_to Z os buf write_filename file_info fout uf w d
                                 else Some (err, uf, w, d));
               let (err2, uf) = unzCloseCurrentFile Z uf;
               if err = UNZ_OK then
                 Some (Some err2, opt_overwrite, uf, \<sigma>, w,
                   if err2 \<noteq> UNZ_OK then os_print os (zip_error err2 ''unzCloseCurrentFile'') d else d)
               else Some (Some err, opt_overwrite, uf, \<sigma>, w, d) }) })"

definition do_extract_currentfile ::
    "'z zlib \<Rightarrow> 'z z_stream \<Rightarrow> 'd os \<Rightarrow> byte list \<Rightarrow> (nat \<Rightarrow> byte) \<Rightarrow> int \<Rightarrow> int \<Rightarrow> byte list option
     \<Rightarrow> ('w, 'z) unz64_s option \<Rightarrow> sys \<Rightarrow> 'w \<Rightarrow> 'd
     \<Rightarrow> (int option \<times> int \<times> ('w, 'z) unz64_s option \<times> sys \<times> 'w \<times> 'd) option" where
  "do_extract_currentfile Z strm0 os junk buf opt_extract_without_path opt_overwrite password uf \<sigma> w d =
     (let (err, file_info, ib, w) = unzGetCurrentFileInfo64 uf (no_bufs\<lparr>ib_szFileName := Some junk\<rparr>) w
      in if err \<noteq> UNZ_OK then
           Some (Some err, opt_overwrite, uf, \<sigma>, w, os_print os (zip_error err ''unzGetCurrentFileInfo'') d)
         else
           (let (ok, \<sigma>) = malloc (unat WRITEBUFFERSIZE) \<sigma>
            in if \<not> ok then
                 Some (Some UNZ_INTERNALERROR, opt_overwrite, uf, \<sigma>, w,
                   os_print os (text_bytes ''Error allocating memory'' @ [10]) d)
               else if 0 \<notin> set (the (ib_szFileName ib)) then None
               else
                 (let filename_inzip = c_string (the (ib_szFileName ib))
                  in if without_path filename_inzip = [] then
                       (if opt_extract_without_path = 0 then
                          (let d = os_print os (text_bytes ''creating directory: '' @ filename_inzip @ [10]) d;
                               (r, enoent, d) = os_mkdir os filename_inzip d
                           in Some (Some UNZ_OK, opt_overwrite, uf, \<sigma>, w, d))
                        else Some (Some UNZ_OK, opt_overwrite, uf, \<sigma>, w, d))
                     else extract_named Z strm0 os buf opt_extract_without_path opt_overwrite password filename_inzip
                            (the file_info) uf \<sigma> w d)))"

section \<open>Extracting all entries, or one\<close>

text \<open>The name buffer and the heap block of round \<open>i\<close> begin as \<open>junk i\<close> and \<open>buf i\<close>.\<close>

function extract_rounds ::
    "'z zlib \<Rightarrow> 'z z_stream \<Rightarrow> 'd os \<Rightarrow> (uLong \<Rightarrow> byte list) \<Rightarrow> (uLong \<Rightarrow> nat \<Rightarrow> byte) \<Rightarrow> int \<Rightarrow> byte list option
     \<Rightarrow> uLong \<Rightarrow> uLong \<Rightarrow> int \<Rightarrow> ('w, 'z) unz64_s option \<Rightarrow> sys \<Rightarrow> 'w \<Rightarrow> 'd
     \<Rightarrow> (bool \<times> ('w, 'z) unz64_s option \<times> sys \<times> 'w \<times> 'd) option" where
  "extract_rounds Z strm0 os junk buf wp password number_entry i ow uf \<sigma> w d =
     (if i < number_entry then do {
        (err, ow, uf, \<sigma>, w, d) \<leftarrow> do_extract_currentfile Z strm0 os (junk i) (buf i) wp ow password uf \<sigma> w d;
        if err = None then Some (False, uf, \<sigma>, w, d)
        else if err \<noteq> Some UNZ_OK then Some (True, uf, \<sigma>, w, d)
        else
          (let (err, uf, w) = (if i + 1 < number_entry then unzGoToNextFile uf w else (UNZ_OK, uf, w))
           in if err \<noteq> UNZ_OK then Some (True, uf, \<sigma>, w, os_print os (zip_error err ''unzGoToNextFile'') d)
              else extract_rounds Z strm0 os junk buf wp password number_entry (i + 1) ow uf \<sigma> w d) }
      else Some (True, uf, \<sigma>, w, d))"
  by pat_completeness auto
termination
proof (relation "measure (\<lambda>(Z, strm0, os, junk, buf, wp, password, n, i, r). unat n - unat i)", goal_cases)
  case (2 Z strm0 os junk buf wp password n i)
  then show ?case by (simp add: next_round)
qed simp

declare extract_rounds.simps [simp del]

text \<open>The result is 0 whatever happened; without a code the tool has exited.\<close>

definition do_extract ::
    "'z zlib \<Rightarrow> 'z z_stream \<Rightarrow> 'd os \<Rightarrow> (uLong \<Rightarrow> byte list) \<Rightarrow> (uLong \<Rightarrow> nat \<Rightarrow> byte) \<Rightarrow> int \<Rightarrow> int \<Rightarrow> byte list option
     \<Rightarrow> ('w, 'z) unz64_s option \<Rightarrow> sys \<Rightarrow> 'w \<Rightarrow> 'd
     \<Rightarrow> (int option \<times> ('w, 'z) unz64_s option \<times> sys \<times> 'w \<times> 'd) option" where
  "do_extract Z strm0 os junk buf wp ow password uf \<sigma> w d =
     (case unzGetGlobalInfo64 uf of
        (err, None) \<Rightarrow> None
      | (err, Some gi) \<Rightarrow>
          map_option (\<lambda>(ret, r). (if ret then Some 0 else None, r))
            (extract_rounds Z strm0 os junk buf wp password (gi_number_entry gi) 0 ow uf \<sigma> w d))"

definition CASESENSITIVITY :: int where "CASESENSITIVITY = 0"

definition do_extract_onefile ::
    "'z zlib \<Rightarrow> 'z z_stream \<Rightarrow> 'd os \<Rightarrow> byte list \<Rightarrow> byte list \<Rightarrow> (nat \<Rightarrow> byte) \<Rightarrow> byte list \<Rightarrow> int \<Rightarrow> int \<Rightarrow> byte list option
     \<Rightarrow> ('w, 'z) unz64_s option \<Rightarrow> sys \<Rightarrow> 'w \<Rightarrow> 'd
     \<Rightarrow> (int option \<times> ('w, 'z) unz64_s option \<times> sys \<times> 'w \<times> 'd) option" where
  "do_extract_onefile Z strm0 os junkl junk buf filename wp ow password uf \<sigma> w d = do {
     (err, uf, w) \<leftarrow> unzLocateFile junkl uf filename CASESENSITIVITY w;
     if err \<noteq> UNZ_OK then
       Some (Some 2, uf, \<sigma>, w, os_print os (text_bytes ''file '' @ filename @ text_bytes '' not found in the zipfile'' @ [10]) d)
     else do {
       (err, ow, uf, \<sigma>, w, d) \<leftarrow> do_extract_currentfile Z strm0 os junk buf wp ow password uf \<sigma> w d;
       Some (map_option (\<lambda>err. if err = UNZ_OK then 0 else 1) err, uf, \<sigma>, w, d) } }"

end
