(* ===== verification/Minizip.thy ===== *)
theory Minizip
  imports Miniunz ArchiveRun
begin

text \<open>
  \<open>minizip/minizip.c\<close>, the tool that packs files: times and checksums of the files, the command
  line, the names it stores, the loop that feeds a file to the archive, and \<open>main\<close>.
\<close>

section \<open>The world of the tool\<close>

text \<open>
  Files and archive are in one file system. Beside it the tool has \<open>stat\<close>, \<open>localtime\<close>, the
  characters that \<open>scanf\<close> with \<open>%1s\<close> will read, and what was printed.
\<close>

record shell =
  sh_files :: stdio
  sh_mtime :: "path \<Rightarrow> int option"
  sh_localtime :: "int \<Rightarrow> tm_zip"
  sh_input :: "byte list"
  sh_printed :: "byte list"

definition say :: "byte list \<Rightarrow> shell \<Rightarrow> shell" where
  "say bs d = d\<lparr>sh_printed := sh_printed d @ bs\<rparr>"

definition on_files :: "(stdio \<Rightarrow> 'a \<times> stdio) \<Rightarrow> shell \<Rightarrow> 'a \<times> shell" where
  "on_files f d = (let (x, w) = f (sh_files d) in (x, d\<lparr>sh_files := w\<rparr>))"

definition sh_fclose :: "voidpf \<Rightarrow> shell \<Rightarrow> shell" where
  "sh_fclose h d = snd (on_files (libc_fclose h) d)"

text \<open>\<open>feof\<close> after a short \<open>fread\<close>: the end of the file has been reached.\<close>

definition libc_feof :: "voidpf \<Rightarrow> stdio \<Rightarrow> bool" where
  "libc_feof h w = (case stdio_fetch w h of None \<Rightarrow> False | Some s \<Rightarrow> length (s_data s) \<le> s_pos s)"

definition ZIP_WRITEBUFFERSIZE :: nat where "ZIP_WRITEBUFFERSIZE = 16384"
definition MAXFILENAME :: nat where "MAXFILENAME = 256"

text \<open>
  \<open>strncpy\<close> of at most \<open>MAXFILENAME - 1\<close> bytes into an array whose byte \<open>MAXFILENAME\<close> is set to 0: the
  byte between them, which begins as \<open>junk\<close>, belongs to a name that is too long.
\<close>

definition copy_name :: "byte \<Rightarrow> byte list \<Rightarrow> byte list" where
  "copy_name junk f = (if length f < MAXFILENAME - 1 then f else take (MAXFILENAME - 1) f @ [junk])"

text \<open>\<open>name[len - 1]\<close> of an empty name is undefined behaviour.\<close>

definition filetime :: "byte \<Rightarrow> byte list \<Rightarrow> shell \<Rightarrow> (int \<times> tm_zip) option" where
  "filetime junk f d =
     (if f = text_bytes ''-'' then Some (0, sh_localtime d 0)
      else if f = [] then None
      else
        (let name = copy_name junk f;
             len = min (length f) MAXFILENAME;
             name = (if name ! (len - 1) = 47 then name[len - 1 := 0] else name)
         in case sh_mtime d (c_string name) of
              None \<Rightarrow> Some (0, sh_localtime d 0)
            | Some t \<Rightarrow> Some (1, sh_localtime d t)))"

definition check_exist_file :: "path \<Rightarrow> shell \<Rightarrow> int \<times> shell" where
  "check_exist_file filename d =
     (let (h, d) = on_files (libc_fopen filename ''rb'') d
      in if h = NULL then (0, d) else (1, sh_fclose h d))"

section \<open>The checksum and the size of a file\<close>

definition read_error :: "path \<Rightarrow> byte list" where
  "read_error filename = text_bytes ''error in reading '' @ filename @ [10]"

text \<open>One \<open>fread\<close> of the loops, with its test of the result.\<close>

definition read_piece :: "path \<Rightarrow> voidpf \<Rightarrow> shell \<Rightarrow> int \<times> byte list \<times> shell" where
  "read_piece filename fin d =
     (let (bs, d) = on_files (libc_fread ZIP_WRITEBUFFERSIZE fin) d
      in if length bs < ZIP_WRITEBUFFERSIZE \<and> \<not> libc_feof fin (sh_files d) then (ZIP_ERRNO, bs, say (read_error filename) d)
         else (ZIP_OK, bs, d))"

partial_function (option) crc_loop ::
    "'z zlib \<Rightarrow> path \<Rightarrow> voidpf \<Rightarrow> uLong \<Rightarrow> shell \<Rightarrow> (int \<times> uLong \<times> shell) option" where
  "crc_loop Z filename fin calculate_crc d =
     (let (err, bs, d) = read_piece filename fin d;
          calculate_crc = (if bs \<noteq> [] then zl_crc32 Z calculate_crc bs else calculate_crc)
      in if err = ZIP_OK \<and> bs \<noteq> [] then crc_loop Z filename fin calculate_crc d else Some (err, calculate_crc, d))"

definition getFileCrc :: "'z zlib \<Rightarrow> path \<Rightarrow> shell \<Rightarrow> (int \<times> uLong \<times> shell) option" where
  "getFileCrc Z filenameinzip d =
     (let (fin, d) = on_files (libc_fopen filenameinzip ''rb'') d
      in do {
        (err, crc, d) \<leftarrow> (if fin = NULL then Some (ZIP_ERRNO, 0, d) else crc_loop Z filenameinzip fin 0 d);
        let d = (if fin \<noteq> NULL then sh_fclose fin d else d);
        Some (err, crc, say (text_bytes ''file '' @ filenameinzip @ text_bytes '' crc '' @ digits_base 16 (unat crc) @ [10]) d) })"

definition isLargeFile :: "path \<Rightarrow> shell \<Rightarrow> int \<times> shell" where
  "isLargeFile filename d =
     (let (pFile, d) = on_files (libc_fopen filename ''rb'') d
      in if pFile = NULL then (0, d)
         else
           (let (n, d) = on_files (libc_fseek pFile 0 ZLIB_FILEFUNC_SEEK_END) d;
                (pos, d) = on_files (libc_ftell pFile) d;
                d = say (text_bytes ''File : '' @ filename @ text_bytes '' is '' @ print_int pos @ text_bytes '' bytes'' @ [10]) d
            in (if (of_int pos :: ZPOS64_T) \<ge> 0xffffffff then 1 else 0, sh_fclose pFile d)))"

section \<open>The command line\<close>

record pack_options =
  po_overwrite :: int
  po_level :: int
  po_exclude_path :: int
  po_zipfilenamearg :: nat
  po_password :: "byte list option"

definition Z_DEFAULT_COMPRESSION :: int where "Z_DEFAULT_COMPRESSION = -1"

text \<open>The letters of an option. A password is the next argument, which is then skipped.\<close>

fun pack_flags :: "byte list list \<Rightarrow> byte list \<Rightarrow> nat \<Rightarrow> pack_options \<Rightarrow> nat \<times> pack_options" where
  "pack_flags argv [] i opts = (i, opts)"
| "pack_flags argv (c # p) i opts =
     (let opts = (if c = 111 \<or> c = 79 then opts\<lparr>po_overwrite := 1\<rparr> else opts);
          opts = (if c = 97 \<or> c = 65 then opts\<lparr>po_overwrite := 2\<rparr> else opts);
          opts = (if 48 \<le> c \<and> c \<le> 57 then opts\<lparr>po_level := uint (c - 48)\<rparr> else opts);
          opts = (if c = 106 \<or> c = 74 then opts\<lparr>po_exclude_path := 1\<rparr> else opts)
      in if (c = 112 \<or> c = 80) \<and> i + 1 < length argv then pack_flags argv p (i + 1) (opts\<lparr>po_password := Some (argv ! (i + 1))\<rparr>)
         else pack_flags argv p i opts)"

lemma pack_flags_mono: "i \<le> fst (pack_flags argv p i opts)"
proof (induction argv p i opts rule: pack_flags.induct)
  case (2 argv c p i opts)
  then show ?case by (fastforce simp: Let_def)
qed simp

function pack_args :: "byte list list \<Rightarrow> nat \<Rightarrow> pack_options \<Rightarrow> pack_options" where
  "pack_args argv i opts =
     (if i < length argv then
        (if argv ! i \<noteq> [] \<and> hd (argv ! i) = 45 then
           (let (i, opts) = pack_flags argv (tl (argv ! i)) i opts in pack_args argv (i + 1) opts)
         else pack_args argv (i + 1) (if po_zipfilenamearg opts = 0 then opts\<lparr>po_zipfilenamearg := i\<rparr> else opts))
      else opts)"
  by pat_completeness auto
termination
proof (relation "measure (\<lambda>(argv, i, opts). length argv - i)", goal_cases)
  case (2 argv i opts x i' opts')
  then have "i' = fst (pack_flags argv (tl (argv ! i)) i opts)" by (metis fst_conv)
  with 2(1) pack_flags_mono [of i argv "tl (argv ! i)" opts] show ?case by simp
qed auto

declare pack_args.simps [simp del]

definition pack_defaults :: pack_options where
  "pack_defaults = \<lparr>po_overwrite = 0, po_level = Z_DEFAULT_COMPRESSION, po_exclude_path = 0, po_zipfilenamearg = 0,
     po_password = None\<rparr>"

text \<open>
  The test that leaves out options among the files, as the code has it: \<open>c >= '0' || c <= '9'\<close> is
  always true.
\<close>

definition option_arg :: "byte list \<Rightarrow> bool" where
  "option_arg a \<longleftrightarrow>
     (let c0 = (a @ [0]) ! 0; c1 = (a @ [0, 0]) ! 1
      in (c0 = 45 \<or> c0 = 47)
         \<and> (c1 = 111 \<or> c1 = 79 \<or> c1 = 97 \<or> c1 = 65 \<or> c1 = 112 \<or> c1 = 80 \<or> (48 \<le> sint c1 \<or> sint c1 \<le> 57))
         \<and> length a = 2)"

text \<open>The name of the archive, with an extension.\<close>

definition archive_name :: "byte \<Rightarrow> byte list \<Rightarrow> byte list" where
  "archive_name junk a =
     (let filename_try = c_string (copy_name junk a)
      in if 46 \<in> set filename_try then filename_try else filename_try @ text_bytes ''.zip'')"

text \<open>The question whether to overwrite. No answer is an exit of the tool.\<close>

fun pack_ask :: "path \<Rightarrow> byte list \<Rightarrow> byte list \<Rightarrow> byte option \<times> byte list \<times> byte list" where
  "pack_ask filename_try printed input =
     (let printed = printed @ text_bytes ''The file '' @ filename_try @ text_bytes '' exists. Overwrite ? [y]es, [n]o, [a]ppend : ''
      in case input of [] \<Rightarrow> (None, printed, [])
         | rep # input \<Rightarrow>
             (let rep = (if 97 \<le> sint rep \<and> sint rep \<le> 122 then rep - 0x20 else rep)
              in if rep = 89 \<or> rep = 78 \<or> rep = 65 then (Some rep, printed, input) else pack_ask filename_try printed input))"

declare pack_ask.simps [simp del]

text \<open>The mode of the archive: \<open>None\<close> to exit, or whether to go on, and the new option.\<close>

definition pack_mode :: "path \<Rightarrow> int \<Rightarrow> shell \<Rightarrow> (bool \<times> int) option \<times> shell" where
  "pack_mode filename_try opt_overwrite d =
     (if opt_overwrite = 2 then
        (let (r, d) = check_exist_file filename_try d in (Some (True, if r = 0 then 1 else 2), d))
      else if opt_overwrite = 0 then
        (let (r, d) = check_exist_file filename_try d
         in if r = 0 then (Some (True, 0), d)
            else
              (let (rep, printed, input) = pack_ask filename_try [] (sh_input d);
                   d = say printed (d\<lparr>sh_input := input\<rparr>)
               in case rep of None \<Rightarrow> (None, d)
                  | Some rep \<Rightarrow> (Some (rep \<noteq> 78, if rep = 65 then 2 else 0), d)))
      else (Some (True, opt_overwrite), d))"

section \<open>Packing a file\<close>

text \<open>The stored name has no leading slashes, and no path with option \<open>-j\<close>.\<close>

definition saved_name :: "int \<Rightarrow> byte list \<Rightarrow> byte list" where
  "saved_name opt_exclude_path filenameinzip =
     (let savefilenameinzip = dropWhile separator filenameinzip
      in if opt_exclude_path \<noteq> 0 then without_path savefilenameinzip else savefilenameinzip)"

text \<open>The loop that copies the file. \<open>None\<close> is a loop that does not end.\<close>

partial_function (option) pack_loop ::
    "'z zlib \<Rightarrow> path \<Rightarrow> voidpf \<Rightarrow> (stdio, 'z) zip64_internal option \<Rightarrow> shell
     \<Rightarrow> (int \<times> (stdio, 'z) zip64_internal option \<times> shell) option" where
  "pack_loop Z filenameinzip fin zf d =
     (let (err, bs, d) = read_piece filenameinzip fin d
      in do {
        (err, zf, d) \<leftarrow>
          (if bs \<noteq> [] then do {
             (err, zf, w) \<leftarrow> zipWriteInFileInZip Z zf bs (sh_files d);
             let d = d\<lparr>sh_files := w\<rparr>;
             Some (err, zf,
               if err < 0 then say (text_bytes ''error in writing '' @ filenameinzip @ text_bytes '' in the zipfile'' @ [10]) d else d) }
           else Some (err, zf, d));
        if err = ZIP_OK \<and> bs \<noteq> [] then pack_loop Z filenameinzip fin zf d else Some (err, zf, d) })"

definition pack_fileinfo :: "tm_zip \<Rightarrow> zip_fileinfo" where
  "pack_fileinfo tm = \<lparr>tmz_date = tm, dosDate = 0, internal_fa = 0, external_fa = 0\<rparr>"

text \<open>
  One file. If the entry cannot be opened, the uninitialised \<open>fin\<close> is tested and closed: undefined
  behaviour.
\<close>

definition pack_file ::
    "'z zlib \<Rightarrow> byte \<Rightarrow> pack_options \<Rightarrow> path \<Rightarrow> (stdio, 'z) zip64_internal option \<Rightarrow> sys \<Rightarrow> shell
     \<Rightarrow> (int \<times> (stdio, 'z) zip64_internal option \<times> sys \<times> shell) option" where
  "pack_file Z junk opts filenameinzip zf \<sigma> d = do {
     (_, tm) \<leftarrow> filetime junk filenameinzip d;
     (_, crcFile, d) \<leftarrow> (if po_password opts \<noteq> None then getFileCrc Z filenameinzip d else Some (ZIP_OK, 0, d));
     let (zip64, d) = isLargeFile filenameinzip d;
     (err, zf, \<sigma>, w) \<leftarrow> zipOpenNewFileInZip3_64 Z zf (Some (saved_name (po_exclude_path opts) filenameinzip))
         (Some (pack_fileinfo tm)) [] [] None (if po_level opts \<noteq> 0 then Z_DEFLATED else 0) (po_level opts) 0
         (- MAX_WBITS) DEF_MEM_LEVEL Z_DEFAULT_STRATEGY (po_password opts) crcFile zip64 \<sigma> (sh_files d);
     let d = d\<lparr>sh_files := w\<rparr>;
     if err \<noteq> ZIP_OK then None
     else
       (let (fin, d) = on_files (libc_fopen filenameinzip ''rb'') d
        in if fin = NULL then
             Some (ZIP_ERRNO, zf, \<sigma>, say (text_bytes ''error in opening '' @ filenameinzip @ text_bytes '' for reading'' @ [10]) d)
           else do {
             (err, zf, d) \<leftarrow> pack_loop Z filenameinzip fin zf d;
             let d = sh_fclose fin d;
             if err < 0 then Some (ZIP_ERRNO, zf, \<sigma>, d)
             else do {
               (err, zf, \<sigma>, w) \<leftarrow> zipCloseFileInZip Z zf \<sigma> (sh_files d);
               let d = d\<lparr>sh_files := w\<rparr>;
               Some (err, zf, \<sigma>,
                 if err \<noteq> ZIP_OK
                 then say (text_bytes ''error in closing '' @ filenameinzip @ text_bytes '' in the zipfile'' @ [10]) d
                 else d) } }) }"

text \<open>The files behind the archive's name, up to the first error; \<open>i\<close> is the index of the first.\<close>

fun pack_files ::
    "'z zlib \<Rightarrow> (nat \<Rightarrow> byte) \<Rightarrow> pack_options \<Rightarrow> nat \<Rightarrow> byte list list \<Rightarrow> (stdio, 'z) zip64_internal option \<Rightarrow> sys \<Rightarrow> shell
     \<Rightarrow> (int \<times> (stdio, 'z) zip64_internal option \<times> sys \<times> shell) option" where
  "pack_files Z junk opts i [] zf \<sigma> d = Some (ZIP_OK, zf, \<sigma>, d)"
| "pack_files Z junk opts i (a # args) zf \<sigma> d =
     (if option_arg a then pack_files Z junk opts (Suc i) args zf \<sigma> d
      else do {
        (err, zf, \<sigma>, d) \<leftarrow> pack_file Z (junk i) opts a zf \<sigma> d;
        if err \<noteq> ZIP_OK then Some (err, zf, \<sigma>, d) else pack_files Z junk opts (Suc i) args zf \<sigma> d })"

section \<open>The program\<close>

definition pack_banner :: "byte list" where
  "pack_banner = text_bytes ''MiniZip 1.1, demo of zLib + MiniZip64 package, written by Gilles Vollant'' @ [10]
     @ text_bytes ''more info on MiniZip at http://www.winimage.com/zLibDll/minizip.html'' @ [10, 10]"

definition pack_help :: "byte list" where
  "pack_help = text_bytes ''Usage : minizip [-o] [-a] [-0 to -9] [-p password] [-j] file.zip [files_to_add]'' @ [10, 10]
     @ text_bytes ''  -o  Overwrite existing file.zip'' @ [10]
     @ text_bytes ''  -a  Append to existing file.zip'' @ [10]
     @ text_bytes ''  -0  Store only'' @ [10]
     @ text_bytes ''  -1  Compress faster'' @ [10]
     @ text_bytes ''  -9  Compress better'' @ [10, 10]
     @ text_bytes ''  -j  exclude path. store only the file name.'' @ [10, 10]"

text \<open>Creating the archive and packing the files into it.\<close>

definition pack_archive ::
    "'z zlib \<Rightarrow> 'z curfile64_info \<Rightarrow> (nat \<Rightarrow> byte) \<Rightarrow> pack_options \<Rightarrow> path \<Rightarrow> byte list list \<Rightarrow> sys \<Rightarrow> shell
     \<Rightarrow> (sys \<times> shell) option" where
  "pack_archive Z ci0 junk opts filename_try argv \<sigma> d = do {
     (zf, _, \<sigma>, w) \<leftarrow> zipOpen64 ci0 (Some filename_try)
        (if po_overwrite opts = 2 then APPEND_STATUS_ADDINZIP else APPEND_STATUS_CREATE) \<sigma> (sh_files d);
     let d = d\<lparr>sh_files := w\<rparr>;
     let d = say (text_bytes (if zf = None then ''error opening '' else ''creating '') @ filename_try @ [10]) d;
     (_, zf, \<sigma>, d) \<leftarrow>
       (if zf = None then Some (ZIP_ERRNO, zf, \<sigma>, d)
        else pack_files Z junk opts (po_zipfilenamearg opts + 1) (drop (po_zipfilenamearg opts + 1) argv) zf \<sigma> d);
     (errclose, \<sigma>, w) \<leftarrow> zipClose Z zf None \<sigma> (sh_files d);
     let d = d\<lparr>sh_files := w\<rparr>;
     Some (\<sigma>, if errclose \<noteq> ZIP_OK then say (text_bytes ''error in closing '' @ filename_try @ [10]) d else d) }"

text \<open>The exit code of the tool and the world it leaves.\<close>

definition minizip_main ::
    "'z zlib \<Rightarrow> 'z curfile64_info \<Rightarrow> (nat \<Rightarrow> byte) \<Rightarrow> byte list list \<Rightarrow> sys \<Rightarrow> shell \<Rightarrow> (int \<times> sys \<times> shell) option" where
  "minizip_main Z ci0 junk argv \<sigma> d =
     (let d = say pack_banner d
      in if length argv = 1 then Some (0, \<sigma>, say pack_help d)
         else
           (let opts = pack_args argv 1 pack_defaults; (ok, \<sigma>) = malloc ZIP_WRITEBUFFERSIZE \<sigma>
            in if \<not> ok then Some (ZIP_INTERNALERROR, \<sigma>, say (text_bytes ''Error allocating memory'' @ [10]) d)
               else if po_zipfilenamearg opts = 0 then Some (0, \<sigma>, say pack_help d)
               else
                 (let filename_try = archive_name (junk 0) (argv ! po_zipfilenamearg opts);
                      (mode, d) = pack_mode filename_try (po_overwrite opts) d
                  in case mode of
                       None \<Rightarrow> Some (1, \<sigma>, d)
                     | Some (False, _) \<Rightarrow> Some (0, \<sigma>, say pack_help d)
                     | Some (True, opt_overwrite) \<Rightarrow>
                         map_option (\<lambda>(\<sigma>, d). (0, \<sigma>, d))
                           (pack_archive Z ci0 junk (opts\<lparr>po_overwrite := opt_overwrite\<rparr>) filename_try argv \<sigma> d))))"

end
