(* ===== verification/MiniunzSpec.thy ===== *)
theory MiniunzSpec
  imports Miniunz
begin

text \<open>
  What \<open>miniunz.c\<close> achieves on an archive: sizes are printed in decimal, the
  listing has a line for each entry, and extraction creates each file with its data.
\<close>

section \<open>Sizes\<close>

lemma digits_base_not0 [simp]: "digits_base b n \<noteq> []"
  by (subst digits_base.simps) simp

lemma digits10: "digits_base 10 n = (if n < 10 then [digit_char n] else digits_base 10 (n div 10) @ [digit_char (n mod 10)])"
  by (subst digits_base.simps) simp

lemma unat_digit_char: "k < 10 \<Longrightarrow> unat (digit_char k) = 48 + k"
  by (simp add: digit_char_def unat_of_nat_small del: of_nat_add)

lemma digit_char_48: "k < 10 \<Longrightarrow> digit_char k = 48 \<longleftrightarrow> k = 0"
  using unat_digit_char [of k] by (auto simp: word_unat_eq_iff)

lemma digits_no_0: "0 \<notin> set (digits_base 10 n)"
proof (induction n rule: less_induct)
  case (less n)
  have "digit_char k \<noteq> 0" if "k < 10" for k
    using unat_digit_char [OF that] by auto
  with less show ?case by (subst digits10) auto
qed

lemma digit_word: "ucast (n mod 10 :: ZPOS64_T) + 48 = digit_char (unat n mod 10)"
proof -
  have m: "unat n mod 10 < 10" by simp
  have "unat (ucast (n mod 10) :: byte) = unat n mod 10"
    using m by (simp add: unsigned_ucast_eq unat_mod take_bit_nat_eq_self_iff)
  then have "unat (ucast (n mod 10 :: ZPOS64_T) + 48 :: byte) = 48 + unat n mod 10"
    using m by (simp add: unat_word_ariths(1))
  with unat_digit_char [OF m] show ?thesis by (metis word_unat_eq_iff)
qed

lemma length_digits: "n < 10 ^ Suc k \<Longrightarrow> length (digits_base 10 n) \<le> Suc k"
proof (induction k arbitrary: n)
  case (Suc k)
  then have "n div 10 < 10 ^ Suc k" by (simp add: div_less_iff_less_mult)
  with Suc.IH [of "n div 10"] show ?case by (subst digits10) simp
qed (simp add: digits10)

lemma size_digits_eq:
  assumes "unat n < 10 ^ Suc k" "k < length (fst r)"
  shows "size_digits k n r =
    (let ds = digits_base 10 (unat n)
     in (replicate (Suc k - length ds) 48 @ ds @ drop (Suc k) (fst r), if n = 0 then snd r else Suc k - length ds))"
  using assms
proof (induction k arbitrary: n r)
  case 0
  obtain number pos where r: "r = (number, pos)" by fastforce
  have "unat n = 0 \<longleftrightarrow> n = 0" by (simp add: unat_eq_0)
  with 0 show ?case unfolding r
    by (auto simp: size_digit_def Let_def digit_word digits10 digit_char_48 list_update_beyond
        upd_conv_take_nth_drop)
next
  case (Suc k)
  obtain number pos where r: "r = (number, pos)" by fastforce
  define c where "c = digit_char (unat n mod 10)"
  define r' where "r' = size_digit (Suc k) n r"
  have u: "unat (n div 10) = unat n div 10" by (simp add: unat_div)
  have r': "r' = (number[Suc k := c], if c \<noteq> 48 then Suc k else pos)"
    using Suc.prems(2) by (simp add: r'_def size_digit_def r digit_word c_def)
  have "unat (n div 10) < 10 ^ Suc k" "k < length (fst r')"
    using Suc.prems by (simp_all add: u r r' div_less_iff_less_mult)
  note IH = Suc.IH [OF this]
  have drop: "drop (Suc k) (fst r') = c # drop (Suc (Suc k)) number"
    using Suc.prems(2) by (simp add: r r' Cons_nth_drop_Suc [symmetric])
  have c48: "c = 48 \<longleftrightarrow> unat n mod 10 = 0" unfolding c_def by (rule digit_char_48) simp
  have run: "size_digits (Suc k) n r = size_digits k (n div 10) r'" by (simp add: r'_def)
  show ?case
  proof (cases "unat n < 10")
    case True
    then have "n div 10 = 0" "digits_base 10 (unat (n div 10)) = [48]" "digits_base 10 (unat n) = [c]"
      using u by (simp_all add: digits10 c_def unat_eq_0 [symmetric] del: unat_eq_0) (simp add: digit_char_def)
    moreover have "n = 0 \<longleftrightarrow> c = 48" using True c48 by (simp add: unat_eq_0 [symmetric])
    ultimately show ?thesis unfolding run IH drop by (simp add: r r' replicate_append_same)
  next
    case False
    then have "n div 10 \<noteq> 0" "n \<noteq> 0" "digits_base 10 (unat n) = digits_base 10 (unat (n div 10)) @ [c]"
      using u by (auto simp: digits10 [of "unat n"] c_def unat_eq_0 [symmetric])
    then show ?thesis unfolding run IH drop by (simp add: r Let_def)
  qed
qed

lemma display_eq:
  assumes "length junk = 21"
  shows "Display64BitsSize junk n width =
    (let ds = digits_base 10 (unat n) in replicate (Suc width - length ds) 32 @ ds)"
proof -
  let ?ds = "digits_base 10 (unat n)"
  have "unat n < 2 ^ LENGTH(64)" by (rule unsigned_less)
  then have small: "unat n < 10 ^ Suc 19" by simp
  have len: "length ?ds \<le> 20" "?ds \<noteq> []" using length_digits [OF small] by simp_all
  have tail: "drop 20 (junk[20 := 0]) = [0]" using assms by (simp add: drop_update_swap length_0_conv [symmetric] list_eq_iff_nth_eq)
  have digits: "size_digits 19 n (junk[20 := 0], 19) =
      (replicate (20 - length ?ds) 48 @ ?ds @ [0], if n = 0 then 19 else 20 - length ?ds)"
    using size_digits_eq [OF small, of "(junk[20 := 0], 19)"] assms tail by (simp add: Let_def)
  have zero: "?ds = [48]" if "n = 0" using that by (simp add: digits10 digit_char_def)
  have cs: "c_string (?ds @ [0]) = ?ds" by (rule c_string_terminated [OF digits_no_0])
  show ?thesis
  proof (cases "n = 0")
    case True
    have "c_string (drop 19 (replicate 19 48 @ [48 :: byte] @ [0])) = [48]" by (simp add: c_string_def)
    with digits zero [OF True] True show ?thesis by (simp add: Display64BitsSize_def)
  next
    case False
    have "0 < length ?ds" using len(2) by simp
    then have "Suc width - length ?ds = width - (19 - (20 - length ?ds))" using len(1) by linarith
    with False cs show ?thesis by (simp add: Display64BitsSize_def digits Let_def)
  qed
qed

section \<open>Names without a path\<close>

lemma skip_path_eq:
  "skip_path p fw = (if \<exists>c \<in> set p. separator c then rev (takeWhile (\<lambda>c. \<not> separator c) (rev p)) else fw)"
proof (induction p arbitrary: fw)
  case (Cons c p)
  show ?case
  proof (cases "\<exists>c \<in> set p. separator c")
    case True
    then show ?thesis by (auto simp add: Cons.IH takeWhile_append)
  next
    case False
    then show ?thesis by (simp add: Cons.IH takeWhile_append)
  qed
qed simp

lemma without_path_eq: "without_path name = rev (takeWhile (\<lambda>c. \<not> separator c) (rev name))"
proof (cases "\<exists>c \<in> set name. separator c")
  case False
  then have "takeWhile (\<lambda>c. \<not> separator c) (rev name) = rev name"
    by (intro takeWhile_eq_all_conv [THEN iffD2]) simp
  then show ?thesis using False unfolding without_path_def skip_path_eq by (simp only: if_False rev_rev_ident)
qed (simp add: without_path_def skip_path_eq)

lemma without_path_no_separator: "\<forall>c \<in> set (without_path name). \<not> separator c"
  unfolding without_path_eq by (auto dest: set_takeWhileD)

lemma without_path_suffix: "suffix (without_path name) name"
  unfolding without_path_eq suffix_to_prefix by (simp add: takeWhile_is_prefix)

section \<open>Listing\<close>

definition entry_line :: "byte list \<Rightarrow> zip_entry \<Rightarrow> byte list" where
  "entry_line num e = list_line num (entry_info e) (new_file_name (ze_file e))"

lemma small_index: "n < 2 ^ 64 \<Longrightarrow> k \<le> n \<Longrightarrow> (of_nat k :: 64 word) < of_nat n \<longleftrightarrow> k < n"
  by (simp add: word_less_nat_alt unat_of_nat_small)

context filefunc
begin

text \<open>A step over the archive: the name of the current entry, and the entry after it.\<close>

lemma entry_name_read:
  fixes s :: "('w, 'z) unz64_s"
  assumes "opened ff h pre es c s" "fetch w h = Some st" "s_rd st" "\<not> s_err st"
    "s_data st = pre @ archive_bytes es c" "archive_ok pre es c" "at_entry es k s"
    "e = es ! k" "length (new_file_name (ze_file e)) < 256" "0 \<notin> set (new_file_name (ze_file e))" "length buf = 256"
  shows "\<exists>q buf'. unzGetCurrentFileInfo64 (Some s) (no_bufs\<lparr>ib_szFileName := Some buf\<rparr>) w =
      (UNZ_OK, Some (entry_info e), no_bufs\<lparr>ib_szFileName := Some buf'\<rparr>, store h (s_seek q st) w)
    \<and> 0 \<in> set buf' \<and> c_string buf' = new_file_name (ze_file e)"
proof -
  have "length (s_data st) < 2 ^ 63" using assms(5,6) by (simp add: archive_ok_def)
  moreover have "length (new_file_name (ze_file (es ! k))) < length buf" "length buf < 2 ^ 16" using assms(8,9,11) by simp_all
  ultimately show ?thesis
    using entry_name_eq [OF assms(1-5) _ assms(7), of buf] c_string_terminated [OF assms(10)] by (force simp: assms(8))
qed

lemma list_loop_eq:
  fixes s :: "('w, 'z) unz64_s"
  assumes "opened ff h pre es c s" "fetch w h = Some st" "s_rd st" "\<not> s_err st"
    "s_data st = pre @ archive_bytes es c" "archive_ok pre es c" "at_entry es k s" "names_ok es" "\<forall>i. length (junk i) = 256"
  shows "\<exists>s' q. list_loop junk num (of_nat (length es)) (of_nat k) (Some s) w printed =
    Some (printed @ concat (map (entry_line num) (drop k es)), Some s', store h (s_seek q st) w)"
  using assms(1-7)
proof (induction "length es - k" arbitrary: k s w st printed)
  case 0
  then show ?case by (simp add: at_entry_def)
next
  case (Suc m)
  note op = Suc.prems(1) and st = Suc.prems(2-4) and d = Suc.prems(5) and ok = Suc.prems(6) and at = Suc.prems(7)
  let ?e = "es ! k" and ?i = "of_nat k :: 64 word" and ?n = "of_nat (length es) :: 64 word"
  have k: "k < length es" using at by (simp add: at_entry_def)
  have n: "length es < 2 ^ 64" using ok by (simp add: archive_ok_def)
  have nm: "length (new_file_name (ze_file ?e)) < 256" "0 \<notin> set (new_file_name (ze_file ?e))"
    using assms(8) k by (auto simp: names_ok_def)
  obtain q buf where i: "unzGetCurrentFileInfo64 (Some s) (no_bufs\<lparr>ib_szFileName := Some (junk ?i)\<rparr>) w =
      (UNZ_OK, Some (entry_info ?e), no_bufs\<lparr>ib_szFileName := Some buf\<rparr>, store h (s_seek q st) w)"
    "0 \<in> set buf" "c_string buf = new_file_name (ze_file ?e)"
    using entry_name_read [OF op st d ok at refl nm] assms(9) by blast
  let ?st = "s_seek q st" and ?w = "store h (s_seek q st) w" and ?p = "printed @ entry_line num ?e"
  have st': "fetch ?w h = Some ?st" "s_rd ?st" "\<not> s_err ?st" "s_data ?st = pre @ archive_bytes es c"
    using fetch_store [OF st(1)] st d by simp_all
  have suc: "of_nat (Suc k) = ?i + 1" by (simp add: add.commute)
  have cmp: "?i < ?n" "?i + 1 < ?n \<longleftrightarrow> Suc k < length es"
    using small_index [OF n, of k] small_index [OF n, of "Suc k"] k unfolding suc by simp_all
  have dr: "drop k es = ?e # drop (Suc k) es" using k by (simp add: Cons_nth_drop_Suc)
  have step: "list_loop junk num ?n ?i (Some s) w printed =
      (let (err, uf, w) = (if Suc k < length es then unzGoToNextFile (Some s) ?w else (UNZ_OK, Some s, ?w))
       in if err \<noteq> UNZ_OK then Some (?p @ zip_error err ''unzGoToNextFile'', uf, w)
          else list_loop junk num ?n (?i + 1) uf w ?p)"
    unfolding entry_line_def by (subst list_loop.simps) (simp add: cmp i [simplified] Let_def)
  show ?case
  proof (cases "Suc k = length es")
    case True
    then have "list_loop junk num ?n (?i + 1) (Some s) ?w ?p = Some (?p, Some s, ?w)"
      by (subst list_loop.simps) (simp add: suc [symmetric] del: of_nat_Suc)
    with True step show ?thesis by (auto simp: dr)
  next
    case False
    obtain q2 where g: "unzGoToNextFile_s s ?w = (UNZ_OK, moved es (Suc k) s, store h (s_seek q2 ?st) ?w)"
      using go_next [OF op st' ok at] False by auto
    have k': "Suc k < length es" "m = length es - Suc k" using False k Suc.hyps(2) by linarith+
    have "\<exists>s' q'. list_loop junk num ?n (?i + 1) (Some (moved es (Suc k) s)) (store h (s_seek q2 ?st) ?w) ?p =
      Some (?p @ concat (map (entry_line num) (drop (Suc k) es)), Some s', store h (s_seek q' (s_seek q2 ?st)) (store h (s_seek q2 ?st) ?w))"
      using st' ok op moved_simps(1) [OF k'(1)]
      by (intro Suc.hyps(1) [OF k'(2), unfolded suc]) (simp_all add: moved_simps(2) fetch_store [OF st'(1)])
    with step g k'(1) show ?thesis by (auto simp: dr unzGoToNextFile_def with_file_def store_store)
  qed
qed

lemma do_list_eq:
  fixes s :: "('w, 'z) unz64_s"
  assumes "opened ff h pre es c s" "fetch w h = Some st" "s_rd st" "\<not> s_err st"
    "s_data st = pre @ archive_bytes es c" "archive_ok pre es c" "at_entry es 0 s" "names_ok es" "\<forall>i. length (junk i) = 256"
  shows "\<exists>s' q. do_list junk num (Some s) w =
    Some (0, list_title @ concat (map (entry_line num) es), Some s', store h (s_seek q st) w)"
proof -
  have "gi_number_entry (us_gi s) = of_nat (length es)" using assms(1) by (simp add: opened_def)
  with list_loop_eq [OF assms, of num list_title] show ?thesis
    by (auto simp: do_list_def unzGetGlobalInfo64_def)
qed

end

section \<open>Extracting\<close>

definition output_name :: "int \<Rightarrow> zip_entry \<Rightarrow> path" where
  "output_name wp e = (if wp = 0 then new_file_name (ze_file e) else without_path (new_file_name (ze_file e)))"

definition is_directory :: "zip_entry \<Rightarrow> bool" where
  "is_directory e \<longleftrightarrow> without_path (new_file_name (ze_file e)) = []"

text \<open>What extracting an entry with contents \<open>D\<close> makes of the files.\<close>

fun extracted :: "int \<Rightarrow> zip_entry \<times> byte list \<Rightarrow> (path \<Rightarrow> byte list option) \<Rightarrow> path \<Rightarrow> byte list option" where
  "extracted wp (e, D) v = (if is_directory e then v else v(output_name wp e \<mapsto> D))"

text \<open>
  An entry, stored or deflated, with its contents and the right CRC, whose output file can be
  created and has room.
\<close>

definition extractable :: "'z zlib \<Rightarrow> int \<Rightarrow> nat \<times> (path \<Rightarrow> bool) \<Rightarrow> zip_entry \<times> byte list \<Rightarrow> bool" where
  "extractable Z wp en x \<longleftrightarrow> holds Z (fst x) (snd x) \<and> field 4 (ze_crc (fst x)) = zl_crc32 Z 0 (snd x)
     \<and> (\<not> is_directory (fst x) \<longrightarrow> length (snd x) \<le> fst en \<and> \<not> snd en (output_name wp (fst x)))"

context extraction
begin

lemma extract_to_eq:
  fixes s :: "('w, 'z) unz64_s"
  assumes Z: "crc32_streams Z"
    and p: "us_pfile_in_zip_read s = Some p" "serves Z ff h (s_data st) p D"
    and st: "fetch w h = Some st" "s_rd st" "length (s_data st) < 2 ^ 63"
    and out: "writing d fout dest" "view d dest = Some []" "length D \<le> fst (env d)"
  shows "\<exists>p' q d'. extract_to Z os buf dest fi fout (Some s) w d =
      Some (0, Some (s\<lparr>us_pfile_in_zip_read := Some p'\<rparr>), store h (s_seek q st) w, d')
    \<and> view d' = (view d)(dest \<mapsto> D) \<and> env d' = env d \<and> delivered Z D p p'"
proof -
  let ?d = "os_print os (text_bytes '' extracting: '' @ dest @ [10]) d"
  have "0 < unat WRITEBUFFERSIZE" "unat WRITEBUFFERSIZE < 2 ^ 31" by simp_all
  from extract_loop_eq [OF Z this p st, of ?d fout dest "[]" buf] out
  obtain p' q d1 where "extract_loop Z os fout WRITEBUFFERSIZE (Some s) buf w ?d =
      Some (0, Some (s\<lparr>us_pfile_in_zip_read := Some p'\<rparr>), store h (s_seek q st) w, d1)"
    "view d1 = (view d)(dest \<mapsto> D)" "env d1 = env d" "delivered Z D p p'"
    by (auto simp: out_print)
  then show ?thesis by (auto simp: extract_to_def change_file_date_def out_close out_utime)
qed

lemma extract_named_eq:
  fixes s :: "('w, 'z) unz64_s"
  assumes Z: "crc32_streams Z" and op: "opened ff h pre es c s" and at: "at_entry es k s" "us_pfile_in_zip_read s = None"
    and st: "fetch w h = Some st" "s_rd st" "\<not> s_err st" and d: "s_data st = pre @ archive_bytes es c"
    and ok: "archive_ok pre es c" and mt: "malloc_total \<sigma>" and e: "e = es ! k"
    and ex: "extractable Z wp (env d) (e, D)" "\<not> is_directory e" and ow: "ow \<noteq> 0"
  shows "\<exists>s' \<sigma>' q d'. extract_named Z strm0 os buf wp ow None (new_file_name (ze_file e)) fi (Some s) \<sigma> w d =
      Some (Some UNZ_OK, ow, Some s', \<sigma>', store h (s_seek q st) w, d')
    \<and> malloc_total \<sigma>' \<and> opened ff h pre es c s' \<and> at_entry es k s' \<and> us_pfile_in_zip_read s' = None
    \<and> view d' = extracted wp (e, D) (view d) \<and> env d' = env d"
proof -
  let ?name = "new_file_name (ze_file e)" and ?dest = "output_name wp e"
  have x: "holds Z e D" "field 4 (ze_crc e) = zl_crc32 Z 0 D" "length D \<le> fst (env d)" "\<not> snd (env d) ?dest"
    using ex by (simp_all add: extractable_def)
  obtain ml p \<sigma>1 q1 where 1: "unzOpenCurrentFile3 Z strm0 (Some s) 0 None \<sigma> w =
      (UNZ_OK, Some ml, Some (s\<lparr>us_pfile_in_zip_read := Some p, us_encrypted := 0\<rparr>), \<sigma>1, store h (s_seek q1 st) w)"
    "malloc_total \<sigma>1" "serves Z ff h (s_data st) p D" "pr_crc32 p = 0" "pr_crc32_wait p = field 4 (ze_crc e)"
    using open_current_holds [OF op at st d ok mt e x(1), of strm0] by blast
  let ?s = "s\<lparr>us_pfile_in_zip_read := Some p, us_encrypted := 0\<rparr>" and ?st = "s_seek q1 st" and ?w = "store h (s_seek q1 st) w"
  obtain fout d1 where 2: "os_fopen os ?dest ''wb'' d = (fout, d1)" "fout \<noteq> NULL" "view d1 = (view d)(?dest \<mapsto> [])"
    "writing d1 fout ?dest" "env d1 = env d" using out_open [OF x(4)] by blast
  have ps: "us_pfile_in_zip_read ?s = Some p" "serves Z ff h (s_data ?st) p D" "fetch ?w h = Some ?st" "s_rd ?st"
    "length (s_data ?st) < 2 ^ 63" "view d1 ?dest = Some []" "length D \<le> fst (env d1)"
    using 1(3) st fetch_store [OF st(1)] 2(3,5) x(3) ok d by (simp_all add: archive_ok_def)
  obtain p2 q2 d2 where 3: "extract_to Z os buf ?dest fi fout (Some ?s) ?w d1 =
      Some (0, Some (?s\<lparr>us_pfile_in_zip_read := Some p2\<rparr>), store h (s_seek q2 ?st) ?w, d2)"
    "view d2 = (view d1)(?dest \<mapsto> D)" "env d2 = env d1" "delivered Z D p p2"
    using extract_to_eq [OF Z ps(1-5) 2(4) ps(6,7), of buf fi] by blast
  have good: "\<not> (pr_rest_read_uncompressed p2 = 0 \<and> pr_raw p2 = 0 \<and> pr_crc32 p2 \<noteq> pr_crc32_wait p2)"
    using 3(4) 1(4,5) x(2) by (simp add: delivered_def)
  let ?s2 = "?s\<lparr>us_pfile_in_zip_read := Some p2\<rparr>"
  have close: "unzCloseCurrentFile Z (Some ?s2) = (UNZ_OK, Some (?s2\<lparr>us_pfile_in_zip_read := None\<rparr>))"
    using close_current_eq [of ?s2 p2 Z] good by simp
  have "open_output os wp ?name ?dest \<sigma>1 d = (fout, \<sigma>1, d1)" using 2(1,2) by (simp add: open_output_def)
  then have "extract_named Z strm0 os buf wp ow None ?name fi (Some s) \<sigma> w d =
      Some (Some UNZ_OK, ow, Some (?s2\<lparr>us_pfile_in_zip_read := None\<rparr>), \<sigma>1, store h (s_seek q2 ?st) ?w, d2)"
    using 1(1) 2(2) 3(1) close ow
    by (simp add: extract_named_def output_name_def [symmetric] unzOpenCurrentFilePassword_def Let_def)
  moreover have "opened ff h pre es c (?s2\<lparr>us_pfile_in_zip_read := None\<rparr>)" "at_entry es k (?s2\<lparr>us_pfile_in_zip_read := None\<rparr>)"
    using op at(1) by (simp_all add: opened_def at_entry_def)
  moreover have "view d2 = extracted wp (e, D) (view d)" "env d2 = env d" using 2 3 ex(2) by simp_all
  ultimately show ?thesis using 1(2) by (auto simp: store_store)
qed

lemma extract_current_eq:
  fixes s :: "('w, 'z) unz64_s"
  assumes Z: "crc32_streams Z" and op: "opened ff h pre es c s" and at: "at_entry es k s" "us_pfile_in_zip_read s = None"
    and st: "fetch w h = Some st" "s_rd st" "\<not> s_err st" and d: "s_data st = pre @ archive_bytes es c"
    and ok: "archive_ok pre es c" "names_ok es" and mt: "malloc_total \<sigma>"
    and ex: "extractable Z wp (env d) (es ! k, D)" and ow: "ow \<noteq> 0" and junk: "length junk = 256"
  shows "\<exists>s' \<sigma>' q d'. do_extract_currentfile Z strm0 os junk buf wp ow None (Some s) \<sigma> w d =
      Some (Some UNZ_OK, ow, Some s', \<sigma>', store h (s_seek q st) w, d')
    \<and> malloc_total \<sigma>' \<and> opened ff h pre es c s' \<and> at_entry es k s' \<and> us_pfile_in_zip_read s' = None
    \<and> view d' = extracted wp (es ! k, D) (view d) \<and> env d' = env d"
proof -
  let ?e = "es ! k" and ?name = "new_file_name (ze_file (es ! k))"
  have k: "k < length es" using at(1) by (simp add: at_entry_def)
  have nm: "length ?name < 256" "0 \<notin> set ?name" using ok(2) k by (auto simp: names_ok_def)
  obtain q b where 1: "unzGetCurrentFileInfo64 (Some s) (no_bufs\<lparr>ib_szFileName := Some junk\<rparr>) w =
      (UNZ_OK, Some (entry_info ?e), no_bufs\<lparr>ib_szFileName := Some b\<rparr>, store h (s_seek q st) w)"
    "0 \<in> set b" "c_string b = ?name"
    using entry_name_read [OF op st d ok(1) at(1) refl nm junk] by blast
  obtain \<sigma>1 where 2: "malloc (unat WRITEBUFFERSIZE) \<sigma> = (True, \<sigma>1)" "malloc_total \<sigma>1" using malloc_total_malloc [OF mt] by blast
  let ?st = "s_seek q st" and ?w = "store h (s_seek q st) w"
  show ?thesis
  proof (cases "is_directory ?e")
    case True
    obtain r en d1 where m: "os_mkdir os ?name (os_print os (text_bytes ''creating directory: '' @ ?name @ [10]) d) = (r, en, d1)"
      by (rule prod_cases3)
    from out_mkdir [OF m] True 1 2 m op at show ?thesis
      by (cases "wp = 0") (auto simp: do_extract_currentfile_def is_directory_def out_print)
  next
    case False
    have st': "fetch ?w h = Some ?st" "s_rd ?st" "\<not> s_err ?st" "s_data ?st = pre @ archive_bytes es c"
      using fetch_store [OF st(1)] st d by simp_all
    from extract_named_eq [OF Z op at st' ok(1) 2(2) refl ex False ow, of strm0 buf "entry_info ?e"] 1 2 False
    show ?thesis by (auto simp: do_extract_currentfile_def is_directory_def store_store)
  qed
qed

text \<open>All entries, from the \<open>k\<close>-th on.\<close>

lemma extract_rounds_eq:
  fixes s :: "('w, 'z) unz64_s"
  assumes Z: "crc32_streams Z" and ok: "archive_ok pre es c" "names_ok es" and ow: "ow \<noteq> 0" and junk: "\<forall>i. length (junk i) = 256"
    and es: "es = map fst xs"
  shows "opened ff h pre es c s \<Longrightarrow> at_entry es k s \<Longrightarrow> us_pfile_in_zip_read s = None \<Longrightarrow> fetch w h = Some st \<Longrightarrow> s_rd st
    \<Longrightarrow> \<not> s_err st \<Longrightarrow> s_data st = pre @ archive_bytes es c \<Longrightarrow> malloc_total \<sigma>
    \<Longrightarrow> \<forall>x \<in> set (drop k xs). extractable Z wp (env d) x
    \<Longrightarrow> \<exists>s' \<sigma>' q d'. extract_rounds Z strm0 os junk buf wp None (of_nat (length es)) (of_nat k) ow (Some s) \<sigma> w d =
        Some (True, Some s', \<sigma>', store h (s_seek q st) w, d')
      \<and> view d' = fold (extracted wp) (drop k xs) (view d) \<and> env d' = env d"
proof (induction "length es - k" arbitrary: k s w st \<sigma> d)
  case 0
  then show ?case by (simp add: at_entry_def)
next
  case (Suc m)
  note op = Suc.prems(1) and at = Suc.prems(2,3) and st = Suc.prems(4-6) and dt = Suc.prems(7) and mt = Suc.prems(8)
  let ?i = "of_nat k :: 64 word" and ?n = "of_nat (length es) :: 64 word"
  have k: "k < length es" using at(1) by (simp add: at_entry_def)
  have n: "length es < 2 ^ 64" using ok by (simp add: archive_ok_def)
  obtain D where D: "xs ! k = (es ! k, D)" using k by (metis es length_map nth_map prod.collapse)
  have dr: "drop k xs = (es ! k, D) # drop (Suc k) xs" using k D by (simp add: Cons_nth_drop_Suc [symmetric] es)
  have ex: "extractable Z wp (env d) (es ! k, D)" "\<forall>x \<in> set (drop (Suc k) xs). extractable Z wp (env d) x"
    using Suc.prems(9) by (simp_all add: dr)
  obtain s1 \<sigma>1 q1 d1 where 1: "do_extract_currentfile Z strm0 os (junk ?i) (buf ?i) wp ow None (Some s) \<sigma> w d =
      Some (Some UNZ_OK, ow, Some s1, \<sigma>1, store h (s_seek q1 st) w, d1)"
    "malloc_total \<sigma>1" "opened ff h pre es c s1" "at_entry es k s1" "us_pfile_in_zip_read s1 = None"
    "view d1 = extracted wp (es ! k, D) (view d)" "env d1 = env d"
    using extract_current_eq [OF Z op at st dt ok mt ex(1) ow, of "junk ?i" strm0 "buf ?i"] junk by blast
  let ?st = "s_seek q1 st" and ?w = "store h (s_seek q1 st) w"
  have st': "fetch ?w h = Some ?st" "s_rd ?st" "\<not> s_err ?st" "s_data ?st = pre @ archive_bytes es c"
    using fetch_store [OF st(1)] st dt by simp_all
  have suc: "of_nat (Suc k) = ?i + 1" by (simp add: add.commute)
  have cmp: "?i < ?n" "?i + 1 < ?n \<longleftrightarrow> Suc k < length es"
    using small_index [OF n, of k] small_index [OF n, of "Suc k"] k unfolding suc by simp_all
  have step: "extract_rounds Z strm0 os junk buf wp None ?n ?i ow (Some s) \<sigma> w d =
      (let (err, uf, w) = (if Suc k < length es then unzGoToNextFile (Some s1) ?w else (UNZ_OK, Some s1, ?w))
       in if err \<noteq> UNZ_OK then Some (True, uf, \<sigma>1, w, os_print os (zip_error err ''unzGoToNextFile'') d1)
          else extract_rounds Z strm0 os junk buf wp None ?n (?i + 1) ow uf \<sigma>1 w d1)"
    by (subst extract_rounds.simps) (simp add: cmp 1(1))
  show ?case
  proof (cases "Suc k = length es")
    case True
    then have "extract_rounds Z strm0 os junk buf wp None ?n (?i + 1) ow (Some s1) \<sigma>1 ?w d1 = Some (True, Some s1, \<sigma>1, ?w, d1)"
      by (subst extract_rounds.simps) (simp add: suc [symmetric] del: of_nat_Suc)
    with True step 1(6,7) show ?thesis by (auto simp: dr es)
  next
    case False
    obtain q2 where g: "unzGoToNextFile_s s1 ?w = (UNZ_OK, moved es (Suc k) s1, store h (s_seek q2 ?st) ?w)"
      using go_next [OF 1(3) st' ok(1) 1(4)] False by auto
    have k': "Suc k < length es" "m = length es - Suc k" using False k Suc.hyps(2) by linarith+
    let ?w2 = "store h (s_seek q2 ?st) ?w" and ?s2 = "moved es (Suc k) s1"
    have closed: "us_pfile_in_zip_read ?s2 = None" using 1(5) by (simp add: moved_def)
    have "\<exists>s' \<sigma>' q d'. extract_rounds Z strm0 os junk buf wp None ?n (?i + 1) ow (Some ?s2) \<sigma>1 ?w2 d1 =
        Some (True, Some s', \<sigma>', store h (s_seek q (s_seek q2 ?st)) ?w2, d')
      \<and> view d' = fold (extracted wp) (drop (Suc k) xs) (view d1) \<and> env d' = env d1"
      using st' 1(2,3,7) ex(2) moved_simps(1) [OF k'(1)] closed
      by (intro Suc.hyps(1) [OF k'(2), unfolded suc]) (simp_all add: moved_simps(2) fetch_store [OF st'(1)])
    with step g k'(1) 1(6,7) show ?thesis by (auto simp: dr unzGoToNextFile_def with_file_def store_store)
  qed
qed

lemma do_extract_eq:
  fixes s :: "('w, 'z) unz64_s"
  assumes "crc32_streams Z" "archive_ok pre es c" "names_ok es" "ow \<noteq> 0" "\<forall>i. length (junk i) = 256" and es: "es = map fst xs"
    and op: "opened ff h pre es c s" and r: "at_entry es 0 s" "us_pfile_in_zip_read s = None" "fetch w h = Some st" "s_rd st"
    "\<not> s_err st" "s_data st = pre @ archive_bytes es c" "malloc_total \<sigma>" "\<forall>x \<in> set xs. extractable Z wp (env d) x"
  shows "\<exists>s' \<sigma>' w' d'. do_extract Z strm0 os junk buf wp ow None (Some s) \<sigma> w d = Some (Some 0, Some s', \<sigma>', w', d')
    \<and> view d' = fold (extracted wp) xs (view d) \<and> env d' = env d"
proof -
  have "gi_number_entry (us_gi s) = of_nat (length es)" using op by (simp add: opened_def)
  moreover obtain s' \<sigma>' q d' where "extract_rounds Z strm0 os junk buf wp None (of_nat (length es)) 0 ow (Some s) \<sigma> w d =
      Some (True, Some s', \<sigma>', store h (s_seek q st) w, d')" "view d' = fold (extracted wp) xs (view d)" "env d' = env d"
    using extract_rounds_eq [OF assms(1-6) op r(1), of w st \<sigma> wp d strm0 buf] r by auto
  ultimately show ?thesis by (simp add: do_extract_def unzGetGlobalInfo64_def)
qed

end

section \<open>The tool over stdio\<close>

text \<open>A terminal beside a file system: the output files are written through \<open>libc_fopen\<close> and \<open>libc_fwrite\<close>.\<close>

record console =
  con_files :: stdio
  con_dirs :: "path list"
  con_times :: "(path \<times> tm_unz) list"
  con_input :: "byte list"
  con_printed :: "byte list"

definition console_os :: "console os" where
  "console_os =
     \<lparr>os_mkdir = (\<lambda>p d. if p \<in> set (con_dirs d) then (-1, False, d) else (0, False, d\<lparr>con_dirs := p # con_dirs d\<rparr>)),
      os_fopen = (\<lambda>p m d. let (h, w) = libc_fopen p m (con_files d) in (h, d\<lparr>con_files := w\<rparr>)),
      os_fwrite = (\<lambda>bs h d. let (n, w) = libc_fwrite bs h (con_files d) in (n, d\<lparr>con_files := w\<rparr>)),
      os_fclose = (\<lambda>h d. let (r, w) = libc_fclose h (con_files d) in d\<lparr>con_files := w\<rparr>),
      os_utime = (\<lambda>p t d. d\<lparr>con_times := (p, t) # con_times d\<rparr>),
      os_scanf = (\<lambda>d. case con_input d of [] \<Rightarrow> (None, d) | b # bs \<Rightarrow> (Some b, d\<lparr>con_input := bs\<rparr>)),
      os_print = (\<lambda>bs d. d\<lparr>con_printed := con_printed d @ bs\<rparr>)\<rparr>"

definition con_view :: "console \<Rightarrow> path \<Rightarrow> byte list option" where
  "con_view d = w_files (con_files d)"

definition con_writing :: "console \<Rightarrow> voidpf \<Rightarrow> path \<Rightarrow> bool" where
  "con_writing d h p \<longleftrightarrow> (\<exists>f bs. w_streams (con_files d) h = Some f \<and> f_path f = p \<and> f_wr f
     \<and> w_files (con_files d) p = Some bs \<and> f_pos f = length bs)"

definition con_env :: "console \<Rightarrow> nat \<times> (path \<Rightarrow> bool)" where
  "con_env d = (w_limit (con_files d), w_denied (con_files d))"

lemma con_write:
  assumes "con_writing d h p" "con_view d p = Some bs" "length bs + length bs' \<le> fst (con_env d)"
  shows "\<exists>d'. os_fwrite console_os bs' h d = (length bs', d') \<and> con_view d' = (con_view d)(p \<mapsto> bs @ bs')
    \<and> con_writing d' h p \<and> con_env d' = con_env d"
proof -
  obtain f where f: "w_streams (con_files d) h = Some f" "f_path f = p" "f_wr f" "w_files (con_files d) p = Some bs" "f_pos f = length bs"
    using assms(1,2) by (auto simp: con_writing_def con_view_def)
  have "take (w_limit (con_files d) - length bs) bs' = bs'" using assms(3) by (simp add: con_env_def)
  with f show ?thesis
    by (auto simp: console_os_def libc_fwrite_def stdio_fetch_def stdio_store_def Let_def con_view_def con_writing_def
        con_env_def overwrite_def)
qed

interpretation con: out_system console_os con_view con_writing con_env
proof
  fix d p assume "\<not> snd (con_env d) p"
  then show "\<exists>h d'. os_fopen console_os p ''wb'' d = (h, d') \<and> h \<noteq> NULL \<and> con_view d' = (con_view d)(p \<mapsto> [])
      \<and> con_writing d' h p \<and> con_env d' = con_env d"
    by (simp add: console_os_def libc_fopen_def con_env_def con_view_def con_writing_def)
next
  fix p d r e d' assume "os_mkdir console_os p d = (r, e, d')"
  then show "con_view d' = con_view d \<and> con_env d' = con_env d"
    by (auto simp: console_os_def con_view_def con_env_def split: if_splits)
qed (use con_write in \<open>auto simp: console_os_def libc_fclose_def con_view_def con_env_def con_writing_def split: option.splits prod.splits\<close>)

interpretation tool: extraction stdio_filefunc64 stdio_fetch stdio_store w_limit console_os con_view con_writing con_env ..

end
