(* ===== verification/Deflate.thy ===== *)
theory Deflate
  imports Archive Codec
begin

text \<open>
  Writing a deflated entry: the loops of \<open>zipWriteInFileInZip\<close> and \<open>zipCloseFileInZipRaw64\<close> that
  drive the compressor end, and the entry holds a compressed form of exactly the data that was
  written.
\<close>

section \<open>What compressing keeps\<close>

text \<open>The same entry, except for what compressing data changes; zlib may set \<open>data_type\<close>.\<close>

definition same_frame :: "'z curfile64_info \<Rightarrow> 'z curfile64_info \<Rightarrow> bool" where
  "same_frame ci ci' \<longleftrightarrow>
     ci' = ci\<lparr>ci_stream := ci_stream ci', ci_pos_in_buffered_data := ci_pos_in_buffered_data ci',
             ci_buffered_data := ci_buffered_data ci', ci_keys := ci_keys ci',
             ci_totalCompressedData := ci_totalCompressedData ci',
             ci_totalUncompressedData := ci_totalUncompressedData ci',
             ci_stream_initialised := ci_stream_initialised ci'\<rparr>"

lemma same_frame_refl [simp]: "same_frame ci ci"
  by (simp add: same_frame_def)

lemma same_frame_trans: "same_frame a b \<Longrightarrow> same_frame b c \<Longrightarrow> same_frame a c"
  unfolding same_frame_def by (cases a, cases b, cases c) simp

lemma same_entry_frame: "same_entry ci ci' \<Longrightarrow> same_frame ci ci'"
  unfolding same_entry_def same_frame_def by (cases ci, cases ci') simp

lemma same_frame_sel:
  assumes "same_frame ci ci'"
  shows "ci_method ci' = ci_method ci" "ci_raw ci' = ci_raw ci" "ci_encrypt ci' = ci_encrypt ci"
    "ci_crypt_header_size ci' = ci_crypt_header_size ci"
    "ci_central_header ci' = ci_central_header ci" "ci_pos_local_header ci' = ci_pos_local_header ci"
    "ci_crc32 ci' = ci_crc32 ci" "ci_size_centralheader ci' = ci_size_centralheader ci"
  using assms unfolding same_frame_def by (cases ci, cases ci', simp)+

text \<open>
  The entry is being compressed: \<open>d\<close> was taken and \<open>g\<close> given, and the file will hold \<open>front @ g\<close>.
\<close>

definition compressing ::
    "'z codec_view \<Rightarrow> byte list \<Rightarrow> byte list \<Rightarrow> byte list \<Rightarrow> 'z curfile64_info \<Rightarrow> stream \<Rightarrow> bool" where
  "compressing V front d g ci s \<longleftrightarrow> at_end s \<and> buf_ok ci \<and> ci_encrypt ci = 0
     \<and> cv_taken V (zstate (ci_stream ci)) = d \<and> cv_given V (zstate (ci_stream ci)) = g
     \<and> length g \<le> cv_bound V (length d)
     \<and> out s ci [] = front @ g \<and> size_c ci = of_nat (length g) \<and> size_u ci = of_nat (length d)"

lemma out_plain: "ci_encrypt ci = 0 \<Longrightarrow> out s ci xs = s_data s @ pending ci @ xs"
  by (simp add: out_def enc_bytes_def)

text \<open>A call of \<open>deflate\<close> appends what it gives.\<close>

lemma deflate_step_eq:
  assumes ok: "compressing V front d g ci s" and call: "zl_deflate Z (ci_stream ci) flush = (err, bs, strm)"
    "deflate_call V (ci_stream ci) bs strm"
  shows "\<exists>ci'. zip_deflate_step Z flush ci = (err, ci') \<and> ci_stream ci' = strm \<and> same_frame ci ci'
    \<and> compressing V front (d @ take (avail_in (ci_stream ci) - avail_in strm) (next_in (ci_stream ci))) (g @ bs) ci' s
    \<and> ci_pos_in_buffered_data ci' = ci_pos_in_buffered_data ci + length bs"
proof -
  let ?n = "avail_in (ci_stream ci) - avail_in strm" and ?pos = "ci_pos_in_buffered_data ci"
  let ?in = "take ?n (next_in (ci_stream ci))"
  have st: "strm_step (ci_stream ci) bs strm" using call(2) by (simp add: deflate_call_def)
  have b: "buf_ok ci" "ci_encrypt ci = 0" using ok by (simp_all add: compressing_def)
  have "length bs \<le> Z_BUFSIZE" using st b by (auto simp: strm_step_def buf_ok_def)
  then have "length bs < 2 ^ LENGTH(32)" by (simp add: Z_BUFSIZE_def)
  moreover have "(ucast (of_nat (length bs) :: 64 word) :: 32 word) = of_nat (length bs)"
    by transfer (simp add: take_bit_of_nat)
  ultimately have n: "unat (ucast (total_out strm - total_out (ci_stream ci)) :: uInt) = length bs"
    using st unat_of_nat_small [of "length bs", where ?'a = 32] by (simp add: strm_step_def)
  let ?ci = "ci\<lparr>ci_buffered_data := buf_write (next_out (ci_stream ci)) bs (ci_buffered_data ci), ci_stream := strm,
      ci_pos_in_buffered_data := ?pos + length bs\<rparr>"
  have eq: "zip_deflate_step Z flush ci = (err, ?ci)" using call(1) n by (simp add: zip_deflate_step_def)
  have "buf_take (?pos + length bs) (buf_write ?pos bs (ci_buffered_data ci)) = pending ci @ bs"
    unfolding pending_def by (rule buf_take_write) simp
  then have p: "pending ?ci = pending ci @ bs" using b by (simp add: pending_def buf_ok_def)
  have "suffix (next_in strm) (next_in (ci_stream ci))" using st by (simp add: strm_step_def)
  then have len: "length ?in = ?n" by (auto simp: suffix_def)
  have "compressing V front (d @ ?in) (g @ bs) ?ci s"
    unfolding compressing_def
  proof (intro conjI)
    show "at_end s" using ok by (simp add: compressing_def)
    show "buf_ok ?ci" using b st by (simp add: buf_ok_def strm_step_def)
    show "ci_encrypt ?ci = 0" using b by simp
    have cs: "ci_stream ?ci = strm" by simp
    have v: "cv_taken V (zstate strm) = d @ ?in" "cv_given V (zstate strm) = g @ bs"
      using ok call(2) by (simp_all add: compressing_def deflate_call_def)
    then show "cv_taken V (zstate (ci_stream ?ci)) = d @ ?in" "cv_given V (zstate (ci_stream ?ci)) = g @ bs"
      unfolding cs .
    have "length (cv_given V (zstate strm)) \<le> cv_bound V (length (cv_taken V (zstate strm)))"
      using call(2) unfolding deflate_call_def by blast
    then show "length (g @ bs) \<le> cv_bound V (length (d @ ?in))" by (simp only: v)
    show "out s ?ci [] = front @ g @ bs" using ok b p by (simp add: compressing_def out_plain)
    have "size_c ?ci = size_c ci + of_nat (length bs)" by (simp add: size_c_def)
    then show "size_c ?ci = of_nat (length (g @ bs))" using ok by (simp add: compressing_def)
    have "size_u ?ci = size_u ci + of_nat ?n" using st by (simp add: size_u_def strm_step_def)
    then show "size_u ?ci = of_nat (length (d @ ?in))" using ok unfolding length_append len by (simp add: compressing_def)
  qed
  then show ?thesis using eq by (intro exI [of _ ?ci]) (simp add: same_frame_def)
qed

text \<open>Refilling keeps the compressor.\<close>

lemma refill_cases:
  assumes "zip_refill err zi w = (err', zi', w')"
  obtains "zi_ci zi' = zi_ci zi" | "zi_ci zi' = rewound (flushed (zi_ci zi))"
proof (cases "avail_out (ci_stream (zi_ci zi)) = 0")
  case True
  obtain n w1 where "ZWRITE64 (zi_filefunc zi) (zi_filestream zi) (enc_bytes (zi_ci zi) (pending (zi_ci zi))) w = (n, w1)"
    by fastforce
  then obtain e where "zip64FlushWriteBuffer zi w = (e, zi\<lparr>zi_ci := flushed (zi_ci zi)\<rparr>, w1)"
    by (simp add: flush_eq)
  with True assms have "zi_ci zi' = rewound (flushed (zi_ci zi))"
    by (auto simp: zip_refill_def rewound_def Let_def)
  then show thesis by (rule that(2))
qed (use assms that(1) in \<open>simp add: zip_refill_def\<close>)

lemma refill_keeps:
  assumes "zip_refill err zi w = (err', zi', w')"
  shows "zstate (ci_stream (zi_ci zi')) = zstate (ci_stream (zi_ci zi))"
    "ci_pos_in_buffered_data (zi_ci zi') = ci_pos_in_buffered_data (zi_ci zi)
       \<and> total_in (ci_stream (zi_ci zi')) = total_in (ci_stream (zi_ci zi))
     \<or> total_in (ci_stream (zi_ci zi')) = 0"
  by (rule refill_cases [OF assms]; simp add: rewound_def flushed_def)+

text \<open>Refilling keeps what the file will hold, and makes room for output.\<close>

context filefunc
begin

lemma refill_compressing:
  assumes ff: "zi_filefunc zi = ff" "zi_filestream zi = h" and s: "fetch w h = Some s"
    and ok: "compressing V front d g (zi_ci zi) s" and room: "length front + length g \<le> limit w"
  shows "\<exists>ci s'. zip_refill err zi w = (err, zi\<lparr>zi_ci := ci\<rparr>, store h s' w)
    \<and> compressing V front d g ci s' \<and> s_rd s' = s_rd s \<and> s_err s' = s_err s \<and> same_frame (zi_ci zi) ci
    \<and> next_in (ci_stream ci) = next_in (ci_stream (zi_ci zi)) \<and> 0 < avail_out (ci_stream ci)
    \<and> zstate (ci_stream ci) = zstate (ci_stream (zi_ci zi))
    \<and> (ci_pos_in_buffered_data ci = ci_pos_in_buffered_data (zi_ci zi) \<and> total_in (ci_stream ci) = total_in (ci_stream (zi_ci zi))
       \<or> total_in (ci_stream ci) = 0)"
proof -
  note c = ok [unfolded compressing_def]
  have "length (out s (zi_ci zi) []) \<le> limit w" using c room by simp
  with refill_ok [of zi w s "[]" err] ff s c obtain ci s' w' where r: "zip_refill err zi w = (err, zi\<lparr>zi_ci := ci\<rparr>, w')"
    "at_end s'" "s_rd s' = s_rd s" "s_err s' = s_err s" "w' = store h s' w" "buf_ok ci" "0 < avail_out (ci_stream ci)"
    "same_entry (zi_ci zi) ci" "next_in (ci_stream ci) = next_in (ci_stream (zi_ci zi))"
    "\<forall>xs. out s' ci xs = out s (zi_ci zi) xs" "size_c ci = size_c (zi_ci zi)" "size_u ci = size_u (zi_ci zi)"
    by blast
  have k: "zstate (ci_stream ci) = zstate (ci_stream (zi_ci zi))"
    "ci_pos_in_buffered_data ci = ci_pos_in_buffered_data (zi_ci zi) \<and> total_in (ci_stream ci) = total_in (ci_stream (zi_ci zi))
       \<or> total_in (ci_stream ci) = 0"
    using refill_keeps [OF r(1)] by simp_all
  have "compressing V front d g ci s'"
    using c r k(1) same_entry_sel(3) [OF r(8)] unfolding compressing_def by simp
  then show ?thesis using r k same_entry_frame [OF r(8)] by blast
qed

end

section \<open>Writing\<close>

text \<open>An entry whose data goes through the compressor.\<close>

definition deflated :: "'z curfile64_info \<Rightarrow> bool" where
  "deflated ci \<longleftrightarrow> ci_method ci = Z_DEFLATED \<and> ci_raw ci = 0"

lemma deflated_frame: "same_frame ci ci' \<Longrightarrow> deflated ci' = deflated ci"
  by (simp add: deflated_def same_frame_sel)

context filefunc
begin

lemma write_loop_deflated:
  fixes Z :: "'z zlib"
  assumes Z: "deflates Z V"
    and "zi_filefunc zi = ff" "zi_filestream zi = h" "fetch w h = Some s"
    "compressing V front d g (zi_ci zi) s" "deflated (zi_ci zi)" "cv_live V (zstate (ci_stream (zi_ci zi)))"
    "length front + cv_bound V (length (d @ next_in (ci_stream (zi_ci zi)))) \<le> limit w"
  shows "\<exists>ci s' g'. zip_write_loop Z ZIP_OK zi w = Some (ZIP_OK, zi\<lparr>zi_ci := ci\<rparr>, store h s' w)
    \<and> compressing V front (d @ next_in (ci_stream (zi_ci zi))) g' ci s' \<and> cv_live V (zstate (ci_stream ci))
    \<and> s_rd s' = s_rd s \<and> s_err s' = s_err s \<and> same_frame (zi_ci zi) ci \<and> next_in (ci_stream ci) = []"
  using assms(2-)
proof (induction "avail_in (ci_stream (zi_ci zi)) + (cv_bound V (length (d @ next_in (ci_stream (zi_ci zi)))) - length g)"
    arbitrary: zi w s d g rule: less_induct)
  case less
  let ?ci = "zi_ci zi" and ?in = "next_in (ci_stream (zi_ci zi))"
  show ?case
  proof (cases "?in = []")
    case True
    then show ?thesis using less.prems store_fetch [OF less.prems(3)]
      by (intro exI [of _ ?ci] exI [of _ s] exI [of _ g]) (simp add: zip_write_loop.simps [of Z _ zi])
  next
    case False
    have mono: "mono (cv_bound V)" and prog: "deflate_progress Z V" using Z by (simp_all add: deflates_def)
    have lim: "length g \<le> cv_bound V (length d)" using less.prems(4) by (simp add: compressing_def)
    have "cv_bound V (length d) \<le> cv_bound V (length (d @ ?in))" by (rule monoD [OF mono]) simp
    then have "length front + length g \<le> limit w" using lim less.prems(7) by linarith
    from refill_compressing [OF less.prems(1-4) this, of 0] obtain ci1 s1 where r:
      "zip_refill 0 zi w = (0, zi\<lparr>zi_ci := ci1\<rparr>, store h s1 w)" "compressing V front d g ci1 s1"
      "s_rd s1 = s_rd s" "s_err s1 = s_err s" "same_frame ?ci ci1" "next_in (ci_stream ci1) = ?in"
      "0 < avail_out (ci_stream ci1)" "zstate (ci_stream ci1) = zstate (ci_stream ?ci)" by blast
    have "cv_live V (zstate (ci_stream ci1))" "0 < avail_in (ci_stream ci1)" using r(6,8) less.prems(6) False by simp_all
    with prog r(7) obtain bs strm where c: "zl_deflate Z (ci_stream ci1) Z_NO_FLUSH = (Z_OK, bs, strm)"
      "deflate_call V (ci_stream ci1) bs strm" "cv_live V (zstate strm)" "avail_in strm < avail_in (ci_stream ci1) \<or> bs \<noteq> []"
      unfolding deflate_progress_def by blast
    let ?x = "take (avail_in (ci_stream ci1) - avail_in strm) (next_in (ci_stream ci1))"
    obtain ci2 where 2: "zip_deflate_step Z Z_NO_FLUSH ci1 = (Z_OK, ci2)" "ci_stream ci2 = strm" "same_frame ci1 ci2"
      "compressing V front (d @ ?x) (g @ bs) ci2 s1"
      using deflate_step_eq [OF r(2) c(1,2)] by blast
    let ?zi = "zi\<lparr>zi_ci := ci2\<rparr>" and ?w = "store h s1 w"
    have step: "strm_step (ci_stream ci1) bs strm" using c(2) by (simp add: deflate_call_def)
    have x: "?x @ next_in strm = ?in" "avail_in strm \<le> length ?in" using strm_step_input [OF step] r(6) by simp_all
    have fr: "same_frame ?ci ci2" by (rule same_frame_trans [OF r(5) 2(3)])
    have loop: "zip_write_loop Z ZIP_OK zi w = zip_write_loop Z ZIP_OK ?zi ?w"
      using False r(1) 2(1) less.prems(5) deflated_frame [OF r(5)]
      by (simp add: zip_write_loop.simps [of Z _ zi] Let_def deflated_def)
    have all: "(d @ ?x) @ next_in strm = d @ ?in" using x(1) by simp
    have lim2: "length (g @ bs) \<le> cv_bound V (length (d @ ?x))" using 2(4) by (simp only: compressing_def)
    have "cv_bound V (length (d @ ?x)) \<le> cv_bound V (length (d @ ?in))"
      by (rule monoD [OF mono]) (metis all length_append le_add1)
    then have lim3: "length (g @ bs) \<le> cv_bound V (length (d @ ?in))" using lim2 by linarith
    have "\<exists>ci s' g'. zip_write_loop Z ZIP_OK ?zi ?w = Some (ZIP_OK, ?zi\<lparr>zi_ci := ci\<rparr>, store h s' ?w)
      \<and> compressing V front ((d @ ?x) @ next_in (ci_stream (zi_ci ?zi))) g' ci s' \<and> cv_live V (zstate (ci_stream ci))
      \<and> s_rd s' = s_rd s1 \<and> s_err s' = s_err s1 \<and> same_frame (zi_ci ?zi) ci \<and> next_in (ci_stream ci) = []"
    proof (rule less.hyps)
      have "avail_in strm + (cv_bound V (length (d @ ?in)) - length (g @ bs))
          < avail_in (ci_stream ?ci) + (cv_bound V (length (d @ ?in)) - length g)"
        using c(4) x(2) lim3 r(6) by (cases bs) auto
      then show "avail_in (ci_stream (zi_ci ?zi)) + (cv_bound V (length ((d @ ?x) @ next_in (ci_stream (zi_ci ?zi)))) - length (g @ bs))
          < avail_in (ci_stream ?ci) + (cv_bound V (length (d @ ?in)) - length g)"
        using 2(2) all by simp
      show "fetch ?w h = Some s1" by (rule fetch_store [OF less.prems(3)])
      show "compressing V front (d @ ?x) (g @ bs) (zi_ci ?zi) s1" using 2(4) by simp
      show "length front + cv_bound V (length ((d @ ?x) @ next_in (ci_stream (zi_ci ?zi)))) \<le> limit ?w"
        using less.prems(7) 2(2) all by (simp add: limit_store)
      show "deflated (zi_ci ?zi)" using less.prems(5) deflated_frame [OF fr] by simp
    qed (use less.prems 2(2) c(3) in simp_all)
    then obtain ci s' g' where f: "zip_write_loop Z ZIP_OK ?zi ?w = Some (ZIP_OK, zi\<lparr>zi_ci := ci\<rparr>, store h s' w)"
      "compressing V front (d @ ?in) g' ci s'" "cv_live V (zstate (ci_stream ci))"
      "s_rd s' = s_rd s1" "s_err s' = s_err s1" "same_frame ci2 ci" "next_in (ci_stream ci) = []"
      using 2(2) all by (auto simp: store_store)
    then show ?thesis using loop r(3,4) same_frame_trans [OF fr f(6)]
      by (intro exI [of _ ci] exI [of _ s'] exI [of _ g']) simp
  qed
qed

end

text \<open>One call of \<open>zipWriteInFileInZip\<close>.\<close>

definition fed :: "'z zlib \<Rightarrow> byte list \<Rightarrow> 'z curfile64_info \<Rightarrow> 'z curfile64_info" where
  "fed Z buf ci = ci\<lparr>ci_crc32 := zl_crc32 Z (ci_crc32 ci) buf, ci_stream := (ci_stream ci)\<lparr>next_in := buf\<rparr>\<rparr>"

lemma compressing_input:
  "compressing V front d g (ci\<lparr>ci_crc32 := x, ci_stream := (ci_stream ci)\<lparr>next_in := buf\<rparr>\<rparr>) s = compressing V front d g ci s"
  "compressing V front d g (ci\<lparr>ci_stream := (ci_stream ci)\<lparr>next_in := buf\<rparr>\<rparr>) s = compressing V front d g ci s"
  by (simp_all add: compressing_def buf_ok_def out_def enc_bytes_def pending_def size_c_def size_u_def)

context filefunc
begin

lemma write_deflated:
  fixes Z :: "'z zlib"
  assumes Z: "deflates Z V"
    and ff: "zi_filefunc zi = ff" "zi_filestream zi = h" and s: "fetch w h = Some s"
    and ok: "compressing V front d g (zi_ci zi) s" "deflated (zi_ci zi)" "cv_live V (zstate (ci_stream (zi_ci zi)))"
    and op: "zi_in_opened_file_inzip zi = 1" and room: "length front + cv_bound V (length (d @ buf)) \<le> limit w"
  shows "\<exists>ci s' g'. zipWriteInFileInZip Z (Some zi) buf w = Some (ZIP_OK, Some (zi\<lparr>zi_ci := ci\<rparr>), store h s' w)
    \<and> compressing V front (d @ buf) g' ci s' \<and> cv_live V (zstate (ci_stream ci))
    \<and> s_rd s' = s_rd s \<and> s_err s' = s_err s \<and> same_frame (fed Z buf (zi_ci zi)) ci"
proof -
  let ?zi = "zi\<lparr>zi_ci := fed Z buf (zi_ci zi)\<rparr>"
  have c: "compressing V front d g (fed Z buf (zi_ci zi)) s" "deflated (fed Z buf (zi_ci zi))"
    "next_in (ci_stream (fed Z buf (zi_ci zi))) = buf" "cv_live V (zstate (ci_stream (fed Z buf (zi_ci zi))))"
    using ok by (simp_all add: fed_def compressing_input deflated_def)
  have "\<exists>ci s' g'. zip_write_loop Z ZIP_OK ?zi w = Some (ZIP_OK, ?zi\<lparr>zi_ci := ci\<rparr>, store h s' w)
    \<and> compressing V front (d @ next_in (ci_stream (zi_ci ?zi))) g' ci s' \<and> cv_live V (zstate (ci_stream ci))
    \<and> s_rd s' = s_rd s \<and> s_err s' = s_err s \<and> same_frame (zi_ci ?zi) ci \<and> next_in (ci_stream ci) = []"
    by (rule write_loop_deflated [OF Z _ _ s, where g = g]) (use ff c room in simp_all)
  then obtain ci s' g' where "zip_write_loop Z ZIP_OK ?zi w = Some (ZIP_OK, zi\<lparr>zi_ci := ci\<rparr>, store h s' w)"
    "compressing V front (d @ buf) g' ci s'" "cv_live V (zstate (ci_stream ci))"
    "s_rd s' = s_rd s" "s_err s' = s_err s" "same_frame (fed Z buf (zi_ci zi)) ci" using c(3) by auto
  with op show ?thesis
    by (intro exI [of _ ci] exI [of _ s'] exI [of _ g']) (simp add: zipWriteInFileInZip_def fed_def Let_def)
qed

section \<open>Finishing\<close>

text \<open>
  The loop that drains the compressor ends with \<open>Z_STREAM_END\<close>. A count of input that was not
  flushed comes with bytes that were not.
\<close>

lemma finish_loop_deflated:
  fixes Z :: "'z zlib"
  assumes Z: "deflates Z V"
    and "zi_filefunc zi = ff" "zi_filestream zi = h" "fetch w h = Some s"
    "compressing V front d g (zi_ci zi) s" "next_in (ci_stream (zi_ci zi)) = []"
    "cv_live V (zstate (ci_stream (zi_ci zi)))
     \<or> cv_last V (zstate (ci_stream (zi_ci zi))) \<and> (ci_pos_in_buffered_data (zi_ci zi) = 0 \<longrightarrow> total_in (ci_stream (zi_ci zi)) = 0)"
    "length front + cv_bound V (length d) \<le> limit w"
  shows "\<exists>ci s' g'. zip_finish_loop Z ZIP_OK zi w = Some (Z_STREAM_END, zi\<lparr>zi_ci := ci\<rparr>, store h s' w)
    \<and> compressing V front d g' ci s' \<and> cv_ended V (zstate (ci_stream ci)) \<and> cv_coded V d g'
    \<and> s_rd s' = s_rd s \<and> s_err s' = s_err s \<and> same_frame (zi_ci zi) ci
    \<and> (ci_pos_in_buffered_data ci = 0 \<longrightarrow> total_in (ci_stream ci) = 0)"
  using assms(2-)
proof (induction "cv_bound V (length d) - length g" arbitrary: zi w s g rule: less_induct)
  case less
  let ?ci = "zi_ci zi"
  have fin: "deflate_finishes Z V" using Z by (simp add: deflates_def)
  have lim: "length g \<le> cv_bound V (length d)" using less.prems(4) by (simp add: compressing_def)
  then have "length front + length g \<le> limit w" using less.prems(7) by linarith
  from refill_compressing [OF less.prems(1-4) this, of 0] obtain ci1 s1 where r:
    "zip_refill 0 zi w = (0, zi\<lparr>zi_ci := ci1\<rparr>, store h s1 w)" "compressing V front d g ci1 s1"
    "s_rd s1 = s_rd s" "s_err s1 = s_err s" "same_frame ?ci ci1" "next_in (ci_stream ci1) = next_in (ci_stream ?ci)"
    "0 < avail_out (ci_stream ci1)" "zstate (ci_stream ci1) = zstate (ci_stream ?ci)"
    "ci_pos_in_buffered_data ci1 = ci_pos_in_buffered_data ?ci \<and> total_in (ci_stream ci1) = total_in (ci_stream ?ci)
       \<or> total_in (ci_stream ci1) = 0" by blast
  have nil: "next_in (ci_stream ci1) = []" using r(6) less.prems(5) by simp
  have "cv_live V (zstate (ci_stream ci1)) \<or> cv_last V (zstate (ci_stream ci1))" using less.prems(6) r(8) by auto
  with r(7) nil obtain err bs strm where c: "zl_deflate Z (ci_stream ci1) Z_FINISH = (err, bs, strm)"
    "deflate_call V (ci_stream ci1) bs strm" "cv_live V (zstate (ci_stream ci1)) \<longrightarrow> bs \<noteq> []"
    "err = Z_OK \<and> cv_last V (zstate strm) \<and> bs \<noteq> []
     \<or> err = Z_STREAM_END \<and> cv_ended V (zstate strm) \<and> cv_coded V (cv_taken V (zstate strm)) (cv_given V (zstate strm))"
    using fin [unfolded deflate_finishes_def, THEN conjunct1, rule_format, of "ci_stream ci1"] by auto
  obtain ci2 where 2: "zip_deflate_step Z Z_FINISH ci1 = (err, ci2)" "ci_stream ci2 = strm" "same_frame ci1 ci2"
    "compressing V front d (g @ bs) ci2 s1" "ci_pos_in_buffered_data ci2 = ci_pos_in_buffered_data ci1 + length bs"
    using deflate_step_eq [OF r(2) c(1,2)] nil by auto
  have step: "strm_step (ci_stream ci1) bs strm" using c(2) by (simp add: deflate_call_def)
  then have st: "next_in strm = []" "total_in strm = total_in (ci_stream ci1)"
    using nil by (auto simp: strm_step_def)
  have cnt: "ci_pos_in_buffered_data ci2 = 0 \<longrightarrow> total_in (ci_stream ci2) = 0"
  proof
    assume "ci_pos_in_buffered_data ci2 = 0"
    then have z: "ci_pos_in_buffered_data ci1 = 0" "bs = []" using 2(5) by simp_all
    then have "\<not> cv_live V (zstate (ci_stream ?ci))" using c(3) r(8) by simp
    then have "ci_pos_in_buffered_data ?ci = 0 \<longrightarrow> total_in (ci_stream ?ci) = 0" using less.prems(6) by simp
    with r(9) z(1) have "total_in (ci_stream ci1) = 0" by metis
    then show "total_in (ci_stream ci2) = 0" using 2(2) st(2) by simp
  qed
  have fr: "same_frame ?ci ci2" by (rule same_frame_trans [OF r(5) 2(3)])
  let ?zi = "zi\<lparr>zi_ci := ci2\<rparr>" and ?w = "store h s1 w"
  have loop: "zip_finish_loop Z ZIP_OK zi w = zip_finish_loop Z err ?zi ?w"
    using r(1) 2(1) by (simp add: zip_finish_loop.simps [of Z 0 zi])
  show ?case
  proof (cases "err = Z_STREAM_END")
    case True
    then have "zip_finish_loop Z ZIP_OK zi w = Some (Z_STREAM_END, ?zi, ?w)"
      using loop by (simp add: zip_finish_loop.simps [of Z 1])
    moreover have "cv_ended V (zstate (ci_stream ci2))" "cv_coded V d (g @ bs)"
      using c(4) True 2(2,4) by (auto simp: compressing_def)
    ultimately show ?thesis using 2(4) cnt fr r(3,4)
      by (intro exI [of _ ci2] exI [of _ s1] exI [of _ "g @ bs"]) simp
  next
    case False
    then have e: "err = ZIP_OK" "cv_last V (zstate strm)" "bs \<noteq> []" using c(4) by auto
    have lim2: "length (g @ bs) \<le> cv_bound V (length d)" using 2(4) by (simp only: compressing_def)
    have "\<exists>ci s' g'. zip_finish_loop Z ZIP_OK ?zi ?w = Some (Z_STREAM_END, ?zi\<lparr>zi_ci := ci\<rparr>, store h s' ?w)
      \<and> compressing V front d g' ci s' \<and> cv_ended V (zstate (ci_stream ci)) \<and> cv_coded V d g'
      \<and> s_rd s' = s_rd s1 \<and> s_err s' = s_err s1 \<and> same_frame (zi_ci ?zi) ci
      \<and> (ci_pos_in_buffered_data ci = 0 \<longrightarrow> total_in (ci_stream ci) = 0)"
    proof (rule less.hyps)
      show "cv_bound V (length d) - length (g @ bs) < cv_bound V (length d) - length g"
        using lim2 e(3) by (cases bs) simp_all
      show "fetch ?w h = Some s1" by (rule fetch_store [OF less.prems(3)])
      show "compressing V front d (g @ bs) (zi_ci ?zi) s1" using 2(4) by simp
    qed (use less.prems 2(2) st e cnt in \<open>simp_all add: limit_store\<close>)
    then obtain ci s' g' where f: "zip_finish_loop Z ZIP_OK ?zi ?w = Some (Z_STREAM_END, zi\<lparr>zi_ci := ci\<rparr>, store h s' w)"
      "compressing V front d g' ci s'" "cv_ended V (zstate (ci_stream ci))" "cv_coded V d g'"
      "s_rd s' = s_rd s1" "s_err s' = s_err s1" "same_frame ci2 ci"
      "ci_pos_in_buffered_data ci = 0 \<longrightarrow> total_in (ci_stream ci) = 0" by (auto simp: store_store)
    then show ?thesis using loop e(1) r(3,4) same_frame_trans [OF fr f(7)]
      by (intro exI [of _ ci] exI [of _ s'] exI [of _ g']) simp
  qed
qed

lemma close_flush_deflated:
  fixes Z :: "'z zlib"
  assumes Z: "deflates Z V" and ff: "zi_filefunc zi = ff" "zi_filestream zi = h" and s: "fetch w h = Some s"
    and ok: "compressing V front d g (zi_ci zi) s" "deflated (zi_ci zi)" "cv_ended V (zstate (ci_stream (zi_ci zi)))"
      "ci_pos_in_buffered_data (zi_ci zi) = 0 \<longrightarrow> total_in (ci_stream (zi_ci zi)) = 0"
    and room: "length front + cv_bound V (length d) \<le> limit w"
  shows "\<exists>ci s'. zip_close_flush Z Z_STREAM_END zi w = (ZIP_OK, zi\<lparr>zi_ci := ci\<rparr>, store h s' w)
    \<and> at_end s' \<and> s_data s' = front @ g \<and> s_rd s' = s_rd s \<and> s_err s' = s_err s \<and> same_frame (zi_ci zi) ci
    \<and> ci_totalCompressedData ci = of_nat (length g) \<and> ci_totalUncompressedData ci = of_nat (length d)"
proof -
  let ?ci = "zi_ci zi"
  note c = ok(1) [unfolded compressing_def]
  have dend: "fst (zl_deflateEnd Z t) = Z_OK" if "cv_ended V (zstate t)" for t
    using Z that by (auto simp: deflates_def deflate_finishes_def)
  have bd: "length (out s ?ci []) \<le> limit w" using c room by auto
  define ci1 where "ci1 = (if ci_pos_in_buffered_data ?ci > 0 then flushed ?ci else ?ci)"
  define s1 where "s1 = (if ci_pos_in_buffered_data ?ci > 0 then s_write (enc_bytes ?ci (pending ?ci)) s else s)"
  have fl: "zip64FlushWriteBuffer zi w = (ZIP_OK, zi\<lparr>zi_ci := flushed ?ci\<rparr>, store h (s_write (enc_bytes ?ci (pending ?ci)) s) w)"
    using flush_ok [of zi w s] ff s c bd by simp
  have f1: "same_frame ?ci ci1" using same_entry_frame [OF same_entry_flushed, of ?ci] by (simp add: ci1_def)
  have z1: "zstate (ci_stream ci1) = zstate (ci_stream ?ci)" by (simp add: ci1_def flushed_def)
  obtain tmp strm where e: "zl_deflateEnd Z (ci_stream ci1) = (tmp, strm)" by fastforce
  then have tmp: "tmp = Z_OK" using dend [of "ci_stream ci1"] ok(3) z1 by simp
  have d1: "ci_method ci1 = Z_DEFLATED" "ci_raw ci1 = 0" using ok(2) deflated_frame [OF f1] by (simp_all add: deflated_def)
  let ?ci2 = "ci1\<lparr>ci_stream := strm, ci_stream_initialised := 0\<rparr>"
  have "zip_close_flush Z Z_STREAM_END zi w = (ZIP_OK, zi\<lparr>zi_ci := ?ci2\<rparr>, store h s1 w)"
  proof (cases "ci_pos_in_buffered_data ?ci > 0")
    case True
    then have v: "ci1 = flushed ?ci" "s1 = s_write (enc_bytes ?ci (pending ?ci)) s" by (simp_all add: ci1_def s1_def)
    show ?thesis using True fl d1 e tmp unfolding v by (simp add: zip_close_flush_def Let_def)
  next
    case False
    then have v: "ci1 = ?ci" "s1 = s" by (simp_all add: ci1_def s1_def)
    show ?thesis using False d1 e tmp store_fetch [OF s] unfolding v by (simp add: zip_close_flush_def Let_def)
  qed
  moreover have "same_frame ?ci ?ci2" by (rule same_frame_trans [OF f1]) (simp add: same_frame_def)
  moreover have "at_end s1" "s_rd s1 = s_rd s" "s_err s1 = s_err s" using c by (auto simp: s1_def)
  moreover have "s_data s1 = front @ g"
    using c by (auto simp: s1_def at_end_data out_def pending_empty)
  moreover have "ci_totalCompressedData ?ci2 = of_nat (length g)"
    using c by (auto simp: ci1_def flushed_def size_c_def)
  moreover have "ci_totalUncompressedData ?ci2 = of_nat (length d)"
    using c ok(4) by (auto simp: ci1_def flushed_def size_u_def)
  ultimately show ?thesis by blast
qed

end

end
