(* ===== verification/DeflateArchive.thy ===== *)
theory DeflateArchive
  imports Deflate Inflate
begin

text \<open>
  Archives with deflated entries: opening, writing and closing one, and whole runs in which stored
  and deflated entries follow one another.
\<close>

section \<open>An entry being compressed\<close>

definition arch_deflating ::
    "'z codec_view \<Rightarrow> archive_base \<Rightarrow> zip_entry list \<Rightarrow> new_file \<Rightarrow> byte list \<Rightarrow> uLong
     \<Rightarrow> ('w, 'z) zip64_internal \<Rightarrow> stream \<Rightarrow> bool" where
  "arch_deflating V b es nf d c zi s \<longleftrightarrow> arch_dir b es zi \<and> zi_in_opened_file_inzip zi = 1
     \<and> (\<exists>g. compressing V (ab_data b @ locals es @ entry_header nf 0 0 0) d g (zi_ci zi) s)
     \<and> deflated (zi_ci zi) \<and> cv_live V (zstate (ci_stream (zi_ci zi)))
     \<and> ci_crypt_header_size (zi_ci zi) = 0 \<and> ci_crc32 (zi_ci zi) = c
     \<and> ci_pos_local_header (zi_ci zi) = of_nat (length (ab_data b @ locals es))
     \<and> ci_size_centralheader (zi_ci zi) = of_nat (length (dir_header 0 nf 0 0 0))
     \<and> ci_central_header (zi_ci zi) =
         dir_header (of_nat (length (ab_data b @ locals es)) - zi_add_position zi) nf 0 0 0 @ replicate 32 0"

text \<open>What such an entry is opened with.\<close>

definition nf_deflate :: "new_file \<Rightarrow> bool" where
  "nf_deflate nf \<longleftrightarrow> nf_small nf \<and> nf_method nf = Z_DEFLATED \<and> nf_raw nf = 0 \<and> nf_zipfi nf \<noteq> None
     \<and> deflate_params (nf_level nf) (if nf_windowBits nf > 0 then - nf_windowBits nf else nf_windowBits nf)
         (nf_memLevel nf) (nf_strategy nf)"

text \<open>
  In the archive nothing tells it from an entry that was copied raw with the same bytes; the
  compressor may have marked it as text.
\<close>

definition compressed_file :: "int \<Rightarrow> new_file \<Rightarrow> new_file" where
  "compressed_file t nf = (marked t nf)\<lparr>nf_raw := 1\<rparr>"

lemma compressed_file_sel [simp]:
  assumes "nf_zipfi nf \<noteq> None"
  shows "new_file_name (compressed_file t nf) = new_file_name nf" "new_file_comment (compressed_file t nf) = new_file_comment nf"
    "nf_extrafield_local (compressed_file t nf) = nf_extrafield_local nf"
    "nf_extrafield_global (compressed_file t nf) = nf_extrafield_global nf"
    "nf_method (compressed_file t nf) = nf_method nf"
  using marked_sel [of t nf] assms by (simp_all add: compressed_file_def new_file_name_def new_file_comment_def)

lemma raw_header:
  "entry_header (nf\<lparr>nf_raw := r\<rparr>) = entry_header nf" "dir_header off (nf\<lparr>nf_raw := r\<rparr>) = dir_header off nf"
  by (simp_all add: fun_eq_iff entry_header_def dir_header_def new_file_flag_def new_file_dosDate_def new_file_name_def
      new_file_comment_def new_file_internal_fa_def new_file_external_fa_def)

lemma nf_ok_compressed: "nf_deflate nf \<Longrightarrow> nf_ok (compressed_file t nf)"
  using marked_sel [of t nf] by (simp add: nf_deflate_def nf_small_def nf_ok_def) (simp add: compressed_file_def)

lemma arch_closed_raw:
  "arch_closed b (es @ [\<lparr>ze_file = nf\<lparr>nf_raw := r\<rparr>, ze_data = g, ze_crc = c, ze_size = u\<rparr>]) zi s
    = arch_closed b (es @ [\<lparr>ze_file = nf, ze_data = g, ze_crc = c, ze_size = u\<rparr>]) zi s"
  by (simp add: arch_closed_def arch_dir_def central_dir_append entry_local_def entry_central_def raw_header)

context filefunc
begin

lemma deflate_open:
  fixes zi :: "('w, 'z) zip64_internal" and Z :: "'z zlib"
  assumes Z: "deflates Z V"
    and ff: "zi_filefunc zi = ff" "zi_filestream zi = h" and s: "fetch w h = Some s" and arch: "arch_closed b es zi s"
    and nf: "nf_deflate nf" and mt: "malloc_total \<sigma>"
    and pos: "length (s_data s) < 0xffffffff" "length (s_data s @ entry_header nf 0 0 0) \<le> limit w"
  shows "\<exists>zi' \<sigma>'. new_file_open Z zi nf \<sigma> w
      = Some (ZIP_OK, zi', \<sigma>', store h (s_write (entry_header nf 0 0 0) s) w)
    \<and> malloc_total \<sigma>' \<and> same_archive zi zi' \<and> arch_deflating V b es nf [] 0 zi' (s_write (entry_header nf 0 0 0) s)"
proof -
  let ?s = "s_write (entry_header nf 0 0 0) s"
  let ?wb = "if nf_windowBits nf > 0 then - nf_windowBits nf else nf_windowBits nf"
  have n: "nf_small nf" "nf_method nf = Z_DEFLATED" "nf_raw nf = 0"
    "deflate_params (nf_level nf) ?wb (nf_memLevel nf) (nf_strategy nf)"
    using nf unfolding nf_deflate_def by blast+
  obtain ci \<sigma>1 where 1: "new_file_open Z zi nf \<sigma> w
      = Some (let (err, ci') = new_file_compressor Z nf ZIP_OK ci; zi' = zi\<lparr>zi_ci := ci'\<lparr>ci_crypt_header_size := 0\<rparr>\<rparr>
              in (err, if err = Z_OK then zi'\<lparr>zi_in_opened_file_inzip := 1\<rparr> else zi', \<sigma>1, store h ?s w))"
    "malloc_total \<sigma>1" "entry_begun b es nf zi ci"
    using new_file_headers_eq [OF ff s arch n(1) mt pos] by blast
  let ?strm = "(ci_stream ci)\<lparr>next_in := [], avail_out := Z_BUFSIZE, next_out := 0, total_in := 0,
                                total_out := 0, data_type := Z_BINARY\<rparr>"
  obtain strm where i: "zl_deflateInit2 Z ?strm (nf_level nf) Z_DEFLATED ?wb (nf_memLevel nf) (nf_strategy nf) = (Z_OK, strm)"
    "avail_out strm = Z_BUFSIZE" "next_out strm = 0" "total_in strm = 0" "cv_live V (zstate strm)"
    "cv_taken V (zstate strm) = []" "cv_given V (zstate strm) = []"
    using Z n(4) unfolding deflates_def deflate_starts_def by fastforce
  note b = 1(3) [unfolded entry_begun_def]
  have nc: "new_file_compressor Z nf ZIP_OK ci = (Z_OK, ci\<lparr>ci_stream := strm, ci_stream_initialised := Z_DEFLATED\<rparr>)"
    using i(1) n(2,3) b by (simp add: new_file_compressor_def Let_def)
  let ?ci = "ci\<lparr>ci_stream := strm, ci_stream_initialised := Z_DEFLATED, ci_crypt_header_size := 0\<rparr>"
  let ?zi = "zi\<lparr>zi_ci := ?ci, zi_in_opened_file_inzip := 1\<rparr>"
  have "new_file_open Z zi nf \<sigma> w = Some (ZIP_OK, ?zi, \<sigma>1, store h ?s w)" using 1(1) nc by simp
  moreover have "compressing V (ab_data b @ locals es @ entry_header nf 0 0 0) [] [] ?ci ?s"
    using arch b i by (simp add: compressing_def arch_closed_def buf_ok_def out_plain pending_def at_end_data size_c_def size_u_def)
  then have "arch_deflating V b es nf [] 0 ?zi ?s"
    using arch b i(5) n(2,3) by (auto simp: arch_deflating_def arch_closed_def arch_dir_def deflated_def)
  ultimately show ?thesis using 1(2) by (auto simp: same_archive_def)
qed

lemma deflate_write:
  fixes zi :: "('w, 'z) zip64_internal" and Z :: "'z zlib"
  assumes Z: "deflates Z V" and ff: "zi_filefunc zi = ff" "zi_filestream zi = h" and s: "fetch w h = Some s"
    and arch: "arch_deflating V b es nf d c zi s"
    and room: "length (ab_data b @ locals es @ entry_header nf 0 0 0) + cv_bound V (length (d @ buf)) \<le> limit w"
  shows "\<exists>zi' s'. zipWriteInFileInZip Z (Some zi) buf w = Some (ZIP_OK, Some zi', store h s' w)
    \<and> same_archive zi zi' \<and> s_rd s' = s_rd s \<and> s_err s' = s_err s
    \<and> arch_deflating V b es nf (d @ buf) (zl_crc32 Z c buf) zi' s'"
proof -
  note a = arch [unfolded arch_deflating_def]
  obtain g where g: "compressing V (ab_data b @ locals es @ entry_header nf 0 0 0) d g (zi_ci zi) s" using a by blast
  have o: "deflated (zi_ci zi)" "cv_live V (zstate (ci_stream (zi_ci zi)))" "zi_in_opened_file_inzip zi = 1" using a by blast+
  obtain ci s' g' where r: "zipWriteInFileInZip Z (Some zi) buf w = Some (ZIP_OK, Some (zi\<lparr>zi_ci := ci\<rparr>), store h s' w)"
    "compressing V (ab_data b @ locals es @ entry_header nf 0 0 0) (d @ buf) g' ci s'" "cv_live V (zstate (ci_stream ci))"
    "s_rd s' = s_rd s" "s_err s' = s_err s" "same_frame (fed Z buf (zi_ci zi)) ci"
    using write_deflated [OF Z ff s g o room] by blast
  have "deflated ci" using a deflated_frame [OF r(6)] by (simp add: fed_def deflated_def)
  then have "arch_deflating V b es nf (d @ buf) (zl_crc32 Z c buf) (zi\<lparr>zi_ci := ci\<rparr>) s'"
    using a r(2,3) same_frame_sel [OF r(6)] by (auto simp: arch_deflating_def arch_dir_def fed_def)
  with r(1,4,5) show ?thesis by (auto simp: same_archive_def)
qed

lemma deflate_close:
  fixes zi :: "('w, 'z) zip64_internal" and Z :: "'z zlib"
  assumes Z: "deflates Z V" and ff: "zi_filefunc zi = ff" "zi_filestream zi = h" and s: "fetch w h = Some s"
    and arch: "arch_deflating V b es nf d c zi s" and nf: "nf_deflate nf" and mt: "malloc_total \<sigma>"
    and room: "length (ab_data b @ locals es @ entry_header nf 0 0 0) + cv_bound V (length d) \<le> limit w"
      "length (ab_data b @ locals es) < 0xffffffff" "length d < 0xffffffff" "cv_bound V (length d) < 0xffffffff"
  shows "\<exists>zi' \<sigma>' s' t g. zipCloseFileInZipRaw64_zi Z zi usize crc \<sigma> w = Some (ZIP_OK, zi', \<sigma>', store h s' w)
    \<and> malloc_total \<sigma>' \<and> same_archive zi zi' \<and> s_rd s' = s_rd s \<and> s_err s' = s_err s
    \<and> cv_coded V d g \<and> length g \<le> cv_bound V (length d)
    \<and> arch_closed b (es @ [\<lparr>ze_file = compressed_file t nf, ze_data = g, ze_crc = c, ze_size = of_nat (length d)\<rparr>]) zi' s'"
proof -
  let ?front = "ab_data b @ locals es @ entry_header nf 0 0 0"
  note a = arch [unfolded arch_deflating_def]
  have n: "nf_small nf" "nf_zipfi nf \<noteq> None" using nf by (simp_all add: nf_deflate_def)
  obtain g0 where g0: "compressing V ?front d g0 (zi_ci zi) s" using a by blast
  let ?zi = "zi\<lparr>zi_ci := (zi_ci zi)\<lparr>ci_stream := (ci_stream (zi_ci zi))\<lparr>next_in := []\<rparr>\<rparr>\<rparr>"
  have zc: "compressing V ?front d g0 (zi_ci ?zi) s" using g0 by (simp add: compressing_input)
  have df: "deflated (zi_ci ?zi)" "ci_method (zi_ci zi) = Z_DEFLATED" "ci_raw (zi_ci zi) = 0" using a by (simp_all add: deflated_def)
  have "\<exists>ci s' g'. zip_finish_loop Z ZIP_OK ?zi w = Some (Z_STREAM_END, ?zi\<lparr>zi_ci := ci\<rparr>, store h s' w)
    \<and> compressing V ?front d g' ci s' \<and> cv_ended V (zstate (ci_stream ci)) \<and> cv_coded V d g'
    \<and> s_rd s' = s_rd s \<and> s_err s' = s_err s \<and> same_frame (zi_ci ?zi) ci
    \<and> (ci_pos_in_buffered_data ci = 0 \<longrightarrow> total_in (ci_stream ci) = 0)"
    by (rule finish_loop_deflated [OF Z _ _ s zc]) (use ff a room(1) in simp_all)
  then obtain ci1 s1 g where 1: "zip_finish_loop Z ZIP_OK ?zi w = Some (Z_STREAM_END, zi\<lparr>zi_ci := ci1\<rparr>, store h s1 w)"
    "compressing V ?front d g ci1 s1" "cv_ended V (zstate (ci_stream ci1))" "cv_coded V d g"
    "s_rd s1 = s_rd s" "s_err s1 = s_err s" "same_frame (zi_ci ?zi) ci1"
    "ci_pos_in_buffered_data ci1 = 0 \<longrightarrow> total_in (ci_stream ci1) = 0" by auto
  let ?zi1 = "zi\<lparr>zi_ci := ci1\<rparr>"
  have "\<exists>ci s'. zip_close_flush Z Z_STREAM_END ?zi1 (store h s1 w) = (ZIP_OK, ?zi1\<lparr>zi_ci := ci\<rparr>, store h s' (store h s1 w))
    \<and> at_end s' \<and> s_data s' = ?front @ g \<and> s_rd s' = s_rd s1 \<and> s_err s' = s_err s1 \<and> same_frame (zi_ci ?zi1) ci
    \<and> ci_totalCompressedData ci = of_nat (length g) \<and> ci_totalUncompressedData ci = of_nat (length d)"
    by (rule close_flush_deflated [OF Z _ _ fetch_store [OF s], where d = d and g = g])
      (use ff 1 df deflated_frame [OF 1(7)] room(1) in \<open>simp_all add: limit_store\<close>)
  then obtain ci2 s2 where 2: "zip_close_flush Z Z_STREAM_END ?zi1 (store h s1 w) = (ZIP_OK, zi\<lparr>zi_ci := ci2\<rparr>, store h s2 w)"
    "at_end s2" "s_data s2 = ?front @ g" "s_rd s2 = s_rd s" "s_err s2 = s_err s" "same_frame ci1 ci2"
    "ci_totalCompressedData ci2 = of_nat (length g)" "ci_totalUncompressedData ci2 = of_nat (length d)"
    using 1(5,6) by (auto simp: store_store)
  note same = same_frame_sel [OF same_frame_trans [OF 1(7) 2(6)]]
  have lg: "length g \<le> cv_bound V (length d)" using 1(2) by (simp add: compressing_def)
  let ?t = "data_type (ci_stream ci2)"
  have "\<exists>zi' \<sigma>' s'. zip_close_record ZIP_OK (zi\<lparr>zi_ci := ci2\<rparr>) usize crc \<sigma> (store h s2 w)
      = (ZIP_OK, zi', \<sigma>', store h s' (store h s2 w))
    \<and> malloc_total \<sigma>' \<and> same_archive (zi\<lparr>zi_ci := ci2\<rparr>) zi' \<and> s_rd s' = s_rd s2 \<and> s_err s' = s_err s2
    \<and> arch_closed b (es @ [\<lparr>ze_file = marked ?t nf, ze_data = g, ze_crc = c, ze_size = of_nat (length d)\<rparr>]) zi' s'"
  proof (rule close_record_eq)
    show "zi_filefunc (zi\<lparr>zi_ci := ci2\<rparr>) = ff" "zi_filestream (zi\<lparr>zi_ci := ci2\<rparr>) = h" using ff by simp_all
    show "fetch (store h s2 w) h = Some s2" by (rule fetch_store [OF s])
    show "arch_dir b es (zi\<lparr>zi_ci := ci2\<rparr>)" using a by (simp add: arch_dir_def)
    show "ci_central_header (zi_ci (zi\<lparr>zi_ci := ci2\<rparr>)) =
        dir_header (of_nat (length (ab_data b @ locals es)) - zi_add_position zi) nf 0 0 0 @ replicate 32 0"
      using a same by simp
    show "length (dir_header (of_nat (length (ab_data b @ locals es)) - zi_add_position zi) nf 0 0 0) < 2 ^ 64"
      using n(1) by (simp add: nf_small_def)
    show "s_data s2 = ab_data b @ locals es @ entry_header nf 0 0 0 @ g" using 2(3) by simp
    then show "length (s_data s2) < 2 ^ 63" using lg room(2,4) n(1) by (simp add: nf_small_def)
    show "length (s_data s2) \<le> limit (store h s2 w)" using 2(3) lg room(1) by (simp add: limit_store)
    show "of_nat (length d) = (if ci_raw (zi_ci (zi\<lparr>zi_ci := ci2\<rparr>)) = 0 then ci_totalUncompressedData (zi_ci (zi\<lparr>zi_ci := ci2\<rparr>)) else usize)"
      using 2(8) same df by simp
    show "(of_nat (length d) :: 64 word) < 0xffffffff" by (rule below32 [OF room(3)])
  qed (use a same 2 lg room mt df n in simp_all)
  then obtain zi' \<sigma>' s' where 3: "zip_close_record ZIP_OK (zi\<lparr>zi_ci := ci2\<rparr>) usize crc \<sigma> (store h s2 w) = (ZIP_OK, zi', \<sigma>', store h s' w)"
    "malloc_total \<sigma>'" "same_archive zi zi'" "s_rd s' = s_rd s" "s_err s' = s_err s"
    "arch_closed b (es @ [\<lparr>ze_file = marked ?t nf, ze_data = g, ze_crc = c, ze_size = of_nat (length d)\<rparr>]) zi' s'"
    using 2(4,5) by (auto simp: store_store same_archive_def)
  have "zipCloseFileInZipRaw64_zi Z zi usize crc \<sigma> w = Some (ZIP_OK, zi', \<sigma>', store h s' w)"
    using a df 1(1) 2(1) 3(1) by (simp add: zipCloseFileInZipRaw64_zi_def Let_def)
  moreover have "arch_closed b (es @ [\<lparr>ze_file = compressed_file ?t nf, ze_data = g, ze_crc = c, ze_size = of_nat (length d)\<rparr>]) zi' s'"
    using 3(6) by (simp add: compressed_file_def arch_closed_raw)
  ultimately show ?thesis using 3 1(4) lg by blast
qed

end

section \<open>Stored or deflated\<close>

text \<open>Whether the code compresses the data of an entry, and how many bytes it may become.\<close>

definition nf_compressed :: "new_file \<Rightarrow> bool" where
  "nf_compressed nf \<longleftrightarrow> nf_method nf = Z_DEFLATED \<and> nf_raw nf = 0"

definition nf_writable :: "new_file \<Rightarrow> bool" where
  "nf_writable nf \<longleftrightarrow> (if nf_compressed nf then nf_deflate nf else nf_ok nf)"

definition stored_size :: "'z codec_view \<Rightarrow> new_file \<Rightarrow> nat \<Rightarrow> nat" where
  "stored_size V nf n = (if nf_compressed nf then cv_bound V n else n)"

text \<open>An entry is open: \<open>d\<close> was written, with running CRC \<open>c\<close>.\<close>

definition arch_writing ::
    "'z codec_view \<Rightarrow> archive_base \<Rightarrow> zip_entry list \<Rightarrow> new_file \<Rightarrow> byte list \<Rightarrow> uLong
     \<Rightarrow> ('w, 'z) zip64_internal \<Rightarrow> stream \<Rightarrow> bool" where
  "arch_writing V b es nf d c zi s \<longleftrightarrow>
     (if nf_compressed nf then arch_deflating V b es nf d c zi s else arch_open b es nf d c zi s)"

text \<open>What it becomes: some compressed form of the data, or the data itself.\<close>

definition entry_made ::
    "'z codec_view \<Rightarrow> new_file \<Rightarrow> byte list \<Rightarrow> uLong \<Rightarrow> ZPOS64_T \<Rightarrow> uLong \<Rightarrow> zip_entry \<Rightarrow> bool" where
  "entry_made V nf d c usize crc e \<longleftrightarrow>
     (if nf_compressed nf then
        (\<exists>t. ze_file e = compressed_file t nf) \<and> cv_coded V d (ze_data e) \<and> length (ze_data e) \<le> cv_bound V (length d)
        \<and> ze_crc e = c \<and> ze_size e = of_nat (length d)
      else e = \<lparr>ze_file = nf, ze_data = d, ze_crc = (if nf_raw nf = 0 then c else crc),
                ze_size = (if nf_raw nf = 0 then of_nat (length d) else usize)\<rparr>)"

lemma nf_writable_small: "nf_writable nf \<Longrightarrow> nf_small nf"
  by (auto simp: nf_writable_def nf_deflate_def intro: nf_ok_small split: if_splits)

lemma entry_made_lengths:
  assumes "entry_made V nf d c usize crc e" "nf_writable nf"
  shows "length (entry_local e) \<le> length (entry_header nf 0 0 0) + stored_size V nf (length d)"
    "length (entry_central off e) = length (dir_header 0 nf 0 0 0)"
    "length (ze_data e) \<le> stored_size V nf (length d)" "nf_ok (ze_file e)" "new_file_name (ze_file e) = new_file_name nf"
    "nf_method (ze_file e) = nf_method nf"
  using assms nf_ok_compressed [of nf]
  by (auto simp: entry_made_def entry_local_def entry_central_def stored_size_def nf_writable_def nf_deflate_def split: if_splits)

lemma stored_size_mono:
  assumes "nf_compressed nf \<Longrightarrow> deflates Z V" "m \<le> n"
  shows "stored_size V nf m \<le> stored_size V nf n"
  using assms by (auto simp: stored_size_def deflates_def intro: monoD)

text \<open>Reading gives the data back.\<close>

lemma entry_made_holds:
  assumes "entry_made V nf d c usize crc e" "nf_writable nf" "nf_raw nf = 0" "length d < 2 ^ 32"
    and "nf_compressed nf \<Longrightarrow> inflates Z V"
  shows "holds Z e d" "ze_crc e = c"
proof -
  have "nf_method nf = 0" if "\<not> nf_compressed nf" using assms(2,3) that by (auto simp: nf_writable_def nf_ok_def)
  with assms show "holds Z e d" "ze_crc e = c"
    by (auto simp: entry_made_def holds_def nf_compressed_def nf_writable_def nf_deflate_def split: if_splits)
qed

context filefunc
begin

lemma writing_open:
  fixes zi :: "('w, 'z) zip64_internal" and Z :: "'z zlib"
  assumes Z: "nf_compressed nf \<Longrightarrow> deflates Z V"
    and ff: "zi_filefunc zi = ff" "zi_filestream zi = h" and s: "fetch w h = Some s" and arch: "arch_closed b es zi s"
    and nf: "nf_writable nf" and mt: "malloc_total \<sigma>"
    and pos: "length (ab_data b @ locals es) < 0xffffffff" "length (ab_data b @ locals es @ entry_header nf 0 0 0) \<le> limit w"
  shows "\<exists>zi' \<sigma>' s'. zipOpenNewFileInZip4_64 Z (Some zi) nf \<sigma> w = Some (ZIP_OK, Some zi', \<sigma>', store h s' w)
    \<and> malloc_total \<sigma>' \<and> same_archive zi zi' \<and> s_rd s' = s_rd s \<and> s_err s' = s_err s \<and> arch_writing V b es nf [] 0 zi' s'"
proof -
  let ?s = "s_write (entry_header nf 0 0 0) s"
  have c: "s_data s = ab_data b @ locals es" "zi_in_opened_file_inzip zi = 0" using arch by (simp_all add: arch_closed_def)
  have p: "length (s_data s) < 0xffffffff" "length (s_data s @ entry_header nf 0 0 0) \<le> limit w" using pos c(1) by simp_all
  have m: "nf_method nf = 0 \<or> nf_method nf = Z_DEFLATED"
    using nf by (auto simp: nf_writable_def nf_ok_def nf_deflate_def split: if_splits)
  have "\<exists>zi' \<sigma>'. new_file_open Z zi nf \<sigma> w = Some (ZIP_OK, zi', \<sigma>', store h ?s w)
    \<and> malloc_total \<sigma>' \<and> same_archive zi zi' \<and> arch_writing V b es nf [] 0 zi' ?s"
  proof (cases "nf_compressed nf")
    case True
    then have "nf_deflate nf" using nf by (simp add: nf_writable_def)
    from deflate_open [OF Z [OF True] ff s arch this mt p] True show ?thesis by (simp add: arch_writing_def)
  next
    case False
    then have "nf_ok nf" using nf by (simp add: nf_writable_def)
    from new_file_open_eq [OF ff s arch this mt p, of Z] False show ?thesis by (simp add: arch_writing_def)
  qed
  then obtain zi' \<sigma>' where 1: "new_file_open Z zi nf \<sigma> w = Some (ZIP_OK, zi', \<sigma>', store h ?s w)"
    "malloc_total \<sigma>'" "same_archive zi zi'" "arch_writing V b es nf [] 0 zi' ?s" by blast
  then have "zipOpenNewFileInZip4_64 Z (Some zi) nf \<sigma> w = Some (ZIP_OK, Some zi', \<sigma>', store h ?s w)"
    using m c(2) by (auto simp: zipOpenNewFileInZip4_64_def)
  with 1 show ?thesis by (intro exI [of _ zi'] exI [of _ \<sigma>'] exI [of _ ?s]) simp
qed

lemma writing_write:
  fixes zi :: "('w, 'z) zip64_internal" and Z :: "'z zlib"
  assumes Z: "nf_compressed nf \<Longrightarrow> deflates Z V"
    and ff: "zi_filefunc zi = ff" "zi_filestream zi = h" and s: "fetch w h = Some s"
    and arch: "arch_writing V b es nf d c zi s"
    and room: "length (ab_data b @ locals es @ entry_header nf 0 0 0) + stored_size V nf (length (d @ buf)) \<le> limit w"
  shows "\<exists>zi' s'. zipWriteInFileInZip Z (Some zi) buf w = Some (ZIP_OK, Some zi', store h s' w)
    \<and> same_archive zi zi' \<and> s_rd s' = s_rd s \<and> s_err s' = s_err s
    \<and> arch_writing V b es nf (d @ buf) (zl_crc32 Z c buf) zi' s'"
proof (cases "nf_compressed nf")
  case True
  from deflate_write [OF Z [OF True] ff s, of b es nf d c buf] arch room True show ?thesis
    by (simp add: arch_writing_def stored_size_def)
next
  case False
  from arch_write [OF ff s, of b es nf d c buf] arch room False show ?thesis
    by (simp add: arch_writing_def stored_size_def)
qed

lemma writing_close:
  fixes zi :: "('w, 'z) zip64_internal" and Z :: "'z zlib"
  assumes Z: "nf_compressed nf \<Longrightarrow> deflates Z V"
    and ff: "zi_filefunc zi = ff" "zi_filestream zi = h" and s: "fetch w h = Some s"
    and arch: "arch_writing V b es nf d c zi s" and nf: "nf_writable nf" and mt: "malloc_total \<sigma>"
    and room: "length (ab_data b @ locals es @ entry_header nf 0 0 0) + stored_size V nf (length d) \<le> limit w"
      "length (ab_data b @ locals es) < 0xffffffff" "length d < 0xffffffff" "stored_size V nf (length d) < 0xffffffff"
      "nf_raw nf \<noteq> 0 \<Longrightarrow> usize < 0xffffffff"
  shows "\<exists>zi' \<sigma>' s' e. zipCloseFileInZipRaw64 Z (Some zi) usize crc \<sigma> w = Some (ZIP_OK, Some zi', \<sigma>', store h s' w)
    \<and> malloc_total \<sigma>' \<and> same_archive zi zi' \<and> s_rd s' = s_rd s \<and> s_err s' = s_err s
    \<and> entry_made V nf d c usize crc e \<and> arch_closed b (es @ [e]) zi' s'"
proof -
  have "\<exists>zi' \<sigma>' s' e. zipCloseFileInZipRaw64_zi Z zi usize crc \<sigma> w = Some (ZIP_OK, zi', \<sigma>', store h s' w)
    \<and> malloc_total \<sigma>' \<and> same_archive zi zi' \<and> s_rd s' = s_rd s \<and> s_err s' = s_err s
    \<and> entry_made V nf d c usize crc e \<and> arch_closed b (es @ [e]) zi' s'"
  proof (cases "nf_compressed nf")
    case True
    have "arch_deflating V b es nf d c zi s" "nf_deflate nf" "cv_bound V (length d) < 0xffffffff"
      "length (ab_data b @ locals es @ entry_header nf 0 0 0) + cv_bound V (length d) \<le> limit w"
      using arch nf room True by (simp_all add: arch_writing_def nf_writable_def stored_size_def)
    from deflate_close [OF Z [OF True] ff s this(1,2) mt this(4) room(2,3) this(3), of usize crc]
    obtain zi' \<sigma>' s' t g where 1: "zipCloseFileInZipRaw64_zi Z zi usize crc \<sigma> w = Some (ZIP_OK, zi', \<sigma>', store h s' w)"
      "malloc_total \<sigma>'" "same_archive zi zi'" "s_rd s' = s_rd s" "s_err s' = s_err s" "cv_coded V d g" "length g \<le> cv_bound V (length d)"
      "arch_closed b (es @ [\<lparr>ze_file = compressed_file t nf, ze_data = g, ze_crc = c, ze_size = of_nat (length d)\<rparr>]) zi' s'"
      by blast
    moreover have "entry_made V nf d c usize crc \<lparr>ze_file = compressed_file t nf, ze_data = g, ze_crc = c, ze_size = of_nat (length d)\<rparr>"
      using True 1(6,7) by (auto simp: entry_made_def)
    ultimately show ?thesis by blast
  next
    case False
    let ?e = "\<lparr>ze_file = nf, ze_data = d, ze_crc = (if nf_raw nf = 0 then c else crc),
                ze_size = (if nf_raw nf = 0 then of_nat (length d) else usize)\<rparr>"
    have a: "arch_open b es nf d c zi s" "nf_ok nf" "length (ab_data b @ locals es @ entry_header nf 0 0 0 @ d) \<le> limit w"
      using arch nf room False by (simp_all add: arch_writing_def nf_writable_def stored_size_def)
    have "entry_made V nf d c usize crc ?e" using False by (simp add: entry_made_def)
    with arch_close [OF ff s a(1,2) mt a(3) room(2,3,5), where e = ?e and crc = crc and Z = Z] show ?thesis by blast
  qed
  then show ?thesis by (auto simp: zipCloseFileInZipRaw64_def)
qed

lemma writing_chunks:
  fixes zi :: "('w, 'z) zip64_internal" and Z :: "'z zlib"
  assumes Z: "nf_compressed nf \<Longrightarrow> deflates Z V"
    and "zi_filefunc zi = ff" "zi_filestream zi = h" "fetch w h = Some s" "arch_writing V b es nf d c zi s"
    "length (ab_data b @ locals es @ entry_header nf 0 0 0) + stored_size V nf (length (d @ concat bufs)) \<le> limit w"
  shows "\<exists>zi' s'. write_chunks Z (Some zi) bufs w = Some (ZIP_OK, Some zi', store h s' w)
    \<and> same_archive zi zi' \<and> s_rd s' = s_rd s \<and> s_err s' = s_err s
    \<and> arch_writing V b es nf (d @ concat bufs) (foldl (zl_crc32 Z) c bufs) zi' s'"
  using assms(2-)
proof (induction bufs arbitrary: zi w s d c)
  case Nil
  then show ?case by (intro exI [of _ zi] exI [of _ s]) (simp add: store_fetch)
next
  case (Cons buf bufs)
  have "stored_size V nf (length (d @ buf)) \<le> stored_size V nf (length (d @ concat (buf # bufs)))"
    by (rule stored_size_mono [OF Z]) simp_all
  then have "length (ab_data b @ locals es @ entry_header nf 0 0 0) + stored_size V nf (length (d @ buf)) \<le> limit w"
    using Cons.prems(5) by linarith
  from writing_write [OF Z Cons.prems(1-4) this] obtain zi1 s1 where 1:
    "zipWriteInFileInZip Z (Some zi) buf w = Some (ZIP_OK, Some zi1, store h s1 w)"
    "same_archive zi zi1" "s_rd s1 = s_rd s" "s_err s1 = s_err s"
    "arch_writing V b es nf (d @ buf) (zl_crc32 Z c buf) zi1 s1" by blast
  have "zi_filefunc zi1 = ff" "zi_filestream zi1 = h" using 1(2) Cons.prems(1,2) by (simp_all add: same_archive_def)
  from Cons.IH [OF this fetch_store [OF Cons.prems(3)] 1(5)] Cons.prems(5) obtain zi2 s2 where 2:
    "write_chunks Z (Some zi1) bufs (store h s1 w) = Some (ZIP_OK, Some zi2, store h s2 (store h s1 w))"
    "same_archive zi1 zi2" "s_rd s2 = s_rd s1" "s_err s2 = s_err s1"
    "arch_writing V b es nf ((d @ buf) @ concat bufs) (foldl (zl_crc32 Z) (zl_crc32 Z c buf) bufs) zi2 s2"
    by (auto simp: limit_store)
  from 1 2 same_archive_trans [OF 1(2) 2(2)] show ?case
    by (intro exI [of _ zi2] exI [of _ s2]) (simp add: store_store)
qed

end

section \<open>Whole runs\<close>

definition job_data :: "job \<Rightarrow> byte list" where
  "job_data j = concat (job_chunks j)"

text \<open>What a job leaves, and the room it needs for the entry and for its header in the directory.\<close>

definition job_done :: "'z zlib \<Rightarrow> 'z codec_view \<Rightarrow> job \<Rightarrow> zip_entry \<Rightarrow> bool" where
  "job_done Z V j e \<longleftrightarrow>
     entry_made V (job_file j) (job_data j) (foldl (zl_crc32 Z) 0 (job_chunks j)) (job_usize j) (job_crc j) e"

definition job_fits :: "'z zlib \<Rightarrow> 'z codec_view \<Rightarrow> job \<Rightarrow> bool" where
  "job_fits Z V j \<longleftrightarrow> nf_writable (job_file j) \<and> (nf_compressed (job_file j) \<longrightarrow> deflates Z V)
     \<and> length (job_data j) < 0xffffffff \<and> stored_size V (job_file j) (length (job_data j)) < 0xffffffff
     \<and> (nf_raw (job_file j) \<noteq> 0 \<longrightarrow> job_usize j < 0xffffffff)"

definition job_room :: "'z codec_view \<Rightarrow> job \<Rightarrow> nat" where
  "job_room V j = length (entry_header (job_file j) 0 0 0) + stored_size V (job_file j) (length (job_data j))"

definition job_central :: "job \<Rightarrow> nat" where
  "job_central j = length (dir_header 0 (job_file j) 0 0 0)"

lemma jobs_done_lengths:
  assumes "list_all2 (job_done Z V) js es" "\<forall>j \<in> set js. job_fits Z V j"
  shows "length (locals es) \<le> (\<Sum>j\<leftarrow>js. job_room V j)" "length (central_dir off es) = (\<Sum>j\<leftarrow>js. job_central j)"
proof -
  show "length (locals es) \<le> (\<Sum>j\<leftarrow>js. job_room V j)" using assms
  proof (induction rule: list_all2_induct)
    case (Cons j js e es)
    from Cons(1,4) have "length (entry_local e) \<le> job_room V j"
      unfolding job_done_def job_room_def by (intro entry_made_lengths(1)) (simp_all add: job_fits_def)
    with Cons show ?case by simp
  qed simp
  show "length (central_dir off es) = (\<Sum>j\<leftarrow>js. job_central j)" using assms
  proof (induction arbitrary: off rule: list_all2_induct)
    case (Cons j js e es)
    from Cons(1,4) have "length (entry_central off e) = job_central j"
      unfolding job_done_def job_central_def by (intro entry_made_lengths(2)) (simp_all add: job_fits_def)
    with Cons show ?case by (simp del: length_entry)
  qed simp
qed

lemma job_done_ok:
  assumes "job_done Z V j e" "job_fits Z V j"
  shows "nf_ok (ze_file e) \<and> length (ze_data e) < 0xffffffff \<and> ze_size e < 0xffffffff"
proof -
  have m: "entry_made V (job_file j) (job_data j) (foldl (zl_crc32 Z) 0 (job_chunks j)) (job_usize j) (job_crc j) e"
    using assms(1) by (simp add: job_done_def)
  have j: "nf_writable (job_file j)" "length (job_data j) < 0xffffffff" "stored_size V (job_file j) (length (job_data j)) < 0xffffffff"
    "nf_raw (job_file j) \<noteq> 0 \<longrightarrow> job_usize j < 0xffffffff" using assms(2) by (simp_all add: job_fits_def)
  have "ze_size e = of_nat (length (job_data j)) \<or> nf_raw (job_file j) \<noteq> 0 \<and> ze_size e = job_usize j"
    using m by (auto simp: entry_made_def split: if_splits)
  then have "ze_size e < 0xffffffff" using below32 [OF j(2)] j(4) by auto
  with entry_made_lengths(3,4) [OF m j(1)] j(3) show ?thesis by simp
qed

text \<open>The archive as a whole.\<close>

lemma jobs_archive_ok:
  assumes made: "list_all2 (job_done Z V) js es" and js: "\<forall>j \<in> set js. job_fits Z V j" "length js < 0xffff"
    and c: "length c < 0xffff - 22"
    and room: "(\<Sum>j\<leftarrow>js. job_room V j) < 0xffffffff" "(\<Sum>j\<leftarrow>js. job_central j) < 0xffffffff"
  shows "archive_ok [] es c"
proof -
  have "nf_ok (ze_file e) \<and> length (ze_data e) < 0xffffffff \<and> ze_size e < 0xffffffff" if e: "e \<in> set es" for e
  proof -
    obtain n where n: "n < length es" "e = es ! n" using e unfolding in_set_conv_nth by blast
    then have "job_done Z V (js ! n) e" "js ! n \<in> set js" using made by (simp_all add: list_all2_conv_all_nth)
    with job_done_ok js(1) show ?thesis by blast
  qed
  moreover have "length (locals es) < 0xffffffff" "length (central_dir 0 es) < 0xffffffff"
    using jobs_done_lengths(1) [OF made js(1)] jobs_done_lengths(2) [OF made js(1), of 0] room by simp_all
  ultimately show ?thesis using js(2) c list_all2_lengthD [OF made] by (simp add: archive_ok_def archive_bytes_def)
qed

context filefunc
begin

lemma add_job_eq:
  fixes zi :: "('w, 'z) zip64_internal" and Z :: "'z zlib"
  assumes ff: "zi_filefunc zi = ff" "zi_filestream zi = h" and s: "fetch w h = Some s"
    and arch: "arch_closed b es zi s" and j: "job_fits Z V j" and mt: "malloc_total \<sigma>"
    and room: "length (ab_data b @ locals es) + job_room V j \<le> limit w" "length (ab_data b @ locals es) < 0xffffffff"
  shows "\<exists>zi' \<sigma>' s' e. add_entry Z (Some zi) j \<sigma> w = Some (ZIP_OK, Some zi', \<sigma>', store h s' w)
    \<and> malloc_total \<sigma>' \<and> same_archive zi zi' \<and> job_done Z V j e \<and> arch_closed b (es @ [e]) zi' s'"
proof -
  let ?nf = "job_file j" and ?d = "job_data j"
  have Z: "deflates Z V" if "nf_compressed ?nf" using j that by (simp add: job_fits_def)
  have nf: "nf_writable ?nf" "length ?d < 0xffffffff" "stored_size V ?nf (length ?d) < 0xffffffff"
    "nf_raw ?nf \<noteq> 0 \<Longrightarrow> job_usize j < 0xffffffff" using j by (simp_all add: job_fits_def)
  have all: "length (ab_data b @ locals es @ entry_header ?nf 0 0 0) + stored_size V ?nf (length ?d) \<le> limit w"
    using room(1) by (simp add: job_room_def)
  then have "length (ab_data b @ locals es @ entry_header ?nf 0 0 0) \<le> limit w" by simp
  from writing_open [OF Z ff s arch nf(1) mt room(2) this] obtain zi1 \<sigma>1 s1 where 1:
    "zipOpenNewFileInZip4_64 Z (Some zi) ?nf \<sigma> w = Some (ZIP_OK, Some zi1, \<sigma>1, store h s1 w)" "malloc_total \<sigma>1" "same_archive zi zi1"
    "arch_writing V b es ?nf [] 0 zi1 s1" by blast
  have ff1: "zi_filefunc zi1 = ff" "zi_filestream zi1 = h" using 1(3) ff by (simp_all add: same_archive_def)
  have "length (ab_data b @ locals es @ entry_header ?nf 0 0 0) + stored_size V ?nf (length ([] @ concat (job_chunks j))) \<le> limit (store h s1 w)"
    using all by (simp add: limit_store job_data_def)
  from writing_chunks [OF Z ff1 fetch_store [OF s] 1(4) this] obtain zi2 s2 where 2:
    "write_chunks Z (Some zi1) (job_chunks j) (store h s1 w) = Some (ZIP_OK, Some zi2, store h s2 (store h s1 w))"
    "same_archive zi1 zi2" "arch_writing V b es ?nf ?d (foldl (zl_crc32 Z) 0 (job_chunks j)) zi2 s2"
    by (auto simp: job_data_def)
  have ff2: "zi_filefunc zi2 = ff" "zi_filestream zi2 = h" using 2(2) ff1 by (simp_all add: same_archive_def)
  have "length (ab_data b @ locals es @ entry_header ?nf 0 0 0) + stored_size V ?nf (length ?d) \<le> limit (store h s2 w)"
    using all by (simp add: limit_store)
  from writing_close [OF Z ff2 fetch_store [OF s] 2(3) nf(1) 1(2) this room(2) nf(2,3,4), of "job_crc j"]
  obtain zi3 \<sigma>3 s3 e where 3: "zipCloseFileInZipRaw64 Z (Some zi2) (job_usize j) (job_crc j) \<sigma>1 (store h s2 w)
      = Some (ZIP_OK, Some zi3, \<sigma>3, store h s3 (store h s2 w))" "malloc_total \<sigma>3" "same_archive zi2 zi3"
    "entry_made V ?nf ?d (foldl (zl_crc32 Z) 0 (job_chunks j)) (job_usize j) (job_crc j) e" "arch_closed b (es @ [e]) zi3 s3"
    by blast
  have "add_entry Z (Some zi) j \<sigma> w = Some (ZIP_OK, Some zi3, \<sigma>3, store h s3 w)"
    using 1(1) 2(1) 3(1) by (simp add: add_entry_def store_store)
  moreover have "same_archive zi zi3" using 1(3) 2(2) 3(3) by (simp add: same_archive_def)
  ultimately show ?thesis using 3(2,4,5) unfolding job_done_def by blast
qed

lemma add_jobs_eq:
  fixes zi :: "('w, 'z) zip64_internal" and Z :: "'z zlib"
  assumes "zi_filefunc zi = ff" "zi_filestream zi = h" "fetch w h = Some s" "arch_closed b es zi s"
    "\<forall>j \<in> set js. job_fits Z V j" "malloc_total \<sigma>"
    "length (ab_data b @ locals es) + (\<Sum>j\<leftarrow>js. job_room V j) \<le> limit w"
    "length (ab_data b @ locals es) + (\<Sum>j\<leftarrow>js. job_room V j) < 0xffffffff"
  shows "\<exists>zi' \<sigma>' s' es'. add_entries Z (Some zi) js \<sigma> w = Some (ZIP_OK, Some zi', \<sigma>', store h s' w)
    \<and> malloc_total \<sigma>' \<and> same_archive zi zi' \<and> list_all2 (job_done Z V) js es' \<and> arch_closed b (es @ es') zi' s'"
  using assms
proof (induction js arbitrary: zi w s es \<sigma>)
  case Nil
  then show ?case by (intro exI [of _ zi] exI [of _ \<sigma>] exI [of _ s]) (simp add: store_fetch)
next
  case (Cons j js)
  have j: "job_fits Z V j" using Cons.prems(5) by simp
  have "length (ab_data b @ locals es) + job_room V j \<le> limit w" "length (ab_data b @ locals es) < 0xffffffff"
    using Cons.prems(7,8) by simp_all
  with add_job_eq [OF Cons.prems(1-4) j Cons.prems(6)] obtain zi1 \<sigma>1 s1 e where 1:
    "add_entry Z (Some zi) j \<sigma> w = Some (ZIP_OK, Some zi1, \<sigma>1, store h s1 w)" "malloc_total \<sigma>1" "same_archive zi zi1"
    "job_done Z V j e" "arch_closed b (es @ [e]) zi1 s1" by blast
  have "zi_filefunc zi1 = ff" "zi_filestream zi1 = h" using 1(3) Cons.prems(1,2) by (simp_all add: same_archive_def)
  moreover have "length (ab_data b @ locals (es @ [e])) + (\<Sum>j\<leftarrow>js. job_room V j) \<le> limit (store h s1 w)"
    "length (ab_data b @ locals (es @ [e])) + (\<Sum>j\<leftarrow>js. job_room V j) < 0xffffffff"
    using jobs_done_lengths(1) [of Z V "[j]" "[e]"] 1(4) j Cons.prems(7,8) by (simp_all add: limit_store)
  ultimately obtain zi2 \<sigma>2 s2 es' where 2:
    "add_entries Z (Some zi1) js \<sigma>1 (store h s1 w) = Some (ZIP_OK, Some zi2, \<sigma>2, store h s2 (store h s1 w))"
    "malloc_total \<sigma>2" "same_archive zi1 zi2" "list_all2 (job_done Z V) js es'" "arch_closed b ((es @ [e]) @ es') zi2 s2"
    using Cons.IH [OF _ _ fetch_store [OF Cons.prems(3)] 1(5) _ 1(2)] Cons.prems(5) by fastforce
  from 1 2 same_archive_trans [OF 1(3) 2(3)] show ?case
    by (intro exI [of _ zi2] exI [of _ \<sigma>2] exI [of _ s2] exI [of _ "e # es'"]) (simp add: store_store)
qed

end

lemma make_archive_jobs:
  fixes Z :: "'z zlib"
  assumes there: "\<not> w_denied w path" "malloc_total \<sigma>" and js: "\<forall>j \<in> set js. job_fits Z V j"
    and c: "c = case_option [] id comment" "length c < 2 ^ 64"
    and room: "(\<Sum>j\<leftarrow>js. job_room V j) < 0xffffffff"
      "(\<Sum>j\<leftarrow>js. job_room V j) + (\<Sum>j\<leftarrow>js. job_central j) + 22 + length c \<le> w_limit w"
  shows "\<exists>\<sigma>' w' es. make_archive Z ci0 path js comment \<sigma> w = Some (ZIP_OK, \<sigma>', w') \<and> list_all2 (job_done Z V) js es
    \<and> w_files w' = (w_files w)(path \<mapsto> archive_bytes es c) \<and> w_denied w' = w_denied w"
proof -
  let ?h = "Suc (w_next w)" and ?b = "\<lparr>ab_data = [], ab_dir = [], ab_count = 0\<rparr>"
  obtain \<sigma>1 w1 s where 1: "zipOpen64 ci0 (Some path) APPEND_STATUS_CREATE \<sigma> w
      = Some (Some (fresh_archive ci0 ?h), None, \<sigma>1, w1)"
    "malloc_total \<sigma>1" "w_limit w1 = w_limit w" "w_files w1 = (w_files w)(path \<mapsto> [])"
    "map_option f_path (w_streams w1 ?h) = Some path"
    "stdio_fetch w1 ?h = Some s" "arch_closed ?b [] (fresh_archive ci0 ?h) s"
    "w_denied w1 = w_denied w"
    using zipOpen64_create [OF there, of ci0] by blast
  have "zi_filefunc (fresh_archive ci0 ?h) = stdio_filefunc64" "zi_filestream (fresh_archive ci0 ?h) = ?h"
    by (simp_all add: fresh_archive_def)
  from stdio64.add_jobs_eq [OF this 1(6,7) js 1(2)] room 1(3)
  obtain zi \<sigma>2 s2 es where 2: "add_entries Z (Some (fresh_archive ci0 ?h)) js \<sigma>1 w1 = Some (ZIP_OK, Some zi, \<sigma>2, stdio_store ?h s2 w1)"
    "same_archive (fresh_archive ci0 ?h) zi" "list_all2 (job_done Z V) js es" "arch_closed ?b es zi s2"
    by auto
  have zi: "zi_filefunc zi = stdio_filefunc64" "zi_filestream zi = ?h" "zi_add_position zi = 0" "zi_globalcomment zi = None"
    using 2(2) by (simp_all add: same_archive_def fresh_archive_def)
  note len = jobs_done_lengths [OF 2(3) js]
  have fit: "length (archive_bytes es c) \<le> w_limit w" "length (locals es) < 0xffffffff"
    using len(1) len(2) [of 0] room by (simp_all add: archive_bytes_def)
  let ?w2 = "stdio_store ?h s2 w1"
  have w2: "map_option f_path (w_streams ?w2 ?h) = Some path" "w_files ?w2 = (w_files w1)(path \<mapsto> s_data s2)"
    "w_denied ?w2 = w_denied w1" using 1(5) by (auto simp: stdio_store_def)
  obtain w3 where 3: "zipClose Z (Some zi) comment \<sigma>2 ?w2 = Some (ZIP_OK, \<sigma>2, w3)"
    "w_files w3 = (w_files ?w2)(path \<mapsto> archive_bytes es c)" "w_denied w3 = w_denied ?w2"
    using zipClose_new [OF zi stdio_fetch_store [OF 1(6)] w2(1) 2(4) c _ fit(2)] fit(1) 1(3)
    by (fastforce simp: stdio_limit_store)
  then show ?thesis using 1(1,4,8) 2(1,3) w2 by (auto simp: make_archive_def)
qed

end
