(* ===== verification/MinizipSpec.thy ===== *)
theory MinizipSpec
  imports Minizip MiniunzSpec DeflateArchive
begin

text \<open>
  What packing promises: the archive holds every file, under its stored name and with its data,
  stored with option \<open>-0\<close> and deflated otherwise, and nothing else in the file system changes.
\<close>

section \<open>Packing into an open archive\<close>

text \<open>
  Beside a world \<open>d0\<close>: the archive is the stream \<open>s\<close> behind \<open>h\<close>, and all other files are those
  of \<open>d0\<close>. And a file that is being read.
\<close>

definition packing :: "shell \<Rightarrow> path \<Rightarrow> voidpf \<Rightarrow> stream \<Rightarrow> shell \<Rightarrow> bool" where
  "packing d0 zp h s d \<longleftrightarrow> stdio_fetch (sh_files d) h = Some s
     \<and> map_option f_path (w_streams (sh_files d) h) = Some zp \<and> h \<le> w_next (sh_files d)
     \<and> w_limit (sh_files d) = w_limit (sh_files d0) \<and> w_denied (sh_files d) = w_denied (sh_files d0)
     \<and> sh_mtime d = sh_mtime d0 \<and> sh_localtime d = sh_localtime d0
     \<and> (\<forall>p. p \<noteq> zp \<longrightarrow> w_files (sh_files d) p = w_files (sh_files d0) p)"

definition feeding :: "voidpf \<Rightarrow> path \<Rightarrow> nat \<Rightarrow> shell \<Rightarrow> bool" where
  "feeding h f pos d \<longleftrightarrow>
     w_streams (sh_files d) h = Some \<lparr>f_path = f, f_pos = pos, f_rd = True, f_wr = False, f_err = False\<rparr>"

lemma packing_store:
  assumes "packing d0 zp h s d"
  shows "packing d0 zp h s' (d\<lparr>sh_files := stdio_store h s' (sh_files d)\<rparr>)"
  using assms by (auto simp: packing_def stdio_fetch_store stdio_limit_store) (auto simp: stdio_store_def)

lemma feeding_store:
  assumes "feeding h' f pos d" "h' \<noteq> h"
  shows "feeding h' f pos (d\<lparr>sh_files := stdio_store h s' (sh_files d)\<rparr>)"
  using assms by (auto simp: feeding_def stdio_store_def split: option.split)

lemma say_sel [simp]:
  "sh_files (say bs d) = sh_files d" "sh_mtime (say bs d) = sh_mtime d" "sh_localtime (say bs d) = sh_localtime d"
  "packing d0 zp h s (say bs d) = packing d0 zp h s d" "feeding h f pos (say bs d) = feeding h f pos d"
  by (simp_all add: say_def packing_def feeding_def)

text \<open>Opening a file to read it, reading it and closing it leave the archive alone.\<close>

lemma open_feeding:
  assumes "packing d0 zp h s d" "f \<noteq> zp" "w_files (sh_files d0) f = Some data" "\<not> w_denied (sh_files d0) f"
  shows "\<exists>h' d'. on_files (libc_fopen f ''rb'') d = (h', d') \<and> h' \<noteq> NULL \<and> h' \<noteq> h \<and> packing d0 zp h s d' \<and> feeding h' f 0 d'"
proof -
  have "w_files (sh_files d) f = Some data" "\<not> w_denied (sh_files d) f" using assms by (auto simp: packing_def)
  with assms(1) show ?thesis by (auto simp: on_files_def libc_fopen_def packing_def feeding_def stdio_fetch_def)
qed

lemma fread_feeding:
  assumes "packing d0 zp h s d" "feeding h' f pos d" "h' \<noteq> h" "f \<noteq> zp" "w_files (sh_files d0) f = Some data"
  shows "\<exists>d'. on_files (libc_fread n h') d = (take n (drop pos data), d') \<and> packing d0 zp h s d'
    \<and> feeding h' f (pos + min n (length data - pos)) d'"
proof -
  have "w_files (sh_files d) f = Some data" using assms by (auto simp: packing_def)
  with assms(1-3) show ?thesis
    by (auto simp: on_files_def libc_fread_def packing_def feeding_def stdio_fetch_def stdio_store_def fun_upd_idem min.commute)
qed

lemma close_feeding:
  assumes "packing d0 zp h s d" "h' \<noteq> h"
  shows "packing d0 zp h s (sh_fclose h' d)"
  using assms by (auto simp: sh_fclose_def on_files_def libc_fclose_def packing_def stdio_fetch_def split: option.split)

lemma read_piece_feeding:
  assumes "packing d0 zp h s d" "feeding h' f pos d" "h' \<noteq> h" "f \<noteq> zp" "w_files (sh_files d0) f = Some data"
  shows "\<exists>d'. read_piece f h' d = (ZIP_OK, take ZIP_WRITEBUFFERSIZE (drop pos data), d') \<and> packing d0 zp h s d'
    \<and> feeding h' f (pos + min ZIP_WRITEBUFFERSIZE (length data - pos)) d'"
proof -
  obtain d' where 1: "on_files (libc_fread ZIP_WRITEBUFFERSIZE h') d = (take ZIP_WRITEBUFFERSIZE (drop pos data), d')"
    "packing d0 zp h s d'" "feeding h' f (pos + min ZIP_WRITEBUFFERSIZE (length data - pos)) d'"
    using fread_feeding [OF assms] by blast
  have "libc_feof h' (sh_files d')" if "length (take ZIP_WRITEBUFFERSIZE (drop pos data)) < ZIP_WRITEBUFFERSIZE"
  proof -
    have "w_files (sh_files d') f = Some data" using 1(2) assms(4,5) by (auto simp: packing_def)
    with 1(3) that show ?thesis by (auto simp: libc_feof_def stdio_fetch_def feeding_def min_def split: if_splits)
  qed
  with 1 show ?thesis by (simp add: read_piece_def)
qed

lemma isLargeFile_small:
  assumes "packing d0 zp h s d" "f \<noteq> zp" "w_files (sh_files d0) f = Some data" "\<not> w_denied (sh_files d0) f"
    "length data < 0xffffffff"
  shows "\<exists>d'. isLargeFile f d = (0, d') \<and> packing d0 zp h s d'"
proof -
  obtain h' d1 where 1: "on_files (libc_fopen f ''rb'') d = (h', d1)" "h' \<noteq> NULL" "h' \<noteq> h" "packing d0 zp h s d1" "feeding h' f 0 d1"
    using open_feeding [OF assms(1-4)] by blast
  have f1: "w_files (sh_files d1) f = Some data" using 1(4) assms(2,3) by (auto simp: packing_def)
  then obtain d2 where 2: "on_files (libc_fseek h' 0 ZLIB_FILEFUNC_SEEK_END) d1 = (0, d2)" "packing d0 zp h s d2"
    "feeding h' f (length data) d2"
    using 1(3-5) by (auto simp: on_files_def libc_fseek_def packing_def feeding_def stdio_fetch_def stdio_store_def seek_base_def fun_upd_idem)
  have f2: "w_files (sh_files d2) f = Some data" using 2(2) assms(2,3) by (auto simp: packing_def)
  have 3: "on_files (libc_ftell h') d2 = (int (length data), d2)"
    using 2(3) f2 by (simp add: on_files_def libc_ftell_def feeding_def stdio_fetch_def)
  have "\<not> (of_nat (length data) :: 64 word) \<ge> 0xffffffff" using below32 [OF assms(5)] by (simp only: linorder_not_le)
  with 1(1,2) 2(1) 3 show ?thesis
    using close_feeding [OF 2(2) 1(3)] close_feeding [of d0 zp h s "say _ d2" h'] 1(3) 2(2)
    by (auto simp: isLargeFile_def Let_def simp del: ZLIB_FILEFUNC_SEEK_END_def)
qed

section \<open>The data of a file\<close>

abbreviation new_archive :: archive_base where
  "new_archive \<equiv> \<lparr>ab_data = [], ab_dir = [], ab_count = 0\<rparr>"

lemma pack_loop_eq:
  fixes zi :: "(stdio, 'z) zip64_internal" and Z :: "'z zlib"
  assumes Z: "crc32_streams Z" "nf_compressed nf \<Longrightarrow> deflates Z V" and f: "h' \<noteq> h" "f \<noteq> zp" "w_files (sh_files d0) f = Some data"
  shows "zi_filefunc zi = stdio_filefunc64 \<Longrightarrow> zi_filestream zi = h \<Longrightarrow> packing d0 zp h s d \<Longrightarrow> feeding h' f pos d
    \<Longrightarrow> arch_writing V b es nf (take pos data) (zl_crc32 Z 0 (take pos data)) zi s \<Longrightarrow> pos \<le> length data
    \<Longrightarrow> length (ab_data b @ locals es @ entry_header nf 0 0 0) + stored_size V nf (length data) \<le> w_limit (sh_files d0)
    \<Longrightarrow> \<exists>zi' s' d'. pack_loop Z f h' (Some zi) d = Some (ZIP_OK, Some zi', d') \<and> same_archive zi zi'
      \<and> packing d0 zp h s' d' \<and> s_rd s' = s_rd s \<and> s_err s' = s_err s \<and> arch_writing V b es nf data (zl_crc32 Z 0 data) zi' s'"
proof (induction "length data - pos" arbitrary: zi s d pos rule: less_induct)
  case less
  let ?bs = "take ZIP_WRITEBUFFERSIZE (drop pos data)" and ?pos = "pos + min ZIP_WRITEBUFFERSIZE (length data - pos)"
  obtain d1 where 1: "read_piece f h' d = (ZIP_OK, ?bs, d1)" "packing d0 zp h s d1" "feeding h' f ?pos d1"
    using read_piece_feeding [OF less.prems(3,4) f] by blast
  have pos': "take ?pos data = take pos data @ ?bs" "?pos \<le> length data"
    using less.prems(6) by (auto simp: take_add min_def)
  show ?case
  proof (cases "?bs = []")
    case True
    then have "take pos data = data" using less.prems(6) by (auto simp: ZIP_WRITEBUFFERSIZE_def)
    then show ?thesis using 1(1,2) True less.prems(5)
      by (intro exI [of _ zi] exI [of _ s] exI [of _ d1]) (subst pack_loop.simps, simp)
  next
    case False
    then have shorter: "length data - ?pos < length data - pos" by (auto simp: ZIP_WRITEBUFFERSIZE_def)
    have fetch: "stdio_fetch (sh_files d1) h = Some s" and lim: "w_limit (sh_files d1) = w_limit (sh_files d0)"
      using 1(2) by (simp_all add: packing_def)
    have "stored_size V nf (length (take pos data @ ?bs)) \<le> stored_size V nf (length data)"
      by (rule stored_size_mono [OF Z(2)]) (use less.prems(6) in simp_all)
    then have room: "length (ab_data b @ locals es @ entry_header nf 0 0 0) + stored_size V nf (length (take pos data @ ?bs))
        \<le> w_limit (sh_files d1)" using less.prems(7) lim by linarith
    obtain zi1 s1 where 2: "zipWriteInFileInZip Z (Some zi) ?bs (sh_files d1) = Some (ZIP_OK, Some zi1, stdio_store h s1 (sh_files d1))"
      "same_archive zi zi1" "s_rd s1 = s_rd s" "s_err s1 = s_err s"
      "arch_writing V b es nf (take pos data @ ?bs) (zl_crc32 Z (zl_crc32 Z 0 (take pos data)) ?bs) zi1 s1"
      using stdio64.writing_write [OF Z(2) less.prems(1,2) fetch less.prems(5) room] by blast
    let ?d2 = "d1\<lparr>sh_files := stdio_store h s1 (sh_files d1)\<rparr>"
    have ff: "zi_filefunc zi1 = stdio_filefunc64" "zi_filestream zi1 = h"
      using 2(2) less.prems(1,2) by (simp_all add: same_archive_def)
    have op: "arch_writing V b es nf (take ?pos data) (zl_crc32 Z 0 (take ?pos data)) zi1 s1"
      using 2(5) Z(1) unfolding pos'(1) crc32_streams_def by simp
    obtain zi' s' d' where 3: "pack_loop Z f h' (Some zi1) ?d2 = Some (ZIP_OK, Some zi', d')" "same_archive zi1 zi'"
      "packing d0 zp h s' d'" "s_rd s' = s_rd s1" "s_err s' = s_err s1" "arch_writing V b es nf data (zl_crc32 Z 0 data) zi' s'"
      using less.hyps [OF shorter ff packing_store [OF 1(2)] feeding_store [OF 1(3) f(1)] op pos'(2) less.prems(7)] by blast
    have "pack_loop Z f h' (Some zi) d = pack_loop Z f h' (Some zi1) ?d2"
      using False by (subst pack_loop.simps) (simp add: 1(1) 2(1))
    with 2 3 same_archive_trans [OF 2(2) 3(2)] show ?thesis by auto
  qed
qed

section \<open>Files\<close>

text \<open>The entry a file becomes: as if its contents were written by one call.\<close>

definition packed_file :: "pack_options \<Rightarrow> shell \<Rightarrow> path \<Rightarrow> new_file" where
  "packed_file opts d f =
     \<lparr>nf_filename = Some (saved_name (po_exclude_path opts) f), nf_zipfi = Some (pack_fileinfo (snd (the (filetime 0 f d)))),
      nf_extrafield_local = [], nf_extrafield_global = [], nf_comment = None,
      nf_method = (if po_level opts \<noteq> 0 then Z_DEFLATED else 0), nf_level = po_level opts, nf_raw = 0,
      nf_windowBits = - MAX_WBITS, nf_memLevel = DEF_MEM_LEVEL, nf_strategy = Z_DEFAULT_STRATEGY, nf_password = None,
      nf_crcForCrypting = 0, nf_versionMadeBy = VERSIONMADEBY, nf_flagBase = 0, nf_zip64 = 0\<rparr>"

definition file_data :: "shell \<Rightarrow> path \<Rightarrow> byte list" where
  "file_data d f = the (w_files (sh_files d) f)"

definition file_job :: "pack_options \<Rightarrow> shell \<Rightarrow> path \<Rightarrow> job" where
  "file_job opts d f = \<lparr>job_file = packed_file opts d f, job_chunks = [file_data d f], job_usize = 0, job_crc = 0\<rparr>"

definition packed :: "'z zlib \<Rightarrow> 'z codec_view \<Rightarrow> pack_options \<Rightarrow> shell \<Rightarrow> path \<Rightarrow> zip_entry \<Rightarrow> bool" where
  "packed Z V opts d f = job_done Z V (file_job opts d f)"

text \<open>The room for one file, and for all of them with the end record.\<close>

definition pack_room :: "'z codec_view \<Rightarrow> pack_options \<Rightarrow> shell \<Rightarrow> path list \<Rightarrow> nat" where
  "pack_room V opts d fs = (\<Sum>f\<leftarrow>fs. job_room V (file_job opts d f))"

definition pack_total :: "'z codec_view \<Rightarrow> pack_options \<Rightarrow> shell \<Rightarrow> path list \<Rightarrow> nat" where
  "pack_total V opts d fs = pack_room V opts d fs + (\<Sum>f\<leftarrow>fs. job_central (file_job opts d f)) + 22"

lemma file_job_sel [simp]:
  "job_file (file_job opts d f) = packed_file opts d f" "job_chunks (file_job opts d f) = [file_data d f]"
  "job_data (file_job opts d f) = file_data d f" "job_usize (file_job opts d f) = 0" "job_crc (file_job opts d f) = 0"
  by (simp_all add: file_job_def job_data_def)

lemma packed_file_sel [simp]:
  "new_file_name (packed_file opts d f) = saved_name (po_exclude_path opts) f"
  "nf_compressed (packed_file opts d f) \<longleftrightarrow> po_level opts \<noteq> 0" "nf_raw (packed_file opts d f) = 0"
  by (simp_all add: packed_file_def new_file_name_def nf_compressed_def Z_DEFLATED_def)

text \<open>The level is one of those the compressor knows.\<close>

definition level_ok :: "pack_options \<Rightarrow> bool" where
  "level_ok opts \<longleftrightarrow> -1 \<le> po_level opts \<and> po_level opts \<le> 9"

lemma pack_flags_level: "level_ok opts \<Longrightarrow> level_ok (snd (pack_flags argv p i opts))"
proof (induction argv p i opts rule: pack_flags.induct)
  case (2 argv c p i opts)
  have "-1 \<le> uint (c - 48) \<and> uint (c - 48) \<le> 9" if "48 \<le> c" "c \<le> 57"
  proof -
    have "c - 48 \<le> 9" using that by unat_arith
    then show ?thesis by (simp add: word_le_def order_trans [OF _ uint_nonnegative])
  qed
  then have digit: "level_ok (if 48 \<le> c \<and> c \<le> 57 then opts\<lparr>po_level := uint (c - 48)\<rparr> else opts)" if "level_ok opts" for opts
    using that by (simp add: level_ok_def)
  define o1 where "o1 = (if c = 111 \<or> c = 79 then opts\<lparr>po_overwrite := 1\<rparr> else opts)"
  define o2 where "o2 = (if c = 97 \<or> c = 65 then o1\<lparr>po_overwrite := 2\<rparr> else o1)"
  define o3 where "o3 = (if 48 \<le> c \<and> c \<le> 57 then o2\<lparr>po_level := uint (c - 48)\<rparr> else o2)"
  define o4 where "o4 = (if c = 106 \<or> c = 74 then o3\<lparr>po_exclude_path := 1\<rparr> else o3)"
  have "level_ok o2" using 2(3) by (simp add: level_ok_def o2_def o1_def)
  then have "level_ok o3" unfolding o3_def by (rule digit)
  then have o4: "level_ok o4" "level_ok (o4\<lparr>po_password := p\<rparr>)" for p by (simp_all add: level_ok_def o4_def)
  note IH = 2(1,2) [OF o1_def o2_def o3_def o4_def]
  have "pack_flags argv (c # p) i opts = (if (c = 112 \<or> c = 80) \<and> i + 1 < length argv
      then pack_flags argv p (i + 1) (o4\<lparr>po_password := Some (argv ! (i + 1))\<rparr>) else pack_flags argv p i o4)"
    by (simp only: pack_flags.simps Let_def o1_def o2_def o3_def o4_def)
  with IH o4 show ?case by simp
qed simp

lemma pack_args_level: "level_ok opts \<Longrightarrow> level_ok (pack_args argv i opts)"
proof (induction argv i opts rule: pack_args.induct)
  case (1 argv i opts)
  show ?case
  proof (cases "i < length argv \<and> argv ! i \<noteq> [] \<and> hd (argv ! i) = 45")
    case True
    obtain i' opts' where f: "pack_flags argv (tl (argv ! i)) i opts = (i', opts')" by fastforce
    then have "level_ok opts'" using pack_flags_level [OF 1(3), of argv "tl (argv ! i)" i] by simp
    with 1(1) True f show ?thesis by (subst pack_args.simps) (simp add: Let_def)
  next
    case False
    have "level_ok (if po_zipfilenamearg opts = 0 then opts\<lparr>po_zipfilenamearg := i\<rparr> else opts)"
      using 1(3) by (simp add: level_ok_def)
    with 1(2,3) False show ?thesis by (subst pack_args.simps) auto
  qed
qed

text \<open>A file that can be packed: not the archive itself, and its name fits the arrays.\<close>

definition packable :: "shell \<Rightarrow> path \<Rightarrow> path \<Rightarrow> bool" where
  "packable d zp f \<longleftrightarrow> f \<noteq> zp \<and> f \<noteq> [] \<and> length f < 255 \<and> \<not> w_denied (sh_files d) f
     \<and> (case w_files (sh_files d) f of None \<Rightarrow> False | Some data \<Rightarrow> length data < 0xffffffff)"

lemma filetime_short:
  assumes "f \<noteq> []" "length f < 255"
  shows "filetime junk f d = Some (fst (the (filetime 0 f d)), snd (the (filetime 0 f d)))"
  using assms by (auto simp: filetime_def copy_name_def MAXFILENAME_def Let_def split: option.split)

lemma filetime_packing:
  assumes "packing d0 zp h s d"
  shows "filetime junk f d = filetime junk f d0"
proof -
  have same: "sh_mtime d = sh_mtime d0" "sh_localtime d = sh_localtime d0" using assms by (simp_all add: packing_def)
  show ?thesis unfolding filetime_def same ..
qed

lemma length_without_path: "length (without_path name) \<le> length name"
proof -
  have "length (skip_path p q) \<le> max (length p) (length q)" for p q :: "byte list"
    by (induction p q rule: skip_path.induct) (auto simp: le_max_iff_disj split: if_splits)
  from this [of name name] show ?thesis by (simp add: without_path_def)
qed

lemma length_saved_name: "length (saved_name x f) \<le> length f"
  using length_without_path [of "dropWhile separator f"] length_dropWhile_le [of separator f]
  by (auto simp: saved_name_def Let_def)

lemma file_job_fits:
  assumes "level_ok opts" "po_level opts \<noteq> 0 \<Longrightarrow> deflates Z V" "length f < 255" "length (file_data d f) < 0xffffffff"
    "job_room V (file_job opts d f) < 0xffffffff"
  shows "job_fits Z V (file_job opts d f)"
proof -
  have "length (saved_name (po_exclude_path opts) f) < 2 ^ 16"
    using length_saved_name [of "po_exclude_path opts" f] assms(3) by simp
  then have "nf_writable (packed_file opts d f)"
    using assms(1) by (simp add: nf_writable_def nf_deflate_def nf_small_def nf_ok_def deflate_params_def level_ok_def)
      (simp add: packed_file_def new_file_comment_def MAX_WBITS_def DEF_MEM_LEVEL_def Z_DEFAULT_STRATEGY_def)
  then show ?thesis using assms by (simp add: job_fits_def job_room_def)
qed

lemma pack_file_eq:
  fixes zi :: "(stdio, 'z) zip64_internal" and Z :: "'z zlib"
  assumes Z: "crc32_streams Z" "po_level opts \<noteq> 0 \<Longrightarrow> deflates Z V" and opts: "level_ok opts" "po_password opts = None"
    and f: "packable d0 zp f"
    and ff: "zi_filefunc zi = stdio_filefunc64" "zi_filestream zi = h" and d: "packing d0 zp h s d"
    and arch: "arch_closed b es zi s" and mt: "malloc_total \<sigma>"
    and room: "length (ab_data b @ locals es) + job_room V (file_job opts d0 f) \<le> w_limit (sh_files d0)"
      "length (ab_data b @ locals es) + job_room V (file_job opts d0 f) < 0xffffffff"
  shows "\<exists>zi' \<sigma>' s' d' e. pack_file Z junk opts f (Some zi) \<sigma> d = Some (ZIP_OK, Some zi', \<sigma>', d') \<and> malloc_total \<sigma>'
    \<and> same_archive zi zi' \<and> packing d0 zp h s' d' \<and> packed Z V opts d0 f e \<and> arch_closed b (es @ [e]) zi' s'"
proof -
  let ?nf = "packed_file opts d0 f"
  obtain data where data: "w_files (sh_files d0) f = Some data" "length data < 0xffffffff"
    using f by (auto simp: packable_def split: option.splits)
  have fd: "file_data d0 f = data" by (simp add: file_data_def data(1))
  have f': "f \<noteq> zp" "f \<noteq> []" "length f < 255" "\<not> w_denied (sh_files d0) f" using f by (simp_all add: packable_def)
  have fits: "job_fits Z V (file_job opts d0 f)" using file_job_fits [OF opts(1) Z(2) f'(3)] data(2) room(2) by (simp add: fd)
  have nf: "nf_writable ?nf" "stored_size V ?nf (length data) < 0xffffffff" and Zc: "nf_compressed ?nf \<Longrightarrow> deflates Z V"
    using fits by (simp_all add: job_fits_def fd)
  obtain r where t: "filetime junk f d = Some (r, snd (the (filetime 0 f d0)))"
    using filetime_short [OF f'(2,3)] filetime_packing [OF d] by metis
  obtain d1 where 1: "isLargeFile f d = (0, d1)" "packing d0 zp h s d1"
    using isLargeFile_small [OF d f'(1) data(1) f'(4) data(2)] by blast
  have fetch: "stdio_fetch (sh_files d1) h = Some s" and lim: "w_limit (sh_files d1) = w_limit (sh_files d0)"
    using 1(2) by (simp_all add: packing_def)
  have all: "length (ab_data b @ locals es @ entry_header ?nf 0 0 0) + stored_size V ?nf (length data) \<le> w_limit (sh_files d0)"
    and small: "length (ab_data b @ locals es) < 0xffffffff" using room by (simp_all add: job_room_def fd)
  have "length (ab_data b @ locals es @ entry_header ?nf 0 0 0) \<le> w_limit (sh_files d1)" using all lim by simp
  from stdio64.writing_open [OF Zc ff fetch arch nf(1) mt small this] obtain zi1 \<sigma>1 s1 where 2:
    "zipOpenNewFileInZip4_64 Z (Some zi) ?nf \<sigma> (sh_files d1) = Some (ZIP_OK, Some zi1, \<sigma>1, stdio_store h s1 (sh_files d1))"
    "malloc_total \<sigma>1" "same_archive zi zi1" "arch_writing V b es ?nf [] 0 zi1 s1" by blast
  have open1: "zipOpenNewFileInZip3_64 Z (Some zi) (Some (saved_name (po_exclude_path opts) f))
      (Some (pack_fileinfo (snd (the (filetime 0 f d0))))) [] [] None (if po_level opts \<noteq> 0 then Z_DEFLATED else 0) (po_level opts) 0
      (- MAX_WBITS) DEF_MEM_LEVEL Z_DEFAULT_STRATEGY None 0 0
      \<sigma> (sh_files d1) = Some (ZIP_OK, Some zi1, \<sigma>1, stdio_store h s1 (sh_files d1))"
    using 2(1) unfolding zipOpenNewFileInZip3_64_def packed_file_def .
  let ?d2 = "d1\<lparr>sh_files := stdio_store h s1 (sh_files d1)\<rparr>"
  have p2: "packing d0 zp h s1 ?d2" by (rule packing_store [OF 1(2)])
  obtain h' d3 where 3: "on_files (libc_fopen f ''rb'') ?d2 = (h', d3)" "h' \<noteq> NULL" "h' \<noteq> h" "packing d0 zp h s1 d3" "feeding h' f 0 d3"
    using open_feeding [OF p2 f'(1) data(1) f'(4)] by blast
  have ff1: "zi_filefunc zi1 = stdio_filefunc64" "zi_filestream zi1 = h" using 2(3) ff by (simp_all add: same_archive_def)
  have op: "arch_writing V b es ?nf (take 0 data) (zl_crc32 Z 0 (take 0 data)) zi1 s1" using 2(4) Z(1) by (simp add: crc32_streams_def)
  obtain zi2 s2 d4 where 4: "pack_loop Z f h' (Some zi1) d3 = Some (ZIP_OK, Some zi2, d4)" "same_archive zi1 zi2"
    "packing d0 zp h s2 d4" "arch_writing V b es ?nf data (zl_crc32 Z 0 data) zi2 s2"
    using pack_loop_eq [OF Z(1) Zc 3(3) f'(1) data(1) ff1 3(4,5) op _ all] by auto
  let ?d5 = "sh_fclose h' d4"
  have p5: "packing d0 zp h s2 ?d5" by (rule close_feeding [OF 4(3) 3(3)])
  have ff2: "zi_filefunc zi2 = stdio_filefunc64" "zi_filestream zi2 = h" using 4(2) ff1 by (simp_all add: same_archive_def)
  have fetch5: "stdio_fetch (sh_files ?d5) h = Some s2"
    and all5: "length (ab_data b @ locals es @ entry_header ?nf 0 0 0) + stored_size V ?nf (length data) \<le> w_limit (sh_files ?d5)"
    using p5 all by (simp_all add: packing_def)
  have "nf_raw ?nf \<noteq> 0 \<Longrightarrow> (0 :: 64 word) < 0xffffffff" by simp
  from stdio64.writing_close [OF Zc ff2 fetch5 4(4) nf(1) 2(2) all5 small data(2) nf(2) this, of 0]
  obtain zi3 \<sigma>3 s3 e where 5: "zipCloseFileInZipRaw64 Z (Some zi2) 0 0 \<sigma>1 (sh_files ?d5)
      = Some (ZIP_OK, Some zi3, \<sigma>3, stdio_store h s3 (sh_files ?d5))" "malloc_total \<sigma>3" "same_archive zi2 zi3"
    "entry_made V ?nf data (zl_crc32 Z 0 data) 0 0 e" "arch_closed b (es @ [e]) zi3 s3" by blast
  then have close1: "zipCloseFileInZip Z (Some zi2) \<sigma>1 (sh_files ?d5) = Some (ZIP_OK, Some zi3, \<sigma>3, stdio_store h s3 (sh_files ?d5))"
    by (simp add: zipCloseFileInZip_def zipCloseFileInZipRaw_def)
  have "pack_file Z junk opts f (Some zi) \<sigma> d
      = Some (ZIP_OK, Some zi3, \<sigma>3, ?d5\<lparr>sh_files := stdio_store h s3 (sh_files ?d5)\<rparr>)"
    using t 1(1) open1 3(1,2) 4(1) close1 by (simp add: pack_file_def opts Let_def)
  moreover have "packed Z V opts d0 f e" using 5(4) by (simp add: packed_def job_done_def fd)
  ultimately show ?thesis
    using 5(2,5) packing_store [OF p5, of s3] same_archive_trans [OF same_archive_trans [OF 2(3) 4(2)] 5(3)] by blast
qed

text \<open>The files, without the arguments that look like options.\<close>

definition file_args :: "byte list list \<Rightarrow> path list" where
  "file_args args = filter (\<lambda>a. \<not> option_arg a) args"

lemma option_arg_iff: "option_arg a \<longleftrightarrow> length a = 2 \<and> (hd a = 45 \<or> hd a = 47)"
proof -
  have "48 \<le> i \<or> i \<le> 57" for i :: int by arith
  then show ?thesis by (cases a) (auto simp: option_arg_def Let_def)
qed

lemma packed_lengths:
  assumes "list_all2 (packed Z V opts d) fs es" "\<forall>f \<in> set fs. job_fits Z V (file_job opts d f)"
  shows "length (locals es) \<le> pack_room V opts d fs"
    "length (central_dir off es) = (\<Sum>f\<leftarrow>fs. job_central (file_job opts d f))" "length es = length fs"
proof -
  have "list_all2 (job_done Z V) (map (file_job opts d) fs) es" using assms(1) by (simp add: list.rel_map packed_def [abs_def])
  from jobs_done_lengths(1) [OF this] jobs_done_lengths(2) [OF this, of off] assms(2)
  show "length (locals es) \<le> pack_room V opts d fs" "length (central_dir off es) = (\<Sum>f\<leftarrow>fs. job_central (file_job opts d f))"
    by (simp_all add: pack_room_def comp_def)
  show "length es = length fs" using assms(1) by (simp add: list_all2_lengthD)
qed

lemma pack_room_member: "f \<in> set fs \<Longrightarrow> job_room V (file_job opts d f) \<le> pack_room V opts d fs"
  unfolding pack_room_def by (intro member_le_sum_list) auto

lemma pack_files_eq:
  fixes zi :: "(stdio, 'z) zip64_internal" and Z :: "'z zlib"
  assumes Z: "crc32_streams Z" "po_level opts \<noteq> 0 \<Longrightarrow> deflates Z V" and opts: "level_ok opts" "po_password opts = None"
  shows "\<forall>f \<in> set (file_args args). packable d0 zp f \<Longrightarrow> zi_filefunc zi = stdio_filefunc64 \<Longrightarrow> zi_filestream zi = h
    \<Longrightarrow> packing d0 zp h s d \<Longrightarrow> arch_closed b es zi s \<Longrightarrow> malloc_total \<sigma>
    \<Longrightarrow> length (ab_data b @ locals es) + pack_room V opts d0 (file_args args) \<le> w_limit (sh_files d0)
    \<Longrightarrow> length (ab_data b @ locals es) + pack_room V opts d0 (file_args args) < 0xffffffff
    \<Longrightarrow> \<exists>zi' \<sigma>' s' d' es'. pack_files Z junk opts i args (Some zi) \<sigma> d = Some (ZIP_OK, Some zi', \<sigma>', d') \<and> malloc_total \<sigma>'
      \<and> same_archive zi zi' \<and> packing d0 zp h s' d' \<and> list_all2 (packed Z V opts d0) (file_args args) es' \<and> arch_closed b (es @ es') zi' s'"
proof (induction args arbitrary: i zi s d es \<sigma>)
  case Nil
  then show ?case by (auto simp: file_args_def)
next
  case (Cons a args)
  show ?case
  proof (cases "option_arg a")
    case True
    then have "file_args (a # args) = file_args args" by (simp add: file_args_def)
    with Cons True show ?thesis by simp
  next
    case False
    then have fa: "file_args (a # args) = a # file_args args" by (simp add: file_args_def)
    have a: "packable d0 zp a" "length (ab_data b @ locals es) + job_room V (file_job opts d0 a) \<le> w_limit (sh_files d0)"
      "length (ab_data b @ locals es) + job_room V (file_job opts d0 a) < 0xffffffff"
      using Cons.prems(1,7,8) by (simp_all add: fa pack_room_def)
    with pack_file_eq [OF Z opts _ Cons.prems(2-6)] obtain zi1 \<sigma>1 s1 d1 e where 1:
      "pack_file Z (junk i) opts a (Some zi) \<sigma> d = Some (ZIP_OK, Some zi1, \<sigma>1, d1)" "malloc_total \<sigma>1" "same_archive zi zi1"
      "packing d0 zp h s1 d1" "packed Z V opts d0 a e" "arch_closed b (es @ [e]) zi1 s1" by blast
    have "length a < 255" "length (file_data d0 a) < 0xffffffff"
      using a(1) by (auto simp: packable_def file_data_def split: option.splits)
    then have "job_fits Z V (file_job opts d0 a)" using a(3) by (intro file_job_fits opts(1) Z(2)) auto
    then have "length (entry_local e) \<le> job_room V (file_job opts d0 a)"
      using packed_lengths(1) [where fs = "[a]" and es = "[e]"] 1(5) by (simp add: pack_room_def)
    then have room: "length (ab_data b @ locals (es @ [e])) + pack_room V opts d0 (file_args args) \<le> w_limit (sh_files d0)"
      "length (ab_data b @ locals (es @ [e])) + pack_room V opts d0 (file_args args) < 0xffffffff"
      using Cons.prems(7,8) by (simp_all add: fa pack_room_def)
    have "zi_filefunc zi1 = stdio_filefunc64" "zi_filestream zi1 = h" using 1(3) Cons.prems(2,3) by (simp_all add: same_archive_def)
    from Cons.IH [OF _ this 1(4,6,2) room, of "Suc i"] Cons.prems(1) obtain zi2 \<sigma>2 s2 d2 es' where 2:
      "pack_files Z junk opts (Suc i) args (Some zi1) \<sigma>1 d1 = Some (ZIP_OK, Some zi2, \<sigma>2, d2)" "malloc_total \<sigma>2"
      "same_archive zi1 zi2" "packing d0 zp h s2 d2" "list_all2 (packed Z V opts d0) (file_args args) es'"
      "arch_closed b ((es @ [e]) @ es') zi2 s2" by (auto simp: fa)
    from 1(1,5) 2 False same_archive_trans [OF 1(3) 2(3)] show ?thesis
      by (intro exI [of _ zi2] exI [of _ \<sigma>2] exI [of _ s2] exI [of _ d2] exI [of _ "e # es'"]) (simp add: fa)
  qed
qed

section \<open>The program\<close>

lemma pack_archive_eq:
  fixes Z :: "'z zlib"
  assumes Z: "crc32_streams Z" "po_level opts \<noteq> 0 \<Longrightarrow> deflates Z V"
    and opts: "level_ok opts" "po_password opts = None" "po_overwrite opts \<noteq> 2"
    and zp: "\<not> w_denied (sh_files d) zp" and mt: "malloc_total \<sigma>"
    and fs: "fs = file_args (drop (po_zipfilenamearg opts + 1) argv)" "\<forall>f \<in> set fs. packable d zp f"
    and room: "pack_room V opts d fs < 0xffffffff" "pack_total V opts d fs \<le> w_limit (sh_files d)"
  shows "\<exists>\<sigma>' d' es. pack_archive Z ci0 junk opts zp argv \<sigma> d = Some (\<sigma>', d') \<and> list_all2 (packed Z V opts d) fs es
    \<and> w_files (sh_files d') = (w_files (sh_files d))(zp \<mapsto> archive_bytes es []) \<and> w_denied (sh_files d') = w_denied (sh_files d)"
proof -
  let ?h = "Suc (w_next (sh_files d))"
  obtain \<sigma>1 w1 s where 1: "zipOpen64 ci0 (Some zp) APPEND_STATUS_CREATE \<sigma> (sh_files d)
      = Some (Some (fresh_archive ci0 ?h), None, \<sigma>1, w1)"
    "malloc_total \<sigma>1" "w_limit w1 = w_limit (sh_files d)" "w_files w1 = (w_files (sh_files d))(zp \<mapsto> [])"
    "w_next w1 = ?h" "map_option f_path (w_streams w1 ?h) = Some zp"
    "stdio_fetch w1 ?h = Some s" "arch_closed new_archive [] (fresh_archive ci0 ?h) s"
    "w_denied w1 = w_denied (sh_files d)"
    using zipOpen64_create [OF zp mt, of ci0] by blast
  have ff: "zi_filefunc (fresh_archive ci0 ?h) = stdio_filefunc64" "zi_filestream (fresh_archive ci0 ?h) = ?h"
    by (simp_all add: fresh_archive_def)
  let ?d1 = "say (text_bytes ''creating '' @ zp @ [10]) (d\<lparr>sh_files := w1\<rparr>)"
  let ?args = "drop (po_zipfilenamearg opts + 1) argv"
  have p1: "packing d zp ?h s ?d1" using 1 by (simp add: packing_def)
  have all: "\<forall>f \<in> set (file_args ?args). packable d zp f" using fs by simp
  have "length (ab_data new_archive @ locals []) + pack_room V opts d (file_args ?args) \<le> w_limit (sh_files d)"
    "length (ab_data new_archive @ locals []) + pack_room V opts d (file_args ?args) < 0xffffffff"
    using room by (simp_all add: fs(1) pack_total_def)
  from pack_files_eq [OF Z opts(1,2) all ff p1 1(8,2) this, of junk "po_zipfilenamearg opts + 1"]
  obtain zi \<sigma>2 s2 d2 es where 2: "pack_files Z junk opts (po_zipfilenamearg opts + 1) ?args
      (Some (fresh_archive ci0 ?h)) \<sigma>1 ?d1 = Some (ZIP_OK, Some zi, \<sigma>2, d2)"
    "same_archive (fresh_archive ci0 ?h) zi" "packing d zp ?h s2 d2" "list_all2 (packed Z V opts d) fs es"
    "arch_closed new_archive es zi s2"
    by (auto simp: fs(1))
  have zi: "zi_filefunc zi = stdio_filefunc64" "zi_filestream zi = ?h" "zi_add_position zi = 0" "zi_globalcomment zi = None"
    using 2(2) by (simp_all add: same_archive_def fresh_archive_def)
  have "job_fits Z V (file_job opts d f)" if "f \<in> set fs" for f
  proof -
    have "length f < 255" "length (file_data d f) < 0xffffffff"
      using fs(2) that by (auto simp: packable_def file_data_def split: option.splits)
    with pack_room_member [OF that, of V opts d] room(1) show ?thesis by (intro file_job_fits opts(1) Z(2)) auto
  qed
  then have len: "length (locals es) < 0xffffffff" "length (archive_bytes es []) \<le> w_limit (sh_files d)"
    using packed_lengths(1) [OF 2(4)] packed_lengths(2) [OF 2(4), of 0] room by (simp_all add: pack_total_def archive_bytes_def)
  have w2: "stdio_fetch (sh_files d2) ?h = Some s2" "map_option f_path (w_streams (sh_files d2) ?h) = Some zp"
    "length (archive_bytes es []) \<le> w_limit (sh_files d2)" "w_denied (sh_files d2) = w_denied (sh_files d)"
    using 2(3) len(2) by (simp_all add: packing_def)
  obtain w3 where 3: "zipClose Z (Some zi) None \<sigma>2 (sh_files d2) = Some (ZIP_OK, \<sigma>2, w3)"
    "w_files w3 = (w_files (sh_files d2))(zp \<mapsto> archive_bytes es [])" "w_denied w3 = w_denied (sh_files d2)"
    using zipClose_new [OF zi w2(1,2) 2(5) _ _ w2(3) len(1), of None Z \<sigma>2] by auto
  have "w_files w3 = (w_files (sh_files d))(zp \<mapsto> archive_bytes es [])"
    using 2(3) by (auto simp: 3(2) packing_def)
  moreover have "pack_archive Z ci0 junk opts zp argv \<sigma> d = Some (\<sigma>2, d2\<lparr>sh_files := w3\<rparr>)"
    using 1(1) 2(1) 3(1) opts(3) by (simp add: pack_archive_def Let_def)
  ultimately show ?thesis using 2(4) 3(3) w2(4) by auto
qed

text \<open>
  A call that packs files into a new archive: no password, and the archive is new or option
  \<open>-o\<close> is given.
\<close>

definition pack_call ::
    "byte list list \<Rightarrow> (nat \<Rightarrow> byte) \<Rightarrow> shell \<Rightarrow> pack_options \<Rightarrow> path \<Rightarrow> path list \<Rightarrow> bool" where
  "pack_call argv junk d opts zp fs \<longleftrightarrow> length argv \<noteq> 1 \<and> opts = pack_args argv 1 pack_defaults
     \<and> po_zipfilenamearg opts \<noteq> 0 \<and> zp = archive_name (junk 0) (argv ! po_zipfilenamearg opts)
     \<and> po_password opts = None \<and> \<not> w_denied (sh_files d) zp
     \<and> (po_overwrite opts = 1 \<or> po_overwrite opts = 0 \<and> w_files (sh_files d) zp = None)
     \<and> fs = file_args (drop (po_zipfilenamearg opts + 1) argv) \<and> (\<forall>f \<in> set fs. packable d zp f)"

lemma pack_call_level: "pack_call argv junk d opts zp fs \<Longrightarrow> level_ok opts"
  using pack_args_level [of pack_defaults argv 1]
  by (simp add: pack_call_def) (simp add: pack_defaults_def level_ok_def Z_DEFAULT_COMPRESSION_def)

lemma minizip_eq:
  fixes Z :: "'z zlib"
  assumes Z: "crc32_streams Z" "po_level opts \<noteq> 0 \<Longrightarrow> deflates Z V" and mt: "malloc_total \<sigma>"
    and call: "pack_call argv junk d opts zp fs"
    and room: "pack_room V opts d fs < 0xffffffff" "pack_total V opts d fs \<le> w_limit (sh_files d)"
  shows "\<exists>\<sigma>' d' es. minizip_main Z ci0 junk argv \<sigma> d = Some (0, \<sigma>', d') \<and> list_all2 (packed Z V opts d) fs es
    \<and> w_files (sh_files d') = (w_files (sh_files d))(zp \<mapsto> archive_bytes es []) \<and> w_denied (sh_files d') = w_denied (sh_files d)"
proof -
  have argv: "length argv \<noteq> 1" "opts = pack_args argv 1 pack_defaults" "po_zipfilenamearg opts \<noteq> 0"
    "zp = archive_name (junk 0) (argv ! po_zipfilenamearg opts)" and opts: "po_password opts = None"
    and zp: "\<not> w_denied (sh_files d) zp" and fs: "fs = file_args (drop (po_zipfilenamearg opts + 1) argv)" "\<forall>f \<in> set fs. packable d zp f"
    and fresh: "po_overwrite opts = 1 \<or> po_overwrite opts = 0 \<and> w_files (sh_files d) zp = None"
    using call unfolding pack_call_def by blast+
  obtain \<sigma>1 where m: "malloc ZIP_WRITEBUFFERSIZE \<sigma> = (True, \<sigma>1)" "malloc_total \<sigma>1"
    using malloc_total_malloc [OF mt] by blast
  let ?d = "say pack_banner d"
  have mode: "pack_mode zp (po_overwrite opts) ?d = (Some (True, po_overwrite opts), ?d)"
    using fresh by (auto simp: pack_mode_def check_exist_file_def on_files_def libc_fopen_def)
  have pf: "packed_file opts ?d f = packed_file opts d f" for f
    by (simp add: packed_file_def filetime_def Let_def cong: option.case_cong)
  have same: "file_job opts ?d = file_job opts d" "packable ?d zp f = packable d zp f" for f
    by (simp_all add: fun_eq_iff file_job_def file_data_def pf packable_def)
  have same2: "packed Z V opts ?d = packed Z V opts d" "pack_room V opts ?d = pack_room V opts d" "pack_total V opts ?d = pack_total V opts d"
    by (simp_all add: fun_eq_iff packed_def pack_room_def pack_total_def same(1))
  have o: "opts\<lparr>po_overwrite := po_overwrite opts\<rparr> = opts" "po_overwrite opts \<noteq> 2" using fresh by auto
  obtain \<sigma>2 d2 es where p: "pack_archive Z ci0 junk opts zp argv \<sigma>1 ?d = Some (\<sigma>2, d2)" "list_all2 (packed Z V opts d) fs es"
    "w_files (sh_files d2) = (w_files (sh_files d))(zp \<mapsto> archive_bytes es [])" "w_denied (sh_files d2) = w_denied (sh_files d)"
    using pack_archive_eq [OF Z pack_call_level [OF call] opts o(2), of ?d zp \<sigma>1 fs argv ci0 junk] zp m(2) fs room
    by (auto simp: same same2)
  have "minizip_main Z ci0 junk argv \<sigma> d = Some (0, \<sigma>2, d2)"
    using argv m(1) mode o(1) p(1) by (simp add: minizip_main_def Let_def)
  with p(2-) show ?thesis by blast
qed

text \<open>What was packed can be extracted.\<close>

lemma pack_call_fits:
  assumes "pack_call argv junk d opts zp fs" "po_level opts \<noteq> 0 \<Longrightarrow> deflates Z V" "pack_room V opts d fs < 0xffffffff" "f \<in> set fs"
  shows "job_fits Z V (file_job opts d f)" "length f < 255" "length (file_data d f) < 0xffffffff"
    "w_files (sh_files d) f = Some (file_data d f)"
proof -
  have "packable d zp f" using assms(1,4) unfolding pack_call_def by blast
  then show f: "length f < 255" "length (file_data d f) < 0xffffffff" "w_files (sh_files d) f = Some (file_data d f)"
    by (auto simp: packable_def file_data_def split: option.splits)
  show "job_fits Z V (file_job opts d f)"
    using pack_room_member [OF assms(4), of V opts d] assms(3)
    by (intro file_job_fits pack_call_level [OF assms(1)] assms(2) f(1,2)) auto
qed

lemma packed_sel:
  assumes "packed Z V opts d f e" "job_fits Z V (file_job opts d f)" "po_level opts \<noteq> 0 \<Longrightarrow> inflates Z V"
  shows "new_file_name (ze_file e) = saved_name (po_exclude_path opts) f" "nf_ok (ze_file e)" "length (ze_data e) < 0xffffffff"
    "ze_size e < 0xffffffff" "ze_crc e = zl_crc32 Z 0 (file_data d f)" "holds Z e (file_data d f)"
proof -
  have m: "entry_made V (packed_file opts d f) (file_data d f) (zl_crc32 Z 0 (file_data d f)) 0 0 e"
    using assms(1) by (simp add: packed_def job_done_def)
  have j: "nf_writable (packed_file opts d f)" "length (file_data d f) < 0xffffffff"
    "stored_size V (packed_file opts d f) (length (file_data d f)) < 0xffffffff"
    using assms(2) by (simp_all add: job_fits_def)
  note len = entry_made_lengths [OF m j(1)]
  show "new_file_name (ze_file e) = saved_name (po_exclude_path opts) f" "nf_ok (ze_file e)" "length (ze_data e) < 0xffffffff"
    using len j(3) by simp_all
  have "length (file_data d f) < 2 ^ 32" "nf_compressed (packed_file opts d f) \<Longrightarrow> inflates Z V"
    using j(2) assms(3) by simp_all
  from entry_made_holds [OF m j(1) packed_file_sel(3) this]
  show h: "ze_crc e = zl_crc32 Z 0 (file_data d f)" "holds Z e (file_data d f)" by simp_all
  then show "ze_size e < 0xffffffff" using below32 [OF j(2)] by (simp add: holds_def)
qed

lemma set_saved_name: "set (saved_name x f) \<subseteq> set f"
proof -
  have "set (skip_path p q) \<subseteq> set p \<union> set q" for p q :: "byte list"
    by (induction p q rule: skip_path.induct) (auto split: if_splits)
  from this [of "dropWhile separator f" "dropWhile separator f"] set_dropWhileD [of _ separator f] show ?thesis
    by (auto simp: saved_name_def without_path_def Let_def)
qed

lemma packed_extractable:
  assumes "packed Z V opts d f e" "job_fits Z V (file_job opts d f)" "po_level opts \<noteq> 0 \<Longrightarrow> inflates Z V"
    "crc32_small Z" "length (file_data d f) \<le> fst en" "\<not> snd en (output_name wp e)"
  shows "extractable Z wp en (e, file_data d f)"
proof -
  have "unat (zl_crc32 Z 0 (file_data d f)) < 2 ^ 32" using assms(4) by (simp add: crc32_small_def)
  then show ?thesis using assms(5,6) packed_sel(5,6) [OF assms(1-3)] by (simp add: extractable_def field_id)
qed

text \<open>What an entry says of its file.\<close>

lemma packed_entry:
  assumes "packed Z V opts d f e" "job_fits Z V (file_job opts d f)"
  shows "new_file_name (ze_file e) = saved_name (po_exclude_path opts) f
    \<and> ze_crc e = zl_crc32 Z 0 (file_data d f) \<and> ze_size e = of_nat (length (file_data d f))
    \<and> (if po_level opts = 0 then ze_data e = file_data d f else cv_coded V (file_data d f) (ze_data e))"
proof -
  have m: "entry_made V (packed_file opts d f) (file_data d f) (zl_crc32 Z 0 (file_data d f)) 0 0 e"
    using assms(1) by (simp add: packed_def job_done_def)
  have "nf_writable (packed_file opts d f)" using assms(2) by (simp add: job_fits_def)
  from entry_made_lengths(5) [OF m this] m show ?thesis by (auto simp: entry_made_def split: if_splits)
qed

text \<open>The archive as a whole.\<close>

lemma packed_archive_ok:
  assumes "list_all2 (packed Z V opts d) fs es" "\<forall>f \<in> set fs. job_fits Z V (file_job opts d f)"
    "length fs < 0xffff" "pack_total V opts d fs < 0xffffffff"
  shows "archive_ok [] es []"
proof -
  have "list_all2 (job_done Z V) (map (file_job opts d) fs) es" using assms(1) by (simp add: list.rel_map packed_def [abs_def])
  from jobs_archive_ok [OF this, of "[]"] assms(2-4) show ?thesis by (simp add: pack_total_def pack_room_def comp_def)
qed

text \<open>The entries with the files they hold.\<close>

lemma packed_contents:
  assumes "list_all2 (packed Z V opts d) fs es" "\<forall>f \<in> set fs. job_fits Z V (file_job opts d f)"
  shows "es = map fst (zip es (map (file_data d) fs))"
    "map (output_name 0 \<circ> fst) (zip es (map (file_data d) fs)) = map (saved_name (po_exclude_path opts)) fs"
    "\<forall>x \<in> set (zip es (map (file_data d) fs)). \<exists>f \<in> set fs. packed Z V opts d f (fst x) \<and> snd x = file_data d f"
    "\<forall>f \<in> set fs. \<exists>e. (e, file_data d f) \<in> set (zip es (map (file_data d) fs)) \<and> output_name 0 e = saved_name (po_exclude_path opts) f"
proof -
  have len: "length es = length fs" using assms(1) by (simp add: list_all2_lengthD)
  show "es = map fst (zip es (map (file_data d) fs))" using len by simp
  have nth: "packed Z V opts d (fs ! n) (es ! n)" "output_name 0 (es ! n) = saved_name (po_exclude_path opts) (fs ! n)"
    if "n < length fs" for n
  proof -
    show p: "packed Z V opts d (fs ! n) (es ! n)" using assms(1) that by (simp add: list_all2_conv_all_nth)
    show "output_name 0 (es ! n) = saved_name (po_exclude_path opts) (fs ! n)"
      using packed_entry [OF p] assms(2) that by (simp add: output_name_def)
  qed
  show "map (output_name 0 \<circ> fst) (zip es (map (file_data d) fs)) = map (saved_name (po_exclude_path opts)) fs"
    by (rule nth_equalityI) (simp_all add: len nth(2))
  show "\<forall>x \<in> set (zip es (map (file_data d) fs)). \<exists>f \<in> set fs. packed Z V opts d f (fst x) \<and> snd x = file_data d f"
    using nth(1) len by (fastforce simp: set_zip)
  show "\<forall>f \<in> set fs. \<exists>e. (e, file_data d f) \<in> set (zip es (map (file_data d) fs)) \<and> output_name 0 e = saved_name (po_exclude_path opts) f"
    using nth(2) len by (fastforce simp: set_zip in_set_conv_nth)
qed

lemma packed_ready:
  assumes pk: "list_all2 (packed Z V opts d) fs es" "\<forall>f \<in> set fs. job_fits Z V (file_job opts d f)"
    and Z: "crc32_small Z" "po_level opts \<noteq> 0 \<Longrightarrow> inflates Z V"
    and f: "\<forall>f \<in> set fs. length f < 255 \<and> 0 \<notin> set f \<and> without_path (saved_name (po_exclude_path opts) f) \<noteq> []
      \<and> length (file_data d f) \<le> fst en \<and> \<not> snd en (saved_name (po_exclude_path opts) f)"
  shows "names_ok es" "\<forall>x \<in> set (zip es (map (file_data d) fs)). extractable Z 0 en x"
    "\<forall>x \<in> set (zip es (map (file_data d) fs)). \<not> is_directory (fst x)"
proof -
  define xs where "xs = zip es (map (file_data d) fs)"
  note xs = packed_contents [OF pk, folded xs_def]
  have x: "length (new_file_name (ze_file (fst x))) < 256 \<and> 0 \<notin> set (new_file_name (ze_file (fst x)))
      \<and> extractable Z 0 en x \<and> \<not> is_directory (fst x)" if x: "x \<in> set xs" for x
  proof -
    obtain g where g: "g \<in> set fs" "packed Z V opts d g (fst x)" "snd x = file_data d g" using xs(3) x by blast
    have fits: "job_fits Z V (file_job opts d g)" using pk(2) g(1) by blast
    have gs: "length g < 255" "0 \<notin> set g" "without_path (saved_name (po_exclude_path opts) g) \<noteq> []"
      "length (file_data d g) \<le> fst en" "\<not> snd en (saved_name (po_exclude_path opts) g)" using bspec [OF f g(1)] by simp_all
    have name: "new_file_name (ze_file (fst x)) = saved_name (po_exclude_path opts) g" using packed_entry [OF g(2) fits] by (rule conjunct1)
    then have "extractable Z 0 en (fst x, file_data d g)"
      using gs(4,5) Z by (intro packed_extractable [OF g(2) fits]) (simp_all add: output_name_def)
    then have "extractable Z 0 en x" using g(3) by (cases x) simp
    moreover have "length (saved_name (po_exclude_path opts) g) < 256" "0 \<notin> set (saved_name (po_exclude_path opts) g)"
      using length_saved_name [of "po_exclude_path opts" g] set_saved_name [of "po_exclude_path opts" g] gs(1,2) by auto
    ultimately show ?thesis using gs(3) by (simp add: name is_directory_def)
  qed
  from x have "names_ok (map fst xs)" by (fastforce simp: names_ok_def UNZ_MAXFILENAMEINZIP_def)
  then show "names_ok es" unfolding xs(1) [symmetric] .
  show "\<forall>x \<in> set (zip es (map (file_data d) fs)). extractable Z 0 en x"
    "\<forall>x \<in> set (zip es (map (file_data d) fs)). \<not> is_directory (fst x)"
    using x unfolding xs_def by blast+
qed

end
