(* ===== verification/MiniunzMain.thy ===== *)
theory MiniunzMain
  imports MiniunzSpec
begin

text \<open>
  \<open>main\<close> of \<open>minizip/miniunz.c\<close>: the command line, opening the archive under one of two names, and
  listing or extracting.
\<close>

section \<open>The command line\<close>

record unpack_options =
  uo_list :: int
  uo_extract :: int
  uo_withoutpath :: int
  uo_overwrite :: int
  uo_extractdir :: int
  uo_dirname :: "byte list option"
  uo_password :: "byte list option"
  uo_zipfilename :: "byte list option"
  uo_file :: "byte list option"

definition unpack_defaults :: unpack_options where
  "unpack_defaults = \<lparr>uo_list = 0, uo_extract = 1, uo_withoutpath = 0, uo_overwrite = 0, uo_extractdir = 0,
     uo_dirname = None, uo_password = None, uo_zipfilename = None, uo_file = None\<rparr>"

text \<open>The letters of an option. The directory is the next argument, which is not skipped, or NULL.\<close>

fun unpack_flags :: "byte list list \<Rightarrow> byte list \<Rightarrow> nat \<Rightarrow> unpack_options \<Rightarrow> nat \<times> unpack_options" where
  "unpack_flags argv [] i opts = (i, opts)"
| "unpack_flags argv (c # p) i opts =
     (let opts = (if c = 108 \<or> c = 76 then opts\<lparr>uo_list := 1\<rparr> else opts);
          opts = (if c = 118 \<or> c = 86 then opts\<lparr>uo_list := 1\<rparr> else opts);
          opts = (if c = 120 \<or> c = 88 then opts\<lparr>uo_extract := 1\<rparr> else opts);
          opts = (if c = 101 \<or> c = 69 then opts\<lparr>uo_extract := 1, uo_withoutpath := 1\<rparr> else opts);
          opts = (if c = 111 \<or> c = 79 then opts\<lparr>uo_overwrite := 1\<rparr> else opts);
          opts = (if c = 100 \<or> c = 68
                  then opts\<lparr>uo_extractdir := 1, uo_dirname := (if i + 1 < length argv then Some (argv ! (i + 1)) else None)\<rparr>
                  else opts)
      in if (c = 112 \<or> c = 80) \<and> i + 1 < length argv
         then unpack_flags argv p (i + 1) (opts\<lparr>uo_password := Some (argv ! (i + 1))\<rparr>)
         else unpack_flags argv p i opts)"

lemma unpack_flags_mono: "i \<le> fst (unpack_flags argv p i opts)"
proof (induction argv p i opts rule: unpack_flags.induct)
  case (2 argv c p i opts)
  then show ?case by (fastforce simp: Let_def)
qed simp

function unpack_args :: "byte list list \<Rightarrow> nat \<Rightarrow> unpack_options \<Rightarrow> unpack_options" where
  "unpack_args argv i opts =
     (if i < length argv then
        (if argv ! i \<noteq> [] \<and> hd (argv ! i) = 45 then
           (let (i, opts) = unpack_flags argv (tl (argv ! i)) i opts in unpack_args argv (i + 1) opts)
         else unpack_args argv (i + 1)
           (if uo_zipfilename opts = None then opts\<lparr>uo_zipfilename := Some (argv ! i)\<rparr>
            else if uo_file opts = None \<and> uo_extractdir opts = 0 then opts\<lparr>uo_file := Some (argv ! i)\<rparr>
            else opts))
      else opts)"
  by pat_completeness auto
termination
proof (relation "measure (\<lambda>(argv, i, opts). length argv - i)", goal_cases)
  case (2 argv i opts x i' opts')
  then have "i' = fst (unpack_flags argv (tl (argv ! i)) i opts)" by (metis fst_conv)
  with 2(1) unpack_flags_mono [of i argv "tl (argv ! i)" opts] show ?case by simp
qed auto

declare unpack_args.simps [simp del]

section \<open>The program\<close>

text \<open>What uninitialised memory holds: structures, name arrays, the array for sizes, heap blocks.\<close>

record 'z memory =
  m_info :: unz_file_info64
  m_internal :: unz_file_info64_internal
  m_strm :: "'z z_stream"
  m_names :: "uLong \<Rightarrow> byte list"
  m_located :: "byte list"
  m_number :: "byte list"
  m_blocks :: "uLong \<Rightarrow> nat \<Rightarrow> byte"

definition unpack_banner :: "byte list" where
  "unpack_banner = text_bytes ''MiniUnz 1.01b, demo of zLib + Unz package written by Gilles Vollant'' @ [10]
     @ text_bytes ''more info at http://www.winimage.com/zLibDll/unzip.html'' @ [10, 10]"

definition unpack_help :: "byte list" where
  "unpack_help =
     text_bytes ''Usage : miniunz [-e] [-x] [-v] [-l] [-o] [-p password] file.zip [file_to_extr.] [-d extractdir]'' @ [10, 10]
     @ text_bytes ''  -e  Extract without pathname (junk paths)'' @ [10]
     @ text_bytes ''  -x  Extract with pathname'' @ [10]
     @ text_bytes ''  -v  list files'' @ [10]
     @ text_bytes ''  -l  list files'' @ [10]
     @ text_bytes ''  -d  directory to extract into'' @ [10]
     @ text_bytes ''  -o  overwrite files without prompting'' @ [10]
     @ text_bytes ''  -p  extract crypted file using password'' @ [10, 10]"

text \<open>\<open>%s\<close> of a pointer that may be NULL, as the C library prints it.\<close>

definition print_string :: "byte list option \<Rightarrow> byte list" where
  "print_string s = (case s of None \<Rightarrow> text_bytes ''(null)'' | Some bs \<Rightarrow> bs)"

text \<open>The name to try second: \<open>filename_try\<close> begins as zeros and gets at most 255 bytes.\<close>

definition first_name :: "byte list option \<Rightarrow> byte list" where
  "first_name zipfilename = (case zipfilename of None \<Rightarrow> [] | Some z \<Rightarrow> take 255 z)"

definition open_archive ::
    "'z memory \<Rightarrow> byte list option \<Rightarrow> sys \<Rightarrow> stdio \<Rightarrow> (stdio, 'z) unz64_s option \<times> path \<times> sys \<times> stdio" where
  "open_archive M zipfilename \<sigma> w =
     (case zipfilename of None \<Rightarrow> (None, [], \<sigma>, w)
      | Some z \<Rightarrow>
          (let (uf, \<sigma>, w) = unzOpen64 (m_info M) (m_internal M) (Some z) \<sigma> w
           in if uf \<noteq> None then (uf, first_name zipfilename, \<sigma>, w)
              else
                (let filename_try = first_name zipfilename @ text_bytes ''.zip'';
                     (uf, \<sigma>, w) = unzOpen64 (m_info M) (m_internal M) (Some filename_try) \<sigma> w
                 in (uf, filename_try, \<sigma>, w))))"

text \<open>
  Listing or extracting. \<open>chdir\<close> is the call of that name, which gives whether it failed. The result
  is the value of \<open>ret_value\<close>, or the argument of \<open>exit\<close> and no archive.
\<close>

definition unpack_archive ::
    "'z zlib \<Rightarrow> 'd os \<Rightarrow> (byte list option \<Rightarrow> 'd \<Rightarrow> bool \<times> 'd) \<Rightarrow> 'z memory \<Rightarrow> unpack_options
     \<Rightarrow> (stdio, 'z) unz64_s option \<Rightarrow> sys \<Rightarrow> stdio \<Rightarrow> 'd
     \<Rightarrow> (int \<times> (stdio, 'z) unz64_s option \<times> sys \<times> stdio \<times> 'd) option" where
  "unpack_archive Z os chdir M opts uf \<sigma> w d =
     (if uo_list opts = 1 then do {
        (ret, printed, uf, w) \<leftarrow> do_list (m_names M) (m_number M) uf w;
        Some (ret, uf, \<sigma>, w, os_print os printed d) }
      else if uo_extract opts = 1 then
        (let (failed, d) = (if uo_extractdir opts \<noteq> 0 then chdir (uo_dirname opts) d else (False, d))
         in if failed then
              Some (-1, None, \<sigma>, w,
                os_print os (text_bytes ''Error changing into '' @ print_string (uo_dirname opts) @ text_bytes '', aborting'' @ [10]) d)
            else do {
              (ret, uf, \<sigma>, w, d) \<leftarrow>
                (case uo_file opts of
                   None \<Rightarrow> do_extract Z (m_strm M) os (m_names M) (m_blocks M) (uo_withoutpath opts) (uo_overwrite opts)
                             (uo_password opts) uf \<sigma> w d
                 | Some f \<Rightarrow> do_extract_onefile Z (m_strm M) os (m_located M) (m_names M 0) (m_blocks M 0) f (uo_withoutpath opts)
                             (uo_overwrite opts) (uo_password opts) uf \<sigma> w d);
              Some (case ret of None \<Rightarrow> (1, None, \<sigma>, w, d) | Some r \<Rightarrow> (r, uf, \<sigma>, w, d)) })
      else Some (0, uf, \<sigma>, w, d))"

definition miniunz_main ::
    "'z zlib \<Rightarrow> 'd os \<Rightarrow> (byte list option \<Rightarrow> 'd \<Rightarrow> bool \<times> 'd) \<Rightarrow> 'z memory \<Rightarrow> byte list list \<Rightarrow> sys \<Rightarrow> stdio \<Rightarrow> 'd
     \<Rightarrow> (int \<times> sys \<times> stdio \<times> 'd) option" where
  "miniunz_main Z os chdir M argv \<sigma> w d =
     (let d = os_print os unpack_banner d
      in if length argv = 1 then Some (0, \<sigma>, w, os_print os unpack_help d)
         else
           (let opts = unpack_args argv 1 unpack_defaults;
                (uf, filename_try, \<sigma>, w) = open_archive M (uo_zipfilename opts) \<sigma> w
            in if uf = None then
                 Some (1, \<sigma>, w,
                   os_print os (text_bytes ''Cannot open '' @ print_string (uo_zipfilename opts) @ text_bytes '' or ''
                     @ print_string (uo_zipfilename opts) @ text_bytes ''.zip'' @ [10]) d)
               else do {
                 (ret_value, uf, \<sigma>, w, d) \<leftarrow>
                   unpack_archive Z os chdir M opts uf \<sigma> w (os_print os (filename_try @ text_bytes '' opened'' @ [10]) d);
                 let w = (if uf = None then w else snd (unzClose Z uf w));
                 Some (ret_value, \<sigma>, w, d) }))"

section \<open>Extracting everything\<close>

text \<open>When the names of the outputs are distinct, each of them holds its entry.\<close>

lemma fold_extracted:
  assumes "distinct (map (output_name wp \<circ> fst) xs)" "\<forall>x \<in> set xs. \<not> is_directory (fst x)" "(e, D) \<in> set xs"
  shows "fold (extracted wp) xs v (output_name wp e) = Some D"
proof -
  have keep: "fold (extracted wp) xs v p = v p" if "p \<notin> (output_name wp \<circ> fst) ` set xs" for xs v p
    using that by (induction xs arbitrary: v) (auto simp: image_iff)
  show ?thesis using assms
  proof (induction xs arbitrary: v)
    case (Cons x xs)
    show ?case
    proof (cases "x = (e, D)")
      case True
      with Cons.prems keep [of "output_name wp e" xs] show ?thesis by auto
    next
      case False
      with Cons show ?thesis by auto
    qed
  qed simp
qed

text \<open>A call that extracts everything: no listing, no directory, no single file, overwriting without questions.\<close>

definition unpack_call :: "byte list list \<Rightarrow> path \<Rightarrow> unpack_options \<Rightarrow> bool" where
  "unpack_call argv zp opts \<longleftrightarrow> length argv \<noteq> 1 \<and> opts = unpack_args argv 1 unpack_defaults \<and> uo_zipfilename opts = Some zp
     \<and> uo_file opts = None \<and> uo_list opts = 0 \<and> uo_extract opts = 1 \<and> uo_extractdir opts = 0 \<and> uo_overwrite opts \<noteq> 0
     \<and> uo_password opts = None"

lemma miniunz_eq:
  fixes Z :: "'z zlib" and M :: "'z memory"
  assumes "crc32_streams Z" "\<not> w_denied w zp" "w_files w zp = Some (pre @ archive_bytes es c)" "archive_ok pre es c"
    "unambiguous pre es c" "es \<noteq> []" "names_ok es" "malloc_total \<sigma>" "\<forall>i. length (m_names M i) = 256"
    and call: "unpack_call argv zp opts"
    and e: "es = map fst xs" "\<forall>x \<in> set xs. extractable Z (uo_withoutpath opts) (con_env d) x"
  shows "\<exists>\<sigma>' w' d'. miniunz_main Z console_os chdir M argv \<sigma> w d = Some (0, \<sigma>', w', d')
    \<and> con_view d' = fold (extracted (uo_withoutpath opts)) xs (con_view d)"
proof -
  have argv: "length argv \<noteq> 1" "unpack_args argv 1 unpack_defaults = opts" "uo_zipfilename opts = Some zp" "uo_file opts = None"
    "uo_list opts = 0" "uo_extract opts = 1" "uo_extractdir opts = 0" "uo_overwrite opts \<noteq> 0" "uo_password opts = None"
    using call unfolding unpack_call_def by blast+
  obtain s :: "(stdio, 'z) unz64_s" and \<sigma>1 w1 h st where o: "unzOpen64 (m_info M) (m_internal M) (Some zp) \<sigma> w = (Some s, \<sigma>1, w1)"
    "malloc_total \<sigma>1" "stdio_fetch w1 h = Some st" "s_rd st" "\<not> s_err st" "s_data st = pre @ archive_bytes es c"
    "opened stdio_filefunc64 h pre es c s" "at_entry es 0 s" "us_pfile_in_zip_read s = None"
    using open_stdio_eq [OF assms(2-6,8)] by metis
  define d1 where "d1 = os_print console_os (first_name (Some zp) @ text_bytes '' opened'' @ [10]) (os_print console_os unpack_banner d)"
  have d1: "con_view d1 = con_view d" "con_env d1 = con_env d" by (simp_all add: d1_def con.out_print)
  have e1: "\<forall>x \<in> set xs. extractable Z (uo_withoutpath opts) (con_env d1) x" using e(2) d1(2) by simp
  obtain s2 \<sigma>2 w2 d2 where x: "do_extract Z (m_strm M) console_os (m_names M) (m_blocks M) (uo_withoutpath opts) (uo_overwrite opts) None
      (Some s) \<sigma>1 w1 d1 = Some (Some 0, Some s2, \<sigma>2, w2, d2)" "con_view d2 = fold (extracted (uo_withoutpath opts)) xs (con_view d1)"
    using tool.do_extract_eq [OF assms(1,4,7) argv(8) assms(9) e(1) o(7-9,3-6,2) e1] by blast
  have "miniunz_main Z console_os chdir M argv \<sigma> w d = Some (0, \<sigma>2, snd (unzClose Z (Some s2) w2), d2)"
    using argv o(1) x(1) unfolding d1_def
    by (simp add: miniunz_main_def open_archive_def unpack_archive_def Let_def)
  then show ?thesis using x(2) d1(1) by auto
qed

end
