(* ===== verification/MiniunzSafe.thy ===== *)
theory MiniunzSafe
  imports MiniunzSpec
begin

text \<open>
  Extraction without paths (option \<open>-e\<close>) is confined: whatever the archive holds, the files that
  are created, written or dated have names without a separator.
\<close>

definition plain_name :: "path \<Rightarrow> bool" where
  "plain_name p \<longleftrightarrow> (\<forall>c \<in> set p. \<not> separator c)"

text \<open>A property of the world that only an operation on a name with a separator could break.\<close>

locale confined =
  fixes os :: "'d os" and good :: "'d \<Rightarrow> bool"
  assumes good_open: "good d \<Longrightarrow> plain_name p \<or> m = ''rb'' \<Longrightarrow> os_fopen os p m d = (h, d') \<Longrightarrow> good d'"
    and good_write: "good d \<Longrightarrow> os_fwrite os bs h d = (n, d') \<Longrightarrow> good d'"
    and good_close: "good d \<Longrightarrow> good (os_fclose os h d)"
    and good_utime: "good d \<Longrightarrow> plain_name p \<Longrightarrow> good (os_utime os p t d)"
    and good_scanf: "good d \<Longrightarrow> os_scanf os d = (c, d') \<Longrightarrow> good d'"
    and good_print: "good d \<Longrightarrow> good (os_print os bs d)"
begin

lemma good_extract_loop:
  fixes Z :: "'z zlib" and uf :: "('w, 'z) unz64_s option"
  assumes run: "extract_loop Z os fout size_buf uf buf w d = Some r" and d: "good d"
  shows "good (snd (snd (snd r)))"
proof -
  have "os = os \<longrightarrow> good d \<longrightarrow> good (snd (snd (snd r)))"
  proof (rule extract_loop.raw_induct [OF _ run, where P = "\<lambda>Z os' fout size_buf uf buf w d r. os' = os \<longrightarrow> good d \<longrightarrow> good (snd (snd (snd r)))"], intro impI)
    fix loop and Z :: "'z zlib" and os' :: "'d os" and fout size_buf and uf :: "('w, 'z) unz64_s option" and buf w d r
    assume IH: "\<And>Z os' fout size_buf uf buf w d r. loop Z os' fout size_buf uf buf w d = Some r
          \<Longrightarrow> os' = os \<longrightarrow> good d \<longrightarrow> good (snd (snd (snd r)))"
      and body: "do {
         (err, uf, buf, w) \<leftarrow> unzReadCurrentFile Z uf buf size_buf w;
         if err < 0 then Some (err, uf, w, os_print os' (zip_error err ''unzReadCurrentFile'') d)
         else if err > 0 then
           (let (n, d) = os_fwrite os' (buf_take (nat err) buf) fout d
            in if n \<noteq> nat err then Some (UNZ_ERRNO, uf, w, os_print os' (text_bytes ''error in writing extracted file'' @ [10]) d)
               else loop Z os' fout size_buf uf buf w d)
         else Some (err, uf, w, d) } = Some r"
      and os: "os' = os" and good: "good d"
    obtain err uf1 buf1 w1 where rd: "unzReadCurrentFile Z uf buf size_buf w = Some (err, uf1, buf1, w1)"
      using body by (cases "unzReadCurrentFile Z uf buf size_buf w") auto
    obtain n d1 where wr: "os_fwrite os (buf_take (nat err) buf1) fout d = (n, d1)" by fastforce
    show "good (snd (snd (snd r)))"
      using body good good_write [OF good wr] IH [of Z os fout size_buf uf1 buf1 w1 d1 r]
      by (auto simp: rd wr os good_print split: if_splits)
  qed
  with d show ?thesis by simp
qed

lemma good_ask_loop:
  assumes run: "ask_loop os p d = Some r" and d: "good d"
  shows "good (snd r)"
proof -
  have "os = os \<longrightarrow> good d \<longrightarrow> good (snd r)"
  proof (rule ask_loop.raw_induct [OF _ run, where P = "\<lambda>os' p d r. os' = os \<longrightarrow> good d \<longrightarrow> good (snd r)"], intro impI)
    fix loop and os' :: "'d os" and p d r
    define q where "q = text_bytes ''The file '' @ p @ text_bytes '' exists. Overwrite ? [y]es, [n]o, [A]ll: ''"
    assume IH: "\<And>os' p d r. loop os' p d = Some r \<Longrightarrow> os' = os \<longrightarrow> good d \<longrightarrow> good (snd r)"
      and body: "(let d = os_print os' (text_bytes ''The file '' @ p @ text_bytes '' exists. Overwrite ? [y]es, [n]o, [A]ll: '') d;
          (answer, d) = os_scanf os' d
        in case answer of None \<Rightarrow> Some (None, d)
         | Some rep \<Rightarrow>
             (let rep = (if 97 \<le> sint rep \<and> sint rep \<le> 122 then rep - 0x20 else rep)
              in if rep = 89 \<or> rep = 78 \<or> rep = 65 then Some (Some rep, d) else loop os' p d)) = Some r"
      and os: "os' = os" and good: "good d"
    obtain answer d1 where sc: "os_scanf os (os_print os q d) = (answer, d1)" by fastforce
    have "good d1" by (rule good_scanf [OF good_print [OF good] sc])
    then show "good (snd r)"
      using body [folded q_def] IH [of os p d1 r] by (auto simp: sc os Let_def split: option.splits if_splits)
  qed
  with d show ?thesis by simp
qed

lemma good_extract_loop': "extract_loop Z os fout size_buf uf buf w d = Some (err, uf', w', d') \<Longrightarrow> good d \<Longrightarrow> good d'"
  using good_extract_loop by fastforce

lemma good_ask_overwrite:
  assumes run: "ask_overwrite os p ow d = Some (skip, ow', d')" and d: "good d"
  shows "good d'"
proof -
  obtain f d1 where f: "os_fopen os p ''rb'' d = (f, d1)" by fastforce
  have d1: "good d1" using good_open [OF d _ f] by simp
  show ?thesis
  proof (cases "f = NULL")
    case False
    then obtain rep d2 where a: "ask_loop os p (os_fclose os f d1) = Some (rep, d2)" "d' = d2"
      using run by (auto simp: ask_overwrite_def f bind_eq_Some_conv split: option.splits)
    from good_ask_loop [OF a(1) good_close [OF d1]] show ?thesis by (simp add: a(2))
  qed (use run f d1 in \<open>simp add: ask_overwrite_def\<close>)
qed

lemma good_open_output:
  assumes run: "open_output os wp name p \<sigma> d = (fout, \<sigma>', d')" and d: "good d" and p: "plain_name p" and wp: "wp \<noteq> 0"
  shows "good d'"
proof -
  obtain f d1 where f: "os_fopen os p ''wb'' d = (f, d1)" by fastforce
  have "good d1" by (rule good_open [OF d _ f]) (simp add: p)
  with run f wp show ?thesis by (auto simp: open_output_def good_print split: if_splits)
qed

lemma good_extract_to:
  assumes run: "extract_to Z os buf p fi fout uf w d = Some (err, uf', w', d')" and d: "good d" and p: "plain_name p"
  shows "good d'"
proof -
  obtain uf1 w1 d1 where l: "extract_loop Z os fout WRITEBUFFERSIZE uf buf w (os_print os (text_bytes '' extracting: '' @ p @ [10]) d)
      = Some (err, uf1, w1, d1)" and d': "d' = (if err = 0 then change_file_date os p (fi_dosDate fi) (fi_tmu_date fi) (os_fclose os fout d1)
      else os_fclose os fout d1)"
    using run by (auto simp: extract_to_def bind_eq_Some_conv Let_def)
  have "good d1" by (rule good_extract_loop' [OF l good_print [OF d]])
  then show ?thesis by (simp add: d' change_file_date_def good_close good_utime p)
qed

lemma good_extract_named:
  assumes run: "extract_named Z strm0 os buf wp ow password name fi uf \<sigma> w d = Some (ret, ow', uf', \<sigma>', w', d')"
    and d: "good d" and wp: "wp \<noteq> 0"
  shows "good d'"
proof -
  let ?p = "without_path name"
  have p: "plain_name ?p" using without_path_no_separator by (simp add: plain_name_def)
  obtain err uf1 \<sigma>1 w1 where o: "unzOpenCurrentFilePassword Z strm0 uf password \<sigma> w = (err, uf1, \<sigma>1, w1)" by (metis prod_cases4)
  define d0 where "d0 = (if err \<noteq> UNZ_OK then os_print os (zip_error err ''unzOpenCurrentFilePassword'') d else d)"
  have d0: "good d0" using d by (simp add: d0_def good_print)
  obtain skip ow1 d1 where a: "(if ow = 0 \<and> err = UNZ_OK then ask_overwrite os ?p ow d0 else Some (Some False, ow, d0)) = Some (skip, ow1, d1)"
    and rest: "(case skip of None \<Rightarrow> Some (None, ow1, uf1, \<sigma>1, w1, d1)
        | Some skip \<Rightarrow>
            (let (fout, \<sigma>, d) = (if \<not> skip \<and> err = UNZ_OK then open_output os wp name ?p \<sigma>1 d1 else (NULL, \<sigma>1, d1))
             in do {
               (err, uf, w, d) \<leftarrow> (if fout \<noteq> NULL then extract_to Z os buf ?p fi fout uf1 w1 d
                                 else Some (err, uf1, w1, d));
               let (err2, uf) = unzCloseCurrentFile Z uf;
               if err = UNZ_OK then
                 Some (Some err2, ow1, uf, \<sigma>, w,
                   if err2 \<noteq> UNZ_OK then os_print os (zip_error err2 ''unzCloseCurrentFile'') d else d)
               else Some (Some err, ow1, uf, \<sigma>, w, d) })) = Some (ret, ow', uf', \<sigma>', w', d')"
    using run unfolding extract_named_def o Let_def prod.case if_not_P [OF wp] d0_def [symmetric]
      bind_eq_Some_conv split_paired_Ex by blast
  have d1: "good d1" using a d0 good_ask_overwrite by (auto split: if_splits)
  show ?thesis
  proof (cases skip)
    case None
    with rest d1 show ?thesis by simp
  next
    case (Some sk)
    obtain fout \<sigma>2 d2 where op: "(if \<not> sk \<and> err = UNZ_OK then open_output os wp name ?p \<sigma>1 d1 else (NULL, \<sigma>1, d1)) = (fout, \<sigma>2, d2)"
      by (rule prod_cases3)
    have d2: "good d2" using op d1 good_open_output [OF _ d1 p wp] by (auto split: if_splits)
    obtain err3 uf3 w3 d3 where ex: "(if fout \<noteq> NULL then extract_to Z os buf ?p fi fout uf1 w1 d2 else Some (err, uf1, w1, d2))
        = Some (err3, uf3, w3, d3)"
      and rest2: "(case unzCloseCurrentFile Z uf3 of (err2, uf) \<Rightarrow>
               if err3 = UNZ_OK then
                 Some (Some err2, ow1, uf, \<sigma>2, w3,
                   if err2 \<noteq> UNZ_OK then os_print os (zip_error err2 ''unzCloseCurrentFile'') d3 else d3)
               else Some (Some err3, ow1, uf, \<sigma>2, w3, d3)) = Some (ret, ow', uf', \<sigma>', w', d')"
      using rest unfolding Some option.case op Let_def prod.case bind_eq_Some_conv split_paired_Ex by blast
    have d': "d' = d3 \<or> (\<exists>e. d' = os_print os (zip_error e ''unzCloseCurrentFile'') d3)"
      using rest2 by (auto split: prod.splits if_splits)
    have "good d3" using ex d2 good_extract_to [OF _ d2 p] by (auto split: if_splits)
    with d' show ?thesis by (auto simp: good_print)
  qed
qed

lemma good_extract_current:
  assumes run: "do_extract_currentfile Z strm0 os junk buf wp ow password uf \<sigma> w d = Some (ret, ow', uf', \<sigma>', w', d')"
    and d: "good d" and wp: "wp \<noteq> 0"
  shows "good d'"
proof -
  obtain err fi ib w1 where i: "unzGetCurrentFileInfo64 uf (no_bufs\<lparr>ib_szFileName := Some junk\<rparr>) w = (err, fi, ib, w1)"
    by (metis prod_cases4)
  obtain ok \<sigma>1 where m: "malloc (unat WRITEBUFFERSIZE) \<sigma> = (ok, \<sigma>1)" by fastforce
  show ?thesis
    using run d wp good_extract_named [of Z strm0 buf wp ow password]
    unfolding do_extract_currentfile_def i m Let_def prod.case
    by (auto simp: good_print split: if_splits)
qed

lemma good_extract_rounds:
  assumes "wp \<noteq> 0"
  shows "extract_rounds Z strm0 os junk buf wp password n i ow uf \<sigma> w d = Some (ret, uf', \<sigma>', w', d') \<Longrightarrow> good d \<Longrightarrow> good d'"
proof (induction "unat n - unat i" arbitrary: i ow uf \<sigma> w d rule: less_induct)
  case less
  note run = less.prems(1)
  show ?case
  proof (cases "i < n")
    case False
    with run less.prems(2) show ?thesis by (subst (asm) extract_rounds.simps) simp
  next
    case True
    obtain err ow1 uf1 \<sigma>1 w1 d1 where 1: "do_extract_currentfile Z strm0 os (junk i) (buf i) wp ow password uf \<sigma> w d
        = Some (err, ow1, uf1, \<sigma>1, w1, d1)"
      and 2: "(if err = None then Some (False, uf1, \<sigma>1, w1, d1)
        else if err \<noteq> Some UNZ_OK then Some (True, uf1, \<sigma>1, w1, d1)
        else
          (let (err, uf, w) = (if i + 1 < n then unzGoToNextFile uf1 w1 else (UNZ_OK, uf1, w1))
           in if err \<noteq> UNZ_OK then Some (True, uf, \<sigma>1, w, os_print os (zip_error err ''unzGoToNextFile'') d1)
              else extract_rounds Z strm0 os junk buf wp password n (i + 1) ow1 uf \<sigma>1 w d1)) = Some (ret, uf', \<sigma>', w', d')"
      using run True by (subst (asm) extract_rounds.simps) (auto simp: bind_eq_Some_conv)
    have d1: "good d1" by (rule good_extract_current [OF 1 less.prems(2) assms])
    obtain e2 uf2 w2 where g: "(if i + 1 < n then unzGoToNextFile uf1 w1 else (UNZ_OK, uf1, w1)) = (e2, uf2, w2)" by (rule prod_cases3)
    have "unat n - unat (i + 1) < unat n - unat i" using next_round [OF True] by simp
    from less.hyps [OF this, of ow1 uf2 \<sigma>1 w2 d1] d1 2 show ?thesis
      unfolding g Let_def prod.case by (auto simp: good_print split: if_splits)
  qed
qed

lemma good_do_extract:
  assumes "do_extract Z strm0 os junk buf wp ow password uf \<sigma> w d = Some (ret, uf', \<sigma>', w', d')" "good d" "wp \<noteq> 0"
  shows "good d'"
  using assms good_extract_rounds [OF assms(3)]
  by (auto simp: do_extract_def split: prod.splits option.splits)

end

text \<open>
  On the console: the files whose names have separators are those of \<open>fs\<close>, and no stream can
  write to one.
\<close>

definition con_confined :: "(path \<Rightarrow> byte list option) \<Rightarrow> console \<Rightarrow> bool" where
  "con_confined fs d \<longleftrightarrow> (\<forall>p. \<not> plain_name p \<longrightarrow> con_view d p = fs p)
     \<and> (\<forall>h f. w_streams (con_files d) h = Some f \<and> f_wr f \<longrightarrow> plain_name (f_path f))"

interpretation con_safe: confined console_os "con_confined fs" for fs
proof
  fix d p m h d' assume "con_confined fs d" "plain_name p \<or> m = ''rb''" "os_fopen console_os p m d = (h, d')"
  then show "con_confined fs d'"
    by (auto simp: console_os_def libc_fopen_def Let_def con_confined_def con_view_def split: if_splits prod.splits)
next
  fix d bs h n d' assume "con_confined fs d" "os_fwrite console_os bs h d = (n, d')"
  then show "con_confined fs d'"
    by (auto simp: console_os_def libc_fwrite_def Let_def con_confined_def con_view_def stdio_fetch_def stdio_store_def
        split: if_splits prod.splits option.splits)
qed (auto simp: console_os_def libc_fclose_def con_confined_def con_view_def split: option.splits prod.splits list.splits if_splits)

end
