(* ===== verification/ZipRun.thy ===== *)
theory ZipRun
  imports ZipWrite ZipOpen
begin

text \<open>
  Any sequence of calls on an archive being written, whatever the callbacks and the compressor
  return: the calls as a step relation, and the invariant of the reachable states.
\<close>

section \<open>What a call leaves alone\<close>

definition kept :: "('w, 'z) zip64_internal \<Rightarrow> ('w, 'z) zip64_internal \<Rightarrow> bool" where
  "kept zi zi' \<longleftrightarrow> zi_filefunc zi' = zi_filefunc zi \<and> zi_filestream zi' = zi_filestream zi
     \<and> zi_central_dir zi' = zi_central_dir zi \<and> zi_in_opened_file_inzip zi' = zi_in_opened_file_inzip zi
     \<and> zi_number_entry zi' = zi_number_entry zi \<and> zi_begin_pos zi' = zi_begin_pos zi
     \<and> zi_add_position zi' = zi_add_position zi \<and> zi_globalcomment zi' = zi_globalcomment zi
     \<and> ci_size_centralExtraFree (zi_ci zi') = ci_size_centralExtraFree (zi_ci zi)"

lemma kept_refl [simp]: "kept zi zi"
  by (simp add: kept_def)

lemma kept_trans: "kept a b \<Longrightarrow> kept b c \<Longrightarrow> kept a c"
  by (simp add: kept_def)

lemma kept_ci [simp]: "ci_size_centralExtraFree ci = ci_size_centralExtraFree (zi_ci zi) \<Longrightarrow> kept zi (zi\<lparr>zi_ci := ci\<rparr>)"
  by (simp add: kept_def)

lemma kept_flush: "zip64FlushWriteBuffer zi w = (err, zi', w') \<Longrightarrow> kept zi zi'"
  by (auto simp: flush_eq flushed_def kept_def split: prod.splits)

lemma kept_refill: "zip_refill err zi w = (err', zi', w') \<Longrightarrow> kept zi zi'"
  by (auto simp: zip_refill_def Let_def kept_def split: if_splits prod.splits dest!: kept_flush)

lemma kept_deflate: "zip_deflate_step Z flush (zi_ci zi) = (e, ci) \<Longrightarrow> kept zi (zi\<lparr>zi_ci := ci\<rparr>)"
  by (auto simp: zip_deflate_step_def Let_def kept_def split: prod.splits)

lemma kept_copy: "kept zi (zi\<lparr>zi_ci := zip_copy_step (zi_ci zi)\<rparr>)"
  by (simp add: kept_def zip_copy_step_def Let_def)

lemma kept_write_loop:
  assumes "zip_write_loop Z err zi w = Some (err', zi', w')"
  shows "kept zi zi'"
  by (rule write_loop_keeps [where P = "kept zi", OF assms kept_refl])
    (blast intro: kept_trans kept_refill kept_deflate kept_copy)+

text \<open>The loop that drains the compressor.\<close>

lemma kept_finish_loop:
  fixes zi :: "('w, 'z) zip64_internal"
  assumes "zip_finish_loop Z err zi w = Some (err', zi', w')"
  shows "kept zi zi'"
proof -
  have "kept zi (fst (snd (err', zi', w')))"
  proof (rule zip_finish_loop.raw_induct [OF _ assms, where P = "\<lambda>Z err zi w r. kept zi (fst (snd r))"])
    fix loop and Z :: "'z zlib" and err and zi :: "('w, 'z) zip64_internal" and w r
    assume IH: "\<And>Z err zi w r. loop Z err zi w = Some r \<Longrightarrow> kept zi (fst (snd r))"
      and body: "(if err = ZIP_OK then
        (let (err, zi, w) = zip_refill err zi w;
             (err, ci) = zip_deflate_step Z Z_FINISH (zi_ci zi)
         in loop Z err (zi\<lparr>zi_ci := ci\<rparr>) w)
      else Some (err, zi, w)) = Some r"
    show "kept zi (fst (snd r))"
    proof (cases "err = ZIP_OK")
      case True
      obtain e1 zi1 w1 where rf: "zip_refill err zi w = (e1, zi1, w1)" by (metis prod_cases3)
      obtain e2 ci where st: "zip_deflate_step Z Z_FINISH (zi_ci zi1) = (e2, ci)" by fastforce
      have "loop Z e2 (zi1\<lparr>zi_ci := ci\<rparr>) w1 = Some r" using body rf st True by simp
      from IH [OF this] kept_refill [OF rf] kept_deflate [OF st] show ?thesis by (blast intro: kept_trans)
    qed (use body in auto)
  qed
  then show ?thesis by simp
qed

lemma kept_close_flush: "zip_close_flush Z err zi w = (err', zi', w') \<Longrightarrow> kept zi zi'"
  by (auto simp: zip_close_flush_def Let_def kept_def split: if_splits prod.splits dest!: kept_flush)

lemma kept_local_header: "Write_LocalFileHeader zi name extra w = (err, zi', w') \<Longrightarrow> kept zi zi'"
  by (auto simp: Write_LocalFileHeader_def Let_def kept_def split: if_splits prod.splits)

section \<open>The invariant\<close>

text \<open>
  Between calls the block list is well formed; while an entry is open, its buffer is
  consistent and there is room for a ZIP64 block behind its central header.
\<close>

definition zip_inv :: "('w, 'z) zip64_internal \<Rightarrow> bool" where
  "zip_inv zi \<longleftrightarrow> ll_ok (zi_central_dir zi)
     \<and> (zi_in_opened_file_inzip zi = 0
        \<or> zi_in_opened_file_inzip zi = 1 \<and> buf_ok (zi_ci zi) \<and> ci_size_centralExtraFree (zi_ci zi) = 32)"

lemma zip_inv_write:
  assumes "deflate_steps Z" "zip_inv zi" "zipWriteInFileInZip Z (Some zi) buf w = Some (err, file', w')"
  shows "\<exists>zi'. file' = Some zi' \<and> zip_inv zi' \<and> kept zi zi'"
proof (cases "zi_in_opened_file_inzip zi = 0")
  case True
  with assms show ?thesis by (auto simp: zipWriteInFileInZip_def)
next
  case False
  let ?zi = "zi\<lparr>zi_ci := (zi_ci zi)\<lparr>ci_crc32 := zl_crc32 Z (ci_crc32 (zi_ci zi)) buf,
      ci_stream := (ci_stream (zi_ci zi))\<lparr>next_in := buf\<rparr>\<rparr>\<rparr>"
  obtain zi' where r: "zip_write_loop Z ZIP_OK ?zi w = Some (err, zi', w')" "file' = Some zi'"
    using assms(3) False by (auto simp: zipWriteInFileInZip_def Let_def)
  have "kept zi zi'" using kept_write_loop [OF r(1)] by (rule kept_trans [rotated]) simp
  moreover have "buf_ok (zi_ci ?zi)" using assms(2) False by (simp add: zip_inv_def buf_ok_def)
  from buf_ok_write_loop [OF assms(1) this r(1)] have "buf_ok (zi_ci zi')" .
  ultimately show ?thesis using assms(2) r(2) by (auto simp: zip_inv_def kept_def)
qed

text \<open>The spare bytes suffice, so that finishing an entry never stops half way.\<close>

lemma close_zip64_some:
  assumes "ci_size_centralExtraFree ci = 32"
  shows "zip_close_zip64 ci csize usize \<noteq> None"
proof -
  have "zip64_datasize ci csize usize \<in> {0, 8, 16, 24}" by (auto simp: zip64_datasize_def)
  then have "\<not> of_nat (zip64_datasize ci csize usize + 4) > ci_size_centralExtraFree ci" unfolding assms by auto
  then show ?thesis by (simp add: zip_close_zip64_def Let_def split: prod.splits if_splits)
qed

lemma zip_inv_close:
  assumes inv: "zip_inv zi" and opened: "zi_in_opened_file_inzip zi \<noteq> 0"
    and run: "zipCloseFileInZipRaw64_zi Z zi usize crc \<sigma> w = Some (err, zi', \<sigma>', w')"
  shows "zip_inv zi' \<and> zi_in_opened_file_inzip zi' = 0 \<and> zi_number_entry zi' = zi_number_entry zi + 1
    \<and> prefix (ll_bytes (zi_central_dir zi)) (ll_bytes (zi_central_dir zi'))"
proof -
  let ?zi = "zi\<lparr>zi_ci := (zi_ci zi)\<lparr>ci_stream := (ci_stream (zi_ci zi))\<lparr>next_in := []\<rparr>\<rparr>\<rparr>"
  obtain e1 zi1 w1 where 1: "(if ci_method (zi_ci zi) = Z_DEFLATED \<and> ci_raw (zi_ci zi) = 0 then zip_finish_loop Z ZIP_OK ?zi w
      else Some (ZIP_OK, ?zi, w)) = Some (e1, zi1, w1)"
    and 2: "Some (err, zi', \<sigma>', w') = (let (err, zi, w) = zip_close_flush Z e1 zi1 w1
      in Some (zip_close_record err zi usize crc \<sigma> w))"
    using run opened unfolding zipCloseFileInZipRaw64_zi_def Let_def by (auto split: Option.bind_split_asm)
  obtain e2 zi2 w2 where f: "zip_close_flush Z e1 zi1 w1 = (e2, zi2, w2)" by (metis prod_cases3)
  have "kept ?zi zi1" using 1 kept_finish_loop by (auto split: if_splits)
  then have k: "kept zi zi2" using kept_close_flush [OF f] kept_trans by (fastforce simp: kept_def)
  have r: "zip_close_record e2 zi2 usize crc \<sigma> w2 = (err, zi', \<sigma>', w')" using 2 f by simp
  have ok: "ll_ok (zi_central_dir zi2)" "ci_size_centralExtraFree (zi_ci zi2) = 32"
    using k inv opened by (auto simp: kept_def zip_inv_def)
  define usize' where "usize' = (if ci_raw (zi_ci zi2) = 0 then ci_totalUncompressedData (zi_ci zi2) else usize)"
  define crc' where "crc' = (if ci_raw (zi_ci zi2) = 0 then ci_crc32 (zi_ci zi2) else crc)"
  define csize where "csize = ci_totalCompressedData (zi_ci zi2) + of_int (ci_crypt_header_size (zi_ci zi2))"
  define ci where "ci = (zi_ci zi2)\<lparr>ci_central_header := zip_close_header (zi_ci zi2) crc' csize usize'\<rparr>"
  have "ci_size_centralExtraFree ci = 32" using ok(2) by (simp add: ci_def)
  then obtain ci' where z: "zip_close_zip64 ci csize usize' = Some ci'" using close_zip64_some by blast
  obtain e3 cd \<sigma>3 where d: "(if e2 = ZIP_OK then
        add_data_in_datablock (Some (zi_central_dir zi2)) (take (unat (ci_size_centralheader ci')) (ci_central_header ci')) \<sigma>
      else (e2, Some (zi_central_dir zi2), \<sigma>)) = (e3, cd, \<sigma>3)" by (metis prod_cases3)
  have "\<exists>l. cd = Some l \<and> ll_ok l \<and> prefix (ll_bytes (zi_central_dir zi2)) (ll_bytes l)"
  proof (cases "e2 = ZIP_OK")
    case True
    with d add_data_in_datablock_spec [OF _ ok(1)] show ?thesis by (fastforce simp: prefix_def)
  qed (use d ok in auto)
  then obtain l where l: "cd = Some l" "ll_ok l" "prefix (ll_bytes (zi_central_dir zi2)) (ll_bytes l)" by blast
  have "zi_in_opened_file_inzip zi' = 0 \<and> zi_number_entry zi' = zi_number_entry zi2 + 1 \<and> zi_central_dir zi' = l"
    using r d z l(1) unfolding zip_close_record_def Let_def usize'_def [symmetric] crc'_def [symmetric] csize_def [symmetric]
      ci_def [symmetric]
    by (auto split: prod.splits if_splits)
  then show ?thesis using l k by (simp add: zip_inv_def kept_def)
qed

text \<open>\<open>deflateInit2\<close> does not touch the output space it is shown.\<close>

definition deflate_init_keeps :: "'z zlib \<Rightarrow> bool" where
  "deflate_init_keeps Z \<longleftrightarrow> (\<forall>s a b c d e. case zl_deflateInit2 Z s a b c d e of
     (err, s') \<Rightarrow> avail_out s' = avail_out s \<and> next_out s' = next_out s)"

lemma zip_inv_new_file:
  fixes zi :: "('w, 'z) zip64_internal"
  assumes Z: "deflate_init_keeps Z" and inv: "zip_inv zi" and closed: "zi_in_opened_file_inzip zi = 0"
    and run: "new_file_open Z zi nf \<sigma> w = Some (err, zi', \<sigma>', w')"
  shows "zip_inv zi' \<and> zi_central_dir zi' = zi_central_dir zi \<and> zi_number_entry zi' = zi_number_entry zi
    \<and> (err = ZIP_OK \<longleftrightarrow> zi_in_opened_file_inzip zi' \<noteq> 0)"
proof -
  obtain pos w1 where t: "ZTELL64 (zi_filefunc zi) (zi_filestream zi) w = (pos, w1)" by fastforce
  define ci where "ci = new_file_reset nf pos (zi_ci zi)"
  obtain \<sigma>1 where m: "malloc (unat (ci_size_centralheader ci) + sizeof_spare) \<sigma> = (True, \<sigma>1)"
    using run t by (cases "malloc (unat (ci_size_centralheader ci) + sizeof_spare) \<sigma>")
      (auto simp: new_file_open_def Let_def ci_def split: if_splits)
  define ci1 where "ci1 = ci\<lparr>ci_central_header := new_file_central nf (zi_add_position zi) ci
        (replicate (unat (ci_size_centralheader ci) + sizeof_spare) 0),
      ci_zip64 := nf_zip64 nf, ci_totalCompressedData := 0, ci_totalUncompressedData := 0, ci_pos_zip64extrainfo := 0\<rparr>"
  obtain e2 zi2 w2 where l: "Write_LocalFileHeader (zi\<lparr>zi_ci := ci1\<rparr>) (new_file_name nf) (nf_extrafield_local nf) w1 = (e2, zi2, w2)"
    by (metis prod_cases3)
  obtain e3 ci3 where c: "new_file_compressor Z nf e2 (zi_ci zi2) = (e3, ci3)" by fastforce
  obtain e4 zi4 \<sigma>4 w4 where y: "new_file_crypt Z nf e3 (zi2\<lparr>zi_ci := ci3\<rparr>) \<sigma>1 w2 = (e4, zi4, \<sigma>4, w4)" by (metis prod_cases4)
  have r: "err = e4" "zi' = (if e4 = Z_OK then zi4\<lparr>zi_in_opened_file_inzip := 1\<rparr> else zi4)"
    using run m l c y unfolding new_file_open_def t Let_def prod.case ci_def [symmetric] by (auto simp: ci1_def)
  have k2: "kept (zi\<lparr>zi_ci := ci1\<rparr>) zi2" by (rule kept_local_header [OF l])
  have ci2: "ci_pos_in_buffered_data (zi_ci zi2) = 0" "ci_size_centralExtraFree (zi_ci zi2) = 32"
    using l by (auto simp: Write_LocalFileHeader_def Let_def ci1_def ci_def new_file_reset_def split: if_splits prod.splits)
  have keeps: "avail_out s' = avail_out s \<and> next_out s' = next_out s" if "zl_deflateInit2 Z s a b c d e = (e', s')" for s s' a b c d e e'
    using Z [unfolded deflate_init_keeps_def, rule_format, of s a b c d e] that by simp
  have ci3: "buf_ok ci3 \<and> ci_size_centralExtraFree ci3 = 32"
    using c ci2 by (auto simp: new_file_compressor_def Let_def buf_ok_def split: if_splits prod.splits dest!: keeps)
  have "buf_ok (zi_ci zi4) \<and> kept (zi2\<lparr>zi_ci := ci3\<rparr>) zi4"
    using y ci3 by (auto simp: new_file_crypt_def Let_def buf_ok_def kept_def split: if_splits prod.splits option.splits)
  then show ?thesis using r k2 ci3 inv closed by (simp add: zip_inv_def kept_def)
qed

lemma zip_inv_open:
  fixes zi :: "('w, 'z) zip64_internal"
  assumes "deflate_init_keeps Z" "zip_inv zi" "zipOpenNewFileInZip4_64 Z (Some zi) nf \<sigma> w = Some (err, file', \<sigma>', w')"
  shows "\<exists>zi'. file' = Some zi' \<and> zip_inv zi' \<and> prefix (ll_bytes (zi_central_dir zi)) (ll_bytes (zi_central_dir zi'))"
proof (cases "nf_method nf \<noteq> 0 \<and> nf_method nf \<noteq> Z_DEFLATED")
  case True
  with assms(2,3) show ?thesis by (auto simp: zipOpenNewFileInZip4_64_def)
next
  case False
  define close where "close = (if zi_in_opened_file_inzip zi = 1 then zipCloseFileInZipRaw64_zi Z zi 0 0 \<sigma> w
      else Some (ZIP_OK, zi, \<sigma>, w))"
  obtain e1 zi1 \<sigma>1 w1 where c: "close = Some (e1, zi1, \<sigma>1, w1)"
    and r: "(if e1 \<noteq> ZIP_OK then Some (e1, Some zi1, \<sigma>1, w1)
      else map_option (\<lambda>(err, zi, \<sigma>, w). (err, Some zi, \<sigma>, w)) (new_file_open Z zi1 nf \<sigma>1 w1)) = Some (err, file', \<sigma>', w')"
    using assms(3) False unfolding zipOpenNewFileInZip4_64_def close_def by (auto split: Option.bind_split_asm)
  have i1: "zip_inv zi1 \<and> zi_in_opened_file_inzip zi1 = 0
    \<and> prefix (ll_bytes (zi_central_dir zi)) (ll_bytes (zi_central_dir zi1))"
    using c zip_inv_close [OF assms(2), of Z 0 0 \<sigma> w] assms(2)
    by (auto simp: close_def zip_inv_def split: if_splits)
  show ?thesis
  proof (cases "e1 = ZIP_OK")
    case True
    then obtain zi' where "new_file_open Z zi1 nf \<sigma>1 w1 = Some (err, zi', \<sigma>', w')" "file' = Some zi'" using r by auto
    with zip_inv_new_file [OF assms(1) _ _ this(1)] i1 show ?thesis by auto
  qed (use r i1 in auto)
qed

section \<open>Sequences of calls\<close>

text \<open>
  A state is an archive that a successful \<open>zipOpen\<close> returned, with the environment. A call
  that does not return has no step.
\<close>

type_synonym ('w, 'z) zip_state = "('w, 'z) zip64_internal \<times> sys \<times> 'w"

inductive zip_step :: "'z zlib \<Rightarrow> ('w, 'z) zip_state \<Rightarrow> ('w, 'z) zip_state \<Rightarrow> bool" for Z where
  step_open: "zipOpenNewFileInZip4_64 Z (Some zi) nf \<sigma> w = Some (err, Some zi', \<sigma>', w') \<Longrightarrow>
    zip_step Z (zi, \<sigma>, w) (zi', \<sigma>', w')"
| step_write: "zipWriteInFileInZip Z (Some zi) buf w = Some (err, Some zi', w') \<Longrightarrow>
    zip_step Z (zi, \<sigma>, w) (zi', \<sigma>, w')"
| step_close: "zipCloseFileInZipRaw64 Z (Some zi) usize crc \<sigma> w = Some (err, Some zi', \<sigma>', w') \<Longrightarrow>
    zip_step Z (zi, \<sigma>, w) (zi', \<sigma>', w')"

inductive_cases zip_stepE: "zip_step Z (zi, \<sigma>, w) (zi', \<sigma>', w')"

definition zip_reachable :: "'z zlib \<Rightarrow> ('w, 'z) zip_state \<Rightarrow> ('w, 'z) zip_state \<Rightarrow> bool" where
  "zip_reachable Z = (zip_step Z)\<^sup>*\<^sup>*"

lemma zip_inv_step:
  assumes "deflate_steps Z" "deflate_init_keeps Z" "zip_inv (fst s)" "zip_step Z s t"
  shows "zip_inv (fst t) \<and> prefix (ll_bytes (zi_central_dir (fst s))) (ll_bytes (zi_central_dir (fst t)))"
  using assms(4,3)
proof cases
  case (step_open zi nf \<sigma> w err zi' \<sigma>' w')
  with zip_inv_open [OF assms(2)] assms(3) show ?thesis by fastforce
next
  case (step_write zi buf w err zi' w' \<sigma>)
  with zip_inv_write [OF assms(1)] assms(3) show ?thesis by (fastforce simp: kept_def)
next
  case (step_close zi usize crc \<sigma> w err zi' \<sigma>' w')
  show ?thesis
  proof (cases "zi_in_opened_file_inzip zi = 0")
    case True
    with step_close assms(3) show ?thesis by (auto simp: zipCloseFileInZipRaw64_def zipCloseFileInZipRaw64_zi_def)
  next
    case False
    with step_close assms(3) zip_inv_close [of zi Z usize crc \<sigma> w] show ?thesis by (auto simp: zipCloseFileInZipRaw64_def)
  qed
qed

lemma zip_inv_reachable:
  assumes "deflate_steps Z" "deflate_init_keeps Z" "zip_inv (fst s)" "zip_reachable Z s t"
  shows "zip_inv (fst t) \<and> prefix (ll_bytes (zi_central_dir (fst s))) (ll_bytes (zi_central_dir (fst t)))"
  using assms(4) unfolding zip_reachable_def
proof (induction rule: rtranclp_induct)
  case (step t u)
  with zip_inv_step [OF assms(1,2), of t u] show ?case by (blast intro: prefix_order.trans)
qed (use assms(3) in simp)

end
