(* ===== verification/ExtraField.thy ===== *)
theory ExtraField
  imports ZipClose
begin

text \<open>
  What \<open>zipRemoveExtraInfoBlock\<close> does to an extra field that is a sequence of blocks.
\<close>

text \<open>A block: its identifier, the length of its data, and the data.\<close>

definition short_bytes :: "16 word \<Rightarrow> byte list" where
  "short_bytes x = [ucast x, ucast (drop_bit 8 x)]"

definition block_bytes :: "16 word \<times> byte list \<Rightarrow> byte list" where
  "block_bytes b = short_bytes (fst b) @ short_bytes (of_nat (length (snd b))) @ snd b"

definition kept_blocks :: "16 word \<Rightarrow> (16 word \<times> byte list) list \<Rightarrow> byte list list" where
  "kept_blocks h bs = map block_bytes (filter (\<lambda>b. fst b \<noteq> h) bs)"

lemma short_at_bytes:
  "short_at (pre @ short_bytes x @ r) (length pre) = x"
  "short_at (pre @ short_bytes y @ short_bytes x @ r) (length pre + 2) = x"
proof -
  have "(ucast (ucast x :: byte) :: 16 word) OR push_bit 8 (ucast (ucast (drop_bit 8 x) :: byte)) = x"
    by (rule bit_word_eqI) (auto simp: bit_simps)
  then show "short_at (pre @ short_bytes x @ r) (length pre) = x"
    "short_at (pre @ short_bytes y @ short_bytes x @ r) (length pre + 2) = x"
    by (simp_all add: short_at_def short_bytes_def nth_append)
qed

lemma length_block [simp]: "length (block_bytes b) = 4 + length (snd b)"
  by (simp add: block_bytes_def short_bytes_def)

lemma length_fold_mem_write:
  "\<forall>k \<in> set ks. length k \<le> length b \<Longrightarrow> length (fold (\<lambda>k b. mem_write 0 k b) ks b) = length b"
  by (induction ks arbitrary: b) (auto simp: mem_write_def)

lemma remove_extra_loop_blocks:
  assumes "\<forall>b \<in> set bs. length (snd b) < 2 ^ 15" "\<forall>b \<in> set bs. length (block_bytes b) \<le> length buf"
  shows "remove_extra_loop (pre @ concat (map block_bytes bs)) h (int (length pre)) sz buf
    = Some (sz + int (length (concat (kept_blocks h bs))), fold (\<lambda>k b. mem_write 0 k b) (kept_blocks h bs) buf)"
  using assms
proof (induction bs arbitrary: pre sz buf)
  case Nil
  then show ?case by (simp add: remove_extra_loop.simps kept_blocks_def)
next
  case (Cons b bs)
  obtain i d where b: "b = (i, d)" by fastforce
  let ?rest = "concat (map block_bytes bs)"
  let ?p = "pre @ concat (map block_bytes (b # bs))"
  have p: "?p = pre @ short_bytes i @ short_bytes (of_nat (length d)) @ d @ ?rest" by (simp add: b block_bytes_def)
  have hd: "short_at ?p (length pre) = i" "short_at ?p (length pre + 2) = of_nat (length d)"
    unfolding p by (simp_all only: short_at_bytes)
  have "length d < 2 ^ 15" using Cons.prems(1) by (simp add: b)
  then have sz: "sint (of_nat (length d) :: 16 word) = int (length d)"
    by (simp add: sint_uint unat_of_nat_small uint_nat signed_take_bit_int_eq_self)
  have len: "length ?p = length pre + 4 + length d + length ?rest" by (simp add: b)
  have blk: "take (length d + 4) (drop (length pre) ?p) = block_bytes b" by (simp add: b)
  have next_pos: "int (length pre) + (int (length d) + 4) = int (length (pre @ block_bytes b))" by (simp add: b)
  have fits: "length d + 4 \<le> length buf" using Cons.prems(2) by (simp add: b)
  have split: "?p = (pre @ block_bytes b) @ ?rest" by simp
  have run: "remove_extra_loop ?p h (int (length pre)) sz buf =
      (if i = h then remove_extra_loop ?p h (int (length (pre @ block_bytes b))) sz buf
       else remove_extra_loop ?p h (int (length (pre @ block_bytes b))) (sz + (int (length d) + 4)) (mem_write 0 (block_bytes b) buf))"
  proof -
    have "nat (int (length d) + 4) = length d + 4" by simp
    then show ?thesis
      using len fits by (subst remove_extra_loop.simps) (simp only: hd sz blk next_pos nat_int Let_def, simp)
  qed
  show ?case
  proof (cases "i = h")
    case True
    have "kept_blocks h (b # bs) = kept_blocks h bs" using True by (simp add: kept_blocks_def b)
    then show ?thesis unfolding run unfolding split using Cons.IH [of buf "pre @ block_bytes b" sz] Cons.prems True by simp
  next
    case False
    have k: "kept_blocks h (b # bs) = block_bytes b # kept_blocks h bs" using False by (simp add: kept_blocks_def b)
    have lb: "length (mem_write 0 (block_bytes b) buf) = length buf" using fits by (simp add: mem_write_def b)
    then show ?thesis unfolding run k unfolding split
      using Cons.IH [of "mem_write 0 (block_bytes b) buf" "pre @ block_bytes b" "sz + (int (length d) + 4)"] Cons.prems False
      by (simp add: b)
  qed
qed

text \<open>Each kept block is copied to the beginning of the new buffer: the last one is what is there.\<close>

lemma fold_mem_write_last:
  assumes "ks \<noteq> []" "\<forall>k \<in> set ks. length k \<le> length b"
  shows "take (length (last ks)) (fold (\<lambda>k b. mem_write 0 k b) ks b) = last ks"
  using assms by (induction ks arbitrary: b rule: rev_induct) (auto simp: mem_write_def)

lemma remove_extra_eq:
  assumes d: "d = concat (map block_bytes bs)" "\<forall>b \<in> set bs. length (snd b) < 2 ^ 15"
    and removed: "\<exists>b \<in> set bs. fst b = h" and m: "malloc (length d) \<sigma> = (True, \<sigma>')"
  shows "\<exists>d'. zipRemoveExtraInfoBlock (Some d) h junk \<sigma> = Some (ZIP_OK, Some d', int (length (concat (kept_blocks h bs))), \<sigma>')
    \<and> length d' = length d
    \<and> (kept_blocks h bs \<noteq> [] \<longrightarrow> take (length (last (kept_blocks h bs))) d' = last (kept_blocks h bs))"
proof -
  let ?ks = "kept_blocks h bs"
  have fit: "length (block_bytes b) \<le> length d" if "b \<in> set bs" for b
    using that member_le_sum_list [of "length (block_bytes b)" "map (length \<circ> block_bytes) bs"]
    by (simp add: d(1) length_concat comp_def del: length_block)
  have ge: "4 \<le> length d" using removed fit by fastforce
  have split: "length (concat (map block_bytes xs)) = length (concat (kept_blocks h xs))
      + length (concat (map block_bytes (filter (\<lambda>b. fst b = h) xs)))" for xs
    by (induction xs) (auto simp: kept_blocks_def)
  have "filter (\<lambda>b. fst b = h) bs \<noteq> []" using removed by (simp add: filter_empty_conv)
  then have lt: "length (concat ?ks) < length d" unfolding d(1) split [of bs] by (cases "filter (\<lambda>b. fst b = h) bs") auto
  let ?junk = "buf_take (length d) junk" and ?f = "fold (\<lambda>k b. mem_write 0 k b) ?ks (buf_take (length d) junk)"
  have lj: "length ?junk = length d" by (simp add: buf_take_def)
  have kl: "\<forall>k \<in> set ?ks. length k \<le> length ?junk" using fit by (auto simp: kept_blocks_def lj simp del: length_block)
  have loop: "remove_extra_loop d h 0 0 ?junk = Some (int (length (concat ?ks)), ?f)"
    using remove_extra_loop_blocks [OF d(2), of ?junk "[]" h 0] fit by (simp add: d(1) [symmetric] lj)
  have lf: "length ?f = length d" using length_fold_mem_write [OF kl] lj by simp
  let ?d = "take (length (concat ?ks)) ?f @ replicate (length d - length (concat ?ks)) 0"
  have "zipRemoveExtraInfoBlock (Some d) h junk \<sigma> = Some (ZIP_OK, Some ?d, int (length (concat ?ks)), \<sigma>')"
    using ge m loop lt by (simp add: zipRemoveExtraInfoBlock_def)
  moreover have "take (length (last ?ks)) ?d = last ?ks" if ne: "?ks \<noteq> []"
  proof -
    have "length (last ?ks) \<le> length (concat ?ks)"
      by (subst append_butlast_last_id [OF ne, symmetric]) simp
    then show ?thesis using fold_mem_write_last [OF ne kl] lf lt by (simp add: min_def)
  qed
  ultimately show ?thesis using lf lt by (intro exI [of _ ?d]) auto
qed

end
