(* ===== verification/Dates.thy ===== *)
theory Dates
  imports ZipState UnzState
begin

text \<open>
  DOS dates: the packing of \<open>zip.c\<close> and the unpacking of \<open>unzip.c\<close> are inverse, up
  to the two-second resolution of the format.
\<close>

text \<open>A bit field read with a mask and a division.\<close>

lemma word_field:
  assumes "M = push_bit k (mask m)" "k + m \<le> 64" "D = 2 ^ k" "k < 64"
  shows "unat (((x :: 64 word) AND M) div D) = unat x div 2 ^ k mod 2 ^ m"
proof -
  have "drop_bit k (x AND push_bit k (mask m)) = take_bit m (drop_bit k x)"
    using assms(2) by (intro bit_word_eqI) (auto simp: bit_simps)
  moreover have "(x AND M) div D = drop_bit k (x AND M)"
    using assms(3,4) by (simp add: drop_bit_eq_div)
  ultimately have "unat ((x AND M) div D) = unat (take_bit m (drop_bit k x))" using assms(1) by simp
  also have "\<dots> = unat x div 2 ^ k mod 2 ^ m"
    unfolding unsigned_take_bit_eq unat_drop_bit by (rule take_bit_eq_mod)
  finally show ?thesis .
qed

lemma word_fields:
  "unat ((x :: 64 word) AND 0x1f) = unat x mod 32"
  "unat ((x AND 0x7E0) div 0x20) = unat x div 32 mod 64"
  "unat ((x AND 0xF800) div 0x800) = unat x div 2048 mod 32"
  "unat ((x AND 0x1E0) div 0x20) = unat x div 32 mod 16"
  "unat ((x AND 0x0FE00) div 0x0200) = unat x div 512 mod 128"
proof -
  have m: "(0x1f :: 64 word) = push_bit 0 (mask 5)" "(0x7E0 :: 64 word) = push_bit 5 (mask 6)"
    "(0xF800 :: 64 word) = push_bit 11 (mask 5)" "(0x1E0 :: 64 word) = push_bit 5 (mask 4)"
    "(0x0FE00 :: 64 word) = push_bit 9 (mask 7)"
    by (simp_all add: mask_eq_exp_minus_1 push_bit_eq_mult)
  show "unat ((x :: 64 word) AND 0x1f) = unat x mod 32"
    using word_field [OF m(1), of 1 x] by simp
  show "unat ((x AND 0x7E0) div 0x20) = unat x div 32 mod 64"
    using word_field [OF m(2), of "0x20" x] by simp
  show "unat ((x AND 0xF800) div 0x800) = unat x div 2048 mod 32"
    using word_field [OF m(3), of "0x800" x] by simp
  show "unat ((x AND 0x1E0) div 0x20) = unat x div 32 mod 16"
    using word_field [OF m(4), of "0x20" x] by simp
  show "unat ((x AND 0x0FE00) div 0x0200) = unat x div 512 mod 128"
    using word_field [OF m(5), of "0x0200" x] by simp
qed

lemma word_of_unat: "unat (a :: 'a::len word) = n \<Longrightarrow> a = of_nat n"
  by auto

lemma ucast_of_nat_64_32: "(ucast (of_nat n :: 64 word) :: 32 word) = of_nat n"
  by transfer (simp add: take_bit_of_nat)

lemma half_of_nat: "(x :: 32 word) div 2 = of_nat (unat x div 2)"
  by (rule word_of_unat) (simp add: unat_div)

text \<open>The two halves of a DOS date.\<close>

lemma dos_halves:
  assumes "unat (L :: 64 word) < 2 ^ 16" "unat (H :: 64 word) < 2 ^ 16"
  shows "unat (push_bit 16 H OR L) = 2 ^ 16 * unat H + unat L"
proof -
  have l: "take_bit 16 L = L" using assms(1)
    by (simp add: word_unat_eq_iff unsigned_take_bit_eq take_bit_nat_eq_self)
  have "bit L n \<Longrightarrow> n < 16" for n using l by (metis bit_take_bit_iff)
  then have "push_bit 16 H AND L = 0" by (intro bit_word_eqI) (fastforce simp: bit_simps)
  then have "push_bit 16 H OR L = push_bit 16 H + L" by (simp add: disjunctive_add_eq_or)
  also have "\<dots> = of_nat (2 ^ 16 * unat H + unat L)" by (simp add: push_bit_eq_mult mult.commute)
  finally have eq: "push_bit 16 H OR L = of_nat (2 ^ 16 * unat H + unat L)" .
  have "2 ^ 16 * unat H + unat L < 2 ^ LENGTH(64)" using assms by simp
  then show ?thesis unfolding eq by (rule unat_of_nat_small)
qed

text \<open>A sum of a 32-bit and a 64-bit term that stays in range.\<close>

lemma unat_ucast_plus:
  assumes "unat E + unat c * unat Y < 2 ^ 64"
  shows "unat (ucast (E :: 32 word) + c * Y :: 64 word) = unat E + unat c * unat Y"
proof -
  have "ucast E + c * Y = (of_nat (unat E + unat c * unat Y) :: 64 word)" by simp
  moreover have "unat E + unat c * unat Y < 2 ^ LENGTH(64)" using assms by simp
  ultimately show ?thesis by (simp only: unat_of_nat_small)
qed

lemma unat_ucast_64: "unat (ucast (x :: 32 word) :: 64 word) = unat x"
  by (simp add: unsigned_ucast_eq take_bit_nat_eq_self less_trans [OF unsigned_less])

definition dos_year :: "uInt \<Rightarrow> nat" where
  "dos_year y = (if unat y \<ge> 1980 then unat y - 1980 else if unat y \<ge> 80 then unat y - 80 else unat y)"

definition tm_ok :: "tm_zip \<Rightarrow> bool" where
  "tm_ok t \<longleftrightarrow> tm_sec t < 60 \<and> tm_min t < 60 \<and> tm_hour t < 24 \<and> tm_mday t < 32 \<and> tm_mon t < 12
     \<and> dos_year (tm_year t) < 128"

text \<open>The packed fields, for a date in range.\<close>

lemma TmzDateToDosDate_unat:
  assumes "tm_ok t"
  shows "unat (zip64local_TmzDateToDosDate t) =
    2 ^ 16 * (unat (tm_mday t) + 32 * (unat (tm_mon t) + 1) + 512 * dos_year (tm_year t))
    + (unat (tm_sec t) div 2 + 32 * unat (tm_min t) + 2048 * unat (tm_hour t))"
proof -
  have t: "unat (tm_sec t) < 60" "unat (tm_min t) < 60" "unat (tm_hour t) < 24" "unat (tm_mday t) < 32"
    "unat (tm_mon t) < 12" "dos_year (tm_year t) < 128"
    using assms by (simp_all add: tm_ok_def word_less_nat_alt)
  let ?D = "unat (tm_mday t) + 32 * (unat (tm_mon t) + 1)"
  have "tm_mday t + 32 * (tm_mon t + 1) = of_nat ?D" by simp
  moreover have "?D < 2 ^ LENGTH(32)" using t by simp
  ultimately have d32: "unat (tm_mday t + 32 * (tm_mon t + 1)) = ?D"
    by (simp only: unat_of_nat_small)
  let ?y = "ucast (tm_year t) :: 64 word"
  let ?year = "if ?y \<ge> 1980 then ?y - 1980 else if ?y \<ge> 80 then ?y - 80 else ?y"
  have y: "unat ?year = dos_year (tm_year t)"
    by (simp add: dos_year_def word_le_nat_alt unat_sub unat_ucast_64)
  have H: "unat (ucast (tm_mday t + 32 * (tm_mon t + 1)) + 512 * ?year) = ?D + 512 * dos_year (tm_year t)"
    using unat_ucast_plus [of "tm_mday t + 32 * (tm_mon t + 1)" 512 ?year] t
    unfolding d32 y by simp
  let ?L = "unat (tm_sec t) div 2 + 32 * unat (tm_min t)"
  have "tm_sec t div 2 = of_nat (unat (tm_sec t) div 2)" by (rule half_of_nat)
  then have "tm_sec t div 2 + 32 * tm_min t = of_nat ?L" by simp
  moreover have "?L < 2 ^ LENGTH(32)" using t by simp
  ultimately have l32: "unat (tm_sec t div 2 + 32 * tm_min t) = ?L" by (simp only: unat_of_nat_small)
  have L: "unat (ucast (tm_sec t div 2 + 32 * tm_min t) + 2048 * ucast (tm_hour t) :: 64 word)
      = ?L + 2048 * unat (tm_hour t)"
    using unat_ucast_plus [of "tm_sec t div 2 + 32 * tm_min t" 2048 "ucast (tm_hour t)"] t
    unfolding l32 unat_ucast_64 by simp
  show ?thesis
    unfolding zip64local_TmzDateToDosDate_def Let_def
    using dos_halves [of "ucast (tm_sec t div 2 + 32 * tm_min t) + 2048 * ucast (tm_hour t)"
        "ucast (tm_mday t + 32 * (tm_mon t + 1)) + 512 * ?year"] t
    unfolding H L by simp
qed

lemma split_field: "s < (n :: nat) \<Longrightarrow> (s + n * k) mod n = s \<and> (s + n * k) div n = k"
  by simp

lemma dos_arith:
  fixes s m h d mo y x :: nat
  assumes "s < 32" "m < 64" "h < 32" "d < 32" "mo < 16" "y < 128"
  shows "(65536 * x + (s + 32 * m + 2048 * h)) mod 32 = s"
    "(65536 * x + (s + 32 * m + 2048 * h)) div 32 mod 64 = m"
    "(65536 * x + (s + 32 * m + 2048 * h)) div 2048 mod 32 = h"
    "(d + 32 * mo + 512 * y) mod 32 = d" "(d + 32 * mo + 512 * y) div 32 mod 16 = mo"
    "(d + 32 * mo + 512 * y) div 512 mod 128 = y"
    "s + 32 * m + 2048 * h < 65536"
proof -
  have e: "65536 * x + (s + 32 * m + 2048 * h) = s + 32 * (m + 64 * (h + 32 * x))"
    "d + 32 * mo + 512 * y = d + 32 * (mo + 16 * y)" by simp_all
  have dv: "(a :: nat) div 2048 = a div 32 div 64" "a div 512 = a div 32 div 16" for a
    by (simp_all flip: div_mult2_eq)
  note sf = split_field [OF assms(1), of "m + 64 * (h + 32 * x)"] split_field [OF assms(2), of "h + 32 * x"]
    split_field [OF assms(3), of x] split_field [OF assms(4), of "mo + 16 * y"] split_field [OF assms(5), of y]
  show "(65536 * x + (s + 32 * m + 2048 * h)) mod 32 = s"
    "(65536 * x + (s + 32 * m + 2048 * h)) div 32 mod 64 = m"
    "(65536 * x + (s + 32 * m + 2048 * h)) div 2048 mod 32 = h"
    "(d + 32 * mo + 512 * y) mod 32 = d" "(d + 32 * mo + 512 * y) div 32 mod 16 = mo"
    "(d + 32 * mo + 512 * y) div 512 mod 128 = y"
    unfolding e dv using sf assms(6) by simp_all
  show "s + 32 * m + 2048 * h < 65536" using assms by linarith
qed

text \<open>The date \<open>unzip.c\<close> reads out of a packed date.\<close>

definition tmu_of :: "tm_zip \<Rightarrow> tm_unz" where
  "tmu_of t =
     \<lparr>tmu_sec = 2 * (tm_sec t div 2), tmu_min = tm_min t, tmu_hour = tm_hour t, tmu_mday = tm_mday t,
      tmu_mon = tm_mon t, tmu_year = of_nat (dos_year (tm_year t)) + 1980\<rparr>"

lemma DosDateToTmuDate_TmzDate:
  assumes "tm_ok t"
  shows "unz64local_DosDateToTmuDate (zip64local_TmzDateToDosDate t) = tmu_of t"
proof -
  let ?x = "zip64local_TmzDateToDosDate t"
  have t: "unat (tm_sec t) < 60" "unat (tm_min t) < 60" "unat (tm_hour t) < 24" "unat (tm_mday t) < 32"
    "unat (tm_mon t) < 12" "dos_year (tm_year t) < 128"
    using assms by (simp_all add: tm_ok_def word_less_nat_alt)
  note x = TmzDateToDosDate_unat [OF assms]
  let ?H = "unat (tm_mday t) + 32 * (unat (tm_mon t) + 1) + 512 * dos_year (tm_year t)"
  have b: "unat (tm_sec t) div 2 < 32" "unat (tm_min t) < 64" "unat (tm_hour t) < 32" "unat (tm_mday t) < 32"
    "unat (tm_mon t) + 1 < 16" "dos_year (tm_year t) < 128"
    using t by simp_all
  note ar = dos_arith(1-3) [OF b, of ?H] dos_arith(4-7) [OF b]
  have x': "unat ?x = 65536 * ?H + (unat (tm_sec t) div 2 + 32 * unat (tm_min t) + 2048 * unat (tm_hour t))"
    using x by simp
  have d: "unat (drop_bit 16 ?x) = ?H"
    unfolding unat_drop_bit x' using ar(7) by simp
  have f: "?x AND 0x1f = of_nat (unat (tm_sec t) div 2)"
    "(?x AND 0x7E0) div 0x20 = of_nat (unat (tm_min t))"
    "(?x AND 0xF800) div 0x800 = of_nat (unat (tm_hour t))"
    "drop_bit 16 ?x AND 0x1f = of_nat (unat (tm_mday t))"
    "(drop_bit 16 ?x AND 0x1E0) div 0x20 = of_nat (unat (tm_mon t) + 1)"
    "(drop_bit 16 ?x AND 0x0FE00) div 0x0200 = of_nat (dos_year (tm_year t))"
    by (rule word_of_unat, simp only: word_fields x' d ar)+
  have two: "2 * (of_nat (unat (tm_sec t) div 2) :: 64 word) = of_nat (2 * (unat (tm_sec t) div 2))"
    and mon: "(of_nat (unat (tm_mon t) + 1) :: 64 word) - 1 = of_nat (unat (tm_mon t))"
    and year: "of_nat (dos_year (tm_year t)) + (1980 :: 64 word) = of_nat (dos_year (tm_year t) + 1980)"
    by simp_all
  show ?thesis
    unfolding unz64local_DosDateToTmuDate_def Let_def f two mon year ucast_of_nat_64_32 tmu_of_def half_of_nat
    by simp
qed

end
