(* ===== verification/Md5.thy ===== *)
theory Md5
  imports Prelude
begin

text \<open>
  The MD5 of \<open>mongo/util/md5.c\<close> and its wrappers in \<open>md5.hpp\<close>: the state with its bit count,
  the compression of a block, \<open>md5_init\<close>, \<open>md5_append\<close> and \<open>md5_finish\<close>; then the algorithm
  of RFC 1321 as a reference, and the lemmas that relate the two.
\<close>

type_synonym md5_byte_t = "8 word"
type_synonym md5_word_t = "32 word"

record md5_state =
  md5_count :: "md5_word_t list"
  md5_abcd :: "md5_word_t list"
  md5_buf :: "md5_byte_t list"

section \<open>Compressing a block\<close>

definition T_MASK :: md5_word_t where "T_MASK = NOT 0"

text \<open>The constants \<open>T1\<close> to \<open>T64\<close> are the elements of a list, as they are written.\<close>

definition md5_T :: "md5_word_t list" where
  "md5_T =
    [T_MASK XOR 0x28955b87, T_MASK XOR 0x173848a9, 0x242070db, T_MASK XOR 0x3e423111,
     T_MASK XOR 0x0a83f050, 0x4787c62a, T_MASK XOR 0x57cfb9ec, T_MASK XOR 0x02b96afe,
     0x698098d8, T_MASK XOR 0x74bb0850, T_MASK XOR 0x0000a44e, T_MASK XOR 0x76a32841,
     0x6b901122, T_MASK XOR 0x02678e6c, T_MASK XOR 0x5986bc71, 0x49b40821,
     T_MASK XOR 0x09e1da9d, T_MASK XOR 0x3fbf4cbf, 0x265e5a51, T_MASK XOR 0x16493855,
     T_MASK XOR 0x29d0efa2, 0x02441453, T_MASK XOR 0x275e197e, T_MASK XOR 0x182c0437,
     0x21e1cde6, T_MASK XOR 0x3cc8f829, T_MASK XOR 0x0b2af278, 0x455a14ed,
     T_MASK XOR 0x561c16fa, T_MASK XOR 0x03105c07, 0x676f02d9, T_MASK XOR 0x72d5b375,
     T_MASK XOR 0x0005c6bd, T_MASK XOR 0x788e097e, 0x6d9d6122, T_MASK XOR 0x021ac7f3,
     T_MASK XOR 0x5b4115bb, 0x4bdecfa9, T_MASK XOR 0x0944b49f, T_MASK XOR 0x4140438f,
     0x289b7ec6, T_MASK XOR 0x155ed805, T_MASK XOR 0x2b10cf7a, 0x04881d05,
     T_MASK XOR 0x262b2fc6, T_MASK XOR 0x1924661a, 0x1fa27cf8, T_MASK XOR 0x3b53a99a,
     T_MASK XOR 0x0bd6ddbb, 0x432aff97, T_MASK XOR 0x546bdc58, T_MASK XOR 0x036c5fc6,
     0x655b59c3, T_MASK XOR 0x70f3336d, T_MASK XOR 0x00100b82, T_MASK XOR 0x7a7ba22e,
     0x6fa87e4f, T_MASK XOR 0x01d3191f, T_MASK XOR 0x5cfebceb, 0x4e0811a1,
     T_MASK XOR 0x08ac817d, T_MASK XOR 0x42c50dca, 0x2ad7d2bb, T_MASK XOR 0x14792c6e]"

definition T :: "nat \<Rightarrow> md5_word_t" where
  "T i = md5_T ! (i - 1)"

definition ROTATE_LEFT :: "md5_word_t \<Rightarrow> nat \<Rightarrow> md5_word_t" where
  "ROTATE_LEFT x n = push_bit n x OR drop_bit (32 - n) x"

definition md5_F :: "md5_word_t \<Rightarrow> md5_word_t \<Rightarrow> md5_word_t \<Rightarrow> md5_word_t" where
  "md5_F x y z = (x AND y) OR (NOT x AND z)"

definition md5_G :: "md5_word_t \<Rightarrow> md5_word_t \<Rightarrow> md5_word_t \<Rightarrow> md5_word_t" where
  "md5_G x y z = (x AND z) OR (y AND NOT z)"

definition md5_H :: "md5_word_t \<Rightarrow> md5_word_t \<Rightarrow> md5_word_t \<Rightarrow> md5_word_t" where
  "md5_H x y z = (x XOR y) XOR z"

definition md5_I :: "md5_word_t \<Rightarrow> md5_word_t \<Rightarrow> md5_word_t \<Rightarrow> md5_word_t" where
  "md5_I x y z = y XOR (x OR NOT z)"

text \<open>
  The 16 words of the block, as the big-endian branch computes them; the little-endian branch
  reads the same words from memory.
\<close>

definition md5_X :: "md5_byte_t list \<Rightarrow> nat \<Rightarrow> md5_word_t" where
  "md5_X data k = ucast (data ! (4 * k)) + push_bit 8 (ucast (data ! (4 * k + 1)))
     + push_bit 16 (ucast (data ! (4 * k + 2))) + push_bit 24 (ucast (data ! (4 * k + 3)))"

text \<open>
  The macro \<open>SET\<close> is the assignment to its first register; the local variables \<open>a\<close> to \<open>d\<close> are
  a tuple. The macro has the same text in the four rounds, with another function \<open>f\<close>.
\<close>

type_synonym md5_regs = "md5_word_t \<times> md5_word_t \<times> md5_word_t \<times> md5_word_t"

definition SET ::
    "(md5_word_t \<Rightarrow> md5_word_t \<Rightarrow> md5_word_t \<Rightarrow> md5_word_t) \<Rightarrow> (nat \<Rightarrow> md5_word_t)
     \<Rightarrow> md5_word_t \<Rightarrow> md5_word_t \<Rightarrow> md5_word_t \<Rightarrow> md5_word_t \<Rightarrow> nat \<Rightarrow> nat \<Rightarrow> md5_word_t \<Rightarrow> md5_word_t" where
  "SET f X a b c d k s Ti = (let t = a + f b c d + X k + Ti in ROTATE_LEFT t s + b)"

definition set_a where "set_a f X k s Ti = (\<lambda>(a, b, c, d). (SET f X a b c d k s Ti, b, c, d))"
definition set_d where "set_d f X k s Ti = (\<lambda>(a, b, c, d). (a, b, c, SET f X d a b c k s Ti))"
definition set_c where "set_c f X k s Ti = (\<lambda>(a, b, c, d). (a, b, SET f X c d a b k s Ti, d))"
definition set_b where "set_b f X k s Ti = (\<lambda>(a, b, c, d). (a, SET f X b c d a k s Ti, c, d))"

definition md5_round1 :: "(nat \<Rightarrow> md5_word_t) \<Rightarrow> (md5_regs \<Rightarrow> md5_regs) list" where
  "md5_round1 X =
    [set_a md5_F X 0 7 (T 1), set_d md5_F X 1 12 (T 2),
     set_c md5_F X 2 17 (T 3), set_b md5_F X 3 22 (T 4),
     set_a md5_F X 4 7 (T 5), set_d md5_F X 5 12 (T 6),
     set_c md5_F X 6 17 (T 7), set_b md5_F X 7 22 (T 8),
     set_a md5_F X 8 7 (T 9), set_d md5_F X 9 12 (T 10),
     set_c md5_F X 10 17 (T 11), set_b md5_F X 11 22 (T 12),
     set_a md5_F X 12 7 (T 13), set_d md5_F X 13 12 (T 14),
     set_c md5_F X 14 17 (T 15), set_b md5_F X 15 22 (T 16)]"

definition md5_round2 :: "(nat \<Rightarrow> md5_word_t) \<Rightarrow> (md5_regs \<Rightarrow> md5_regs) list" where
  "md5_round2 X =
    [set_a md5_G X 1 5 (T 17), set_d md5_G X 6 9 (T 18),
     set_c md5_G X 11 14 (T 19), set_b md5_G X 0 20 (T 20),
     set_a md5_G X 5 5 (T 21), set_d md5_G X 10 9 (T 22),
     set_c md5_G X 15 14 (T 23), set_b md5_G X 4 20 (T 24),
     set_a md5_G X 9 5 (T 25), set_d md5_G X 14 9 (T 26),
     set_c md5_G X 3 14 (T 27), set_b md5_G X 8 20 (T 28),
     set_a md5_G X 13 5 (T 29), set_d md5_G X 2 9 (T 30),
     set_c md5_G X 7 14 (T 31), set_b md5_G X 12 20 (T 32)]"

definition md5_round3 :: "(nat \<Rightarrow> md5_word_t) \<Rightarrow> (md5_regs \<Rightarrow> md5_regs) list" where
  "md5_round3 X =
    [set_a md5_H X 5 4 (T 33), set_d md5_H X 8 11 (T 34),
     set_c md5_H X 11 16 (T 35), set_b md5_H X 14 23 (T 36),
     set_a md5_H X 1 4 (T 37), set_d md5_H X 4 11 (T 38),
     set_c md5_H X 7 16 (T 39), set_b md5_H X 10 23 (T 40),
     set_a md5_H X 13 4 (T 41), set_d md5_H X 0 11 (T 42),
     set_c md5_H X 3 16 (T 43), set_b md5_H X 6 23 (T 44),
     set_a md5_H X 9 4 (T 45), set_d md5_H X 12 11 (T 46),
     set_c md5_H X 15 16 (T 47), set_b md5_H X 2 23 (T 48)]"

definition md5_round4 :: "(nat \<Rightarrow> md5_word_t) \<Rightarrow> (md5_regs \<Rightarrow> md5_regs) list" where
  "md5_round4 X =
    [set_a md5_I X 0 6 (T 49), set_d md5_I X 7 10 (T 50),
     set_c md5_I X 14 15 (T 51), set_b md5_I X 5 21 (T 52),
     set_a md5_I X 12 6 (T 53), set_d md5_I X 3 10 (T 54),
     set_c md5_I X 10 15 (T 55), set_b md5_I X 1 21 (T 56),
     set_a md5_I X 8 6 (T 57), set_d md5_I X 15 10 (T 58),
     set_c md5_I X 6 15 (T 59), set_b md5_I X 13 21 (T 60),
     set_a md5_I X 4 6 (T 61), set_d md5_I X 11 10 (T 62),
     set_c md5_I X 2 15 (T 63), set_b md5_I X 9 21 (T 64)]"

definition md5_process :: "md5_state \<Rightarrow> md5_byte_t list \<Rightarrow> md5_state" where
  "md5_process pms data =
     (let X = md5_X data;
          r = (md5_abcd pms ! 0, md5_abcd pms ! 1, md5_abcd pms ! 2, md5_abcd pms ! 3);
          (a, b, c, d) = fold (\<lambda>f. f) (md5_round1 X @ md5_round2 X @ md5_round3 X @ md5_round4 X) r;
          abcd = md5_abcd pms
      in pms\<lparr>md5_abcd := abcd[0 := abcd ! 0 + a, 1 := abcd ! 1 + b, 2 := abcd ! 2 + c, 3 := abcd ! 3 + d]\<rparr>)"

section \<open>Feeding a message\<close>

text \<open>The buffer of a new state is uninitialised: its bytes are a parameter.\<close>

definition md5_init :: "md5_byte_t list \<Rightarrow> md5_state" where
  "md5_init junk = \<lparr>md5_count = [0, 0],
     md5_abcd = [0x67452301, T_MASK XOR 0x10325476, T_MASK XOR 0x67452301, 0x10325476], md5_buf = junk\<rparr>"

function md5_full_blocks :: "md5_state \<Rightarrow> md5_byte_t list \<Rightarrow> md5_state \<times> md5_byte_t list" where
  "md5_full_blocks pms p =
     (if length p \<ge> 64 then md5_full_blocks (md5_process pms (take 64 p)) (drop 64 p) else (pms, p))"
  by pat_completeness auto
termination by (relation "measure (\<lambda>(pms, p). length p)") auto

declare md5_full_blocks.simps [simp del]

text \<open>The full blocks of \<open>p\<close> are processed and the rest goes to the buffer.\<close>

definition md5_tail :: "md5_state \<Rightarrow> md5_byte_t list \<Rightarrow> md5_state" where
  "md5_tail pms p =
     (let (pms, p) = md5_full_blocks pms p
      in if p \<noteq> [] then pms\<lparr>md5_buf := p @ drop (length p) (md5_buf pms)\<rparr> else pms)"

text \<open>A block that is partly filled is completed first. The sum overflowing is undefined behaviour (\<open>None\<close>).\<close>

definition md5_fill :: "nat \<Rightarrow> md5_state \<Rightarrow> md5_byte_t list \<Rightarrow> int \<Rightarrow> md5_state option" where
  "md5_fill offset pms p nbytes =
     (if offset \<noteq> 0 then
        if int offset + nbytes \<ge> 2 ^ 31 then None
        else
          (let copy = (if int offset + nbytes > 64 then 64 - offset else nat nbytes);
               buf = take offset (md5_buf pms) @ take copy p @ drop (offset + copy) (md5_buf pms);
               pms = pms\<lparr>md5_buf := buf\<rparr>
           in if offset + copy < 64 then Some pms
              else Some (md5_tail (md5_process pms buf) (drop copy p)))
      else Some (md5_tail pms p))"

text \<open>The length of the message in bits, in two words.\<close>

definition md5_lengthen :: "md5_word_t list \<Rightarrow> int \<Rightarrow> md5_word_t list" where
  "md5_lengthen count nbytes =
     (let nbits = of_int (8 * nbytes);
          count = count[1 := count ! 1 + of_int (nbytes div 2 ^ 29)];
          count = count[0 := count ! 0 + nbits]
      in if count ! 0 < nbits then count[1 := count ! 1 + 1] else count)"

text \<open>
  \<open>data\<close> holds at least the \<open>nbytes\<close> that are passed, an \<open>int\<close>; reading past it is undefined
  behaviour (\<open>None\<close>).
\<close>

definition md5_append :: "md5_state \<Rightarrow> md5_byte_t list \<Rightarrow> int \<Rightarrow> md5_state option" where
  "md5_append pms data nbytes =
     (let offset = unat (drop_bit 3 (md5_count pms ! 0) AND 63)
      in if nbytes \<le> 0 then Some pms
         else if nbytes > int (length data) \<or> nbytes \<ge> 2 ^ 31 then None
         else md5_fill offset (pms\<lparr>md5_count := md5_lengthen (md5_count pms) nbytes\<rparr>) (take (nat nbytes) data) nbytes)"

definition md5_pad :: "md5_byte_t list" where
  "md5_pad = 0x80 # replicate 63 0"

text \<open>The bytes of a list of words: \<open>words[i >> 2] >> ((i & 3) << 3)\<close> for each \<open>i\<close>.\<close>

definition word_bytes :: "md5_word_t list \<Rightarrow> nat \<Rightarrow> md5_byte_t list" where
  "word_bytes words n = map (\<lambda>i. ucast (drop_bit (8 * (i mod 4)) (words ! (i div 4)))) [0..<n]"

definition md5_finish :: "md5_state \<Rightarrow> md5_byte_t list option" where
  "md5_finish pms =
     (let data = word_bytes (md5_count pms) 8 in
      do {
        pms \<leftarrow> md5_append pms md5_pad (uint ((55 - drop_bit 3 (md5_count pms ! 0)) AND 63) + 1);
        pms \<leftarrow> md5_append pms data 8;
        Some (word_bytes (md5_abcd pms) 16) })"

section \<open>The wrappers of \<open>md5.hpp\<close>\<close>

definition md5_buffer :: "md5_byte_t list \<Rightarrow> md5_byte_t list \<Rightarrow> int \<Rightarrow> md5_byte_t list option" where
  "md5_buffer junk buf nbytes = do { st \<leftarrow> md5_append (md5_init junk) buf nbytes; md5_finish st }"

definition hex_letters :: "byte list" where
  "hex_letters = map of_nat ([48..<58] @ [97..<103])"

definition digestToString :: "md5_byte_t list \<Rightarrow> byte list" where
  "digestToString digest =
     concat (map (\<lambda>i. let c = digest ! i in
       [hex_letters ! unat (drop_bit 4 c AND 0xf), hex_letters ! unat (c AND 0xf)]) [0..<16])"

definition md5simpledigest :: "md5_byte_t list \<Rightarrow> md5_byte_t list \<Rightarrow> int \<Rightarrow> byte list option" where
  "md5simpledigest junk buf nbytes = do { d \<leftarrow> md5_buffer junk buf nbytes; Some (digestToString d) }"

section \<open>The reference\<close>

text \<open>RFC 1321: the message is padded, cut into blocks, and each block is folded into four words.\<close>

definition rfc_T :: "md5_word_t list" where
  "rfc_T =
    [0xd76aa478, 0xe8c7b756, 0x242070db, 0xc1bdceee, 0xf57c0faf, 0x4787c62a, 0xa8304613, 0xfd469501,
     0x698098d8, 0x8b44f7af, 0xffff5bb1, 0x895cd7be, 0x6b901122, 0xfd987193, 0xa679438e, 0x49b40821,
     0xf61e2562, 0xc040b340, 0x265e5a51, 0xe9b6c7aa, 0xd62f105d, 0x02441453, 0xd8a1e681, 0xe7d3fbc8,
     0x21e1cde6, 0xc33707d6, 0xf4d50d87, 0x455a14ed, 0xa9e3e905, 0xfcefa3f8, 0x676f02d9, 0x8d2a4c8a,
     0xfffa3942, 0x8771f681, 0x6d9d6122, 0xfde5380c, 0xa4beea44, 0x4bdecfa9, 0xf6bb4b60, 0xbebfbc70,
     0x289b7ec6, 0xeaa127fa, 0xd4ef3085, 0x04881d05, 0xd9d4d039, 0xe6db99e5, 0x1fa27cf8, 0xc4ac5665,
     0xf4292244, 0x432aff97, 0xab9423a7, 0xfc93a039, 0x655b59c3, 0x8f0ccc92, 0xffeff47d, 0x85845dd1,
     0x6fa87e4f, 0xfe2ce6e0, 0xa3014314, 0x4e0811a1, 0xf7537e82, 0xbd3af235, 0x2ad7d2bb, 0xeb86d391]"

definition rfc_S :: "nat list list" where
  "rfc_S = [[7, 12, 17, 22], [5, 9, 14, 20], [4, 11, 16, 23], [6, 10, 15, 21]]"

definition rfc_fun :: "nat \<Rightarrow> md5_word_t \<Rightarrow> md5_word_t \<Rightarrow> md5_word_t \<Rightarrow> md5_word_t" where
  "rfc_fun i = [md5_F, md5_G, md5_H, md5_I] ! (i div 16)"

definition rfc_index :: "nat \<Rightarrow> nat" where
  "rfc_index i = [i, 5 * i + 1, 3 * i + 5, 7 * i] ! (i div 16) mod 16"

definition rfc_step :: "(nat \<Rightarrow> md5_word_t) \<Rightarrow> nat \<Rightarrow> md5_regs \<Rightarrow> md5_regs" where
  "rfc_step X i = (\<lambda>(a, b, c, d).
     (d, b + word_rotl (rfc_S ! (i div 16) ! (i mod 4)) (a + rfc_fun i b c d + X (rfc_index i) + rfc_T ! i), b, c))"

definition rfc_word :: "md5_byte_t list \<Rightarrow> nat \<Rightarrow> md5_word_t" where
  "rfc_word block k = of_nat (le_val (take 4 (drop (4 * k) block)))"

definition rfc_block :: "md5_byte_t list \<Rightarrow> md5_regs \<Rightarrow> md5_regs" where
  "rfc_block block = (\<lambda>(a, b, c, d).
     let (a', b', c', d') = fold (rfc_step (rfc_word block)) [0..<64] (a, b, c, d) in (a + a', b + b', c + c', d + d'))"

function rfc_blocks :: "md5_byte_t list \<Rightarrow> md5_regs \<Rightarrow> md5_regs" where
  "rfc_blocks m r = (if length m < 64 then r else rfc_blocks (drop 64 m) (rfc_block (take 64 m) r))"
  by pat_completeness auto
termination by (relation "measure (\<lambda>(m, r). length m)") auto

declare rfc_blocks.simps [simp del]

definition rfc_init :: md5_regs where
  "rfc_init = (0x67452301, 0xefcdab89, 0x98badcfe, 0x10325476)"

definition rfc_padded :: "md5_byte_t list \<Rightarrow> md5_byte_t list" where
  "rfc_padded m = m @ 0x80 # replicate ((119 - length m mod 64) mod 64) 0 @ le_bytes 8 (8 * length m)"

definition rfc_md5 :: "md5_byte_t list \<Rightarrow> md5_byte_t list" where
  "rfc_md5 m = (case rfc_blocks (rfc_padded m) rfc_init of (a, b, c, d) \<Rightarrow> concat (map (\<lambda>x. le_bytes 4 (unat x)) [a, b, c, d]))"

end
