(* ===== verification/Md5Spec.thy ===== *)
theory Md5Spec
  imports Md5
begin

text \<open>
  The code of \<open>md5.c\<close> computes the algorithm of RFC 1321: the unrolled rounds are the indexed
  steps, and a message appended in pieces is the padded message cut into blocks.
\<close>

section \<open>A block\<close>

lemma md5_T_rfc: "md5_T = rfc_T"
  unfolding md5_T_def rfc_T_def T_MASK_def by simp

lemma ROTATE_LEFT_rotl:
  assumes "0 < n" "n < 32"
  shows "ROTATE_LEFT x n = word_rotl n x"
proof (rule bit_word_eqI)
  fix k assume k: "k < LENGTH(32)"
  show "bit (ROTATE_LEFT x n) k \<longleftrightarrow> bit (word_rotl n x) k"
  proof (cases "k < n")
    case True
    then have "(k + (32 - n)) mod 32 = 32 - n + k" using assms by simp
    then show ?thesis using True k assms
      by (simp add: ROTATE_LEFT_def bit_word_rotl_iff bit_or_iff bit_push_bit_iff bit_drop_bit_eq)
  next
    case False
    then have "(k + (32 - n)) mod 32 = k - n" "LENGTH(32) \<le> 32 - n + k" using k assms by (auto simp: mod_if)
    then show ?thesis using False k assms impossible_bit [of "32 - n + k" x]
      by (auto simp: ROTATE_LEFT_def bit_word_rotl_iff bit_or_iff bit_push_bit_iff bit_drop_bit_eq)
  qed
qed

text \<open>Four steps of the code, which rotate the roles of the registers, are four of the reference.\<close>

definition rfc_set ::
    "(md5_word_t \<Rightarrow> md5_word_t \<Rightarrow> md5_word_t \<Rightarrow> md5_word_t) \<Rightarrow> md5_word_t \<Rightarrow> nat \<Rightarrow> md5_word_t \<Rightarrow> md5_regs \<Rightarrow> md5_regs" where
  "rfc_set f x s t = (\<lambda>(a, b, c, d). (d, b + word_rotl s (a + f b c d + x + t), b, c))"

lemma SET_rotl: "0 < s \<Longrightarrow> s < 32 \<Longrightarrow> SET f X a b c d k s Ti = b + word_rotl s (a + f b c d + X k + Ti)"
  by (simp add: SET_def Let_def ROTATE_LEFT_rotl add.commute)

lemma quad:
  assumes "0 < s1" "s1 < 32" "0 < s2" "s2 < 32" "0 < s3" "s3 < 32" "0 < s4" "s4 < 32"
  shows "set_b f X k4 s4 t4 (set_c f X k3 s3 t3 (set_d f X k2 s2 t2 (set_a f X k1 s1 t1 r)))
    = rfc_set f (X k4) s4 t4 (rfc_set f (X k3) s3 t3 (rfc_set f (X k2) s2 t2 (rfc_set f (X k1) s1 t1 r)))"
proof -
  obtain a b c d where r: "r = (a, b, c, d)" by (metis prod_cases4)
  note rot = SET_rotl [OF assms(1,2)] SET_rotl [OF assms(3,4)] SET_rotl [OF assms(5,6)] SET_rotl [OF assms(7,8)]
  show ?thesis unfolding r set_a_def set_b_def set_c_def set_d_def rfc_set_def prod.case rot ..
qed

lemma rfc_step_set:
  "rfc_step X i = rfc_set (rfc_fun i) (X (rfc_index i)) (rfc_S ! (i div 16) ! (i mod 4)) (rfc_T ! i)"
  by (simp add: rfc_step_def rfc_set_def)

lemma upt_round:
  "[0..<16] = [0, 1, 2, 3, 4, 5, 6, 7, 8, 9, 10, 11, 12, 13, 14, 15]"
  "[16..<32] = [16, 17, 18, 19, 20, 21, 22, 23, 24, 25, 26, 27, 28, 29, 30, 31]"
  "[32..<48] = [32, 33, 34, 35, 36, 37, 38, 39, 40, 41, 42, 43, 44, 45, 46, 47]"
  "[48..<64] = [48, 49, 50, 51, 52, 53, 54, 55, 56, 57, 58, 59, 60, 61, 62, 63]"
  by (simp_all add: upt_rec)

lemmas round_simps = quad upt_round rfc_step_set rfc_fun_def rfc_index_def rfc_S_def T_def md5_T_rfc

lemma round1: "fold (\<lambda>f. f) (md5_round1 X) r = fold (rfc_step X) [0..<16] r"
  unfolding md5_round1_def by (simp add: round_simps)

lemma round2: "fold (\<lambda>f. f) (md5_round2 X) r = fold (rfc_step X) [16..<32] r"
  unfolding md5_round2_def by (simp add: round_simps)

lemma round3: "fold (\<lambda>f. f) (md5_round3 X) r = fold (rfc_step X) [32..<48] r"
  unfolding md5_round3_def by (simp add: round_simps)

lemma round4: "fold (\<lambda>f. f) (md5_round4 X) r = fold (rfc_step X) [48..<64] r"
  unfolding md5_round4_def by (simp add: round_simps)

lemma rounds_eq:
  "fold (\<lambda>f. f) (md5_round1 X @ md5_round2 X @ md5_round3 X @ md5_round4 X) r = fold (rfc_step X) [0..<64] r"
proof -
  have "[0..<64] = [0..<16] @ [16..<32] @ [32..<48] @ [48..<64]"
    using upt_add_eq_append [of 0 16 48] upt_add_eq_append [of 16 32 32] upt_add_eq_append [of 32 48 16] by simp
  then show ?thesis by (simp only: fold_append comp_def round1 round2 round3 round4)
qed

text \<open>The words of a block.\<close>

lemma md5_X_rfc:
  assumes "4 * k + 3 < length block"
  shows "md5_X block k = rfc_word block k"
proof -
  let ?d = "drop (4 * k) block"
  have "take 4 ?d = [block ! (4 * k), block ! (4 * k + 1), block ! (4 * k + 2), block ! (4 * k + 3)]"
    using assms by (intro nth_equalityI) (auto simp: less_Suc_eq numeral_eq_Suc)
  moreover have "ucast b = (of_nat (unat b) :: 32 word)" for b :: byte by simp
  ultimately show ?thesis
    by (simp add: md5_X_def rfc_word_def push_bit_eq_mult)
qed

definition regs :: "md5_state \<Rightarrow> md5_regs" where
  "regs pms = (md5_abcd pms ! 0, md5_abcd pms ! 1, md5_abcd pms ! 2, md5_abcd pms ! 3)"

lemma process_eq:
  assumes "length block = 64" "length (md5_abcd pms) = 4"
  shows "\<exists>abcd. md5_process pms block = pms\<lparr>md5_abcd := abcd\<rparr> \<and> length abcd = 4
    \<and> regs (pms\<lparr>md5_abcd := abcd\<rparr>) = rfc_block block (regs pms)"
proof -
  have "rfc_step (md5_X block) i = rfc_step (rfc_word block) i" for i
  proof -
    have "rfc_index i < 16" by (simp add: rfc_index_def)
    then show ?thesis using assms(1) by (simp add: rfc_step_def md5_X_rfc)
  qed
  then have f: "fold (rfc_step (md5_X block)) xs r = fold (rfc_step (rfc_word block)) xs r" for xs r by presburger
  obtain a b c d where r: "fold (rfc_step (rfc_word block)) [0..<64] (regs pms) = (a, b, c, d)" by (metis prod_cases4)
  let ?abcd = "(md5_abcd pms)[0 := md5_abcd pms ! 0 + a, 1 := md5_abcd pms ! 1 + b, 2 := md5_abcd pms ! 2 + c, 3 := md5_abcd pms ! 3 + d]"
  have "md5_process pms block = pms\<lparr>md5_abcd := ?abcd\<rparr>"
    unfolding md5_process_def Let_def rounds_eq f using r by (simp add: regs_def)
  moreover have "regs (pms\<lparr>md5_abcd := ?abcd\<rparr>) = rfc_block block (regs pms)"
    using assms(2) r by (simp add: regs_def rfc_block_def)
  ultimately show ?thesis using assms(2) by (intro exI [of _ ?abcd]) simp
qed

section \<open>A message\<close>

lemma rfc_blocks_short: "length m < 64 \<Longrightarrow> rfc_blocks m r = r"
  by (simp add: rfc_blocks.simps [of m])

lemma rfc_blocks_64: "length b = 64 \<Longrightarrow> rfc_blocks (b @ n) r = rfc_blocks n (rfc_block b r)"
  by (simp add: rfc_blocks.simps [of "b @ n"])

lemma rfc_blocks_append:
  "64 dvd length m \<Longrightarrow> rfc_blocks (m @ n) r = rfc_blocks n (rfc_blocks m r)"
proof (induction m r rule: rfc_blocks.induct)
  case (1 m r)
  show ?case
  proof (cases "m = []")
    case False
    then have "64 \<le> length m" using 1(2) by (intro dvd_imp_le) auto
    then show ?thesis using 1 by (subst (1 3) rfc_blocks.simps) simp
  qed (simp add: rfc_blocks_short)
qed

text \<open>The part of a message that is not processed yet.\<close>

definition rest64 :: "md5_byte_t list \<Rightarrow> md5_byte_t list" where
  "rest64 m = drop (64 * (length m div 64)) m"

lemma length_rest64 [simp]: "length (rest64 m) = length m mod 64"
  by (simp add: rest64_def minus_mult_div_eq_mod)

lemma rest64_split: "\<exists>f. m = f @ rest64 m \<and> 64 dvd length f"
  by (intro exI [of _ "take (64 * (length m div 64)) m"]) (simp add: rest64_def)

lemma rfc_blocks_rest: "rfc_blocks (m @ n) r = rfc_blocks (rest64 m @ n) (rfc_blocks m r)"
proof -
  obtain f where f: "m = f @ rest64 m" "64 dvd length f" using rest64_split by blast
  have "rfc_blocks m r = rfc_blocks (rest64 m) (rfc_blocks f r)" using rfc_blocks_append [OF f(2)] f(1) by metis
  then have "rfc_blocks m r = rfc_blocks f r" by (simp add: rfc_blocks_short)
  then show ?thesis using rfc_blocks_append [OF f(2), of "rest64 m @ n" r] f(1) by (metis append.assoc)
qed

lemma rest64_append: "64 dvd length f \<Longrightarrow> rest64 (f @ m) = rest64 m"
  by (auto simp: rest64_def)

lemma rest64_rest: "rest64 (m @ n) = rest64 (rest64 m @ n)"
  by (metis rest64_split rest64_append append.assoc)

lemma rest64_short: "length m < 64 \<Longrightarrow> rest64 m = m"
  by (simp add: rest64_def)

lemma full_blocks_eq:
  "length (md5_abcd pms) = 4 \<Longrightarrow> \<exists>abcd. md5_full_blocks pms p = (pms\<lparr>md5_abcd := abcd\<rparr>, rest64 p) \<and> length abcd = 4
    \<and> regs (pms\<lparr>md5_abcd := abcd\<rparr>) = rfc_blocks p (regs pms)"
proof (induction pms p rule: md5_full_blocks.induct)
  case (1 pms p)
  show ?case
  proof (cases "64 \<le> length p")
    case True
    then have "length (take 64 p) = 64" by simp
    from process_eq [OF this 1(2)] obtain x where x: "md5_process pms (take 64 p) = pms\<lparr>md5_abcd := x\<rparr>" "length x = 4"
      "regs (pms\<lparr>md5_abcd := x\<rparr>) = rfc_block (take 64 p) (regs pms)" by blast
    from 1(1) [OF True] x obtain y where y: "md5_full_blocks (pms\<lparr>md5_abcd := x\<rparr>) (drop 64 p) = (pms\<lparr>md5_abcd := y\<rparr>, rest64 (drop 64 p))"
      "length y = 4" "regs (pms\<lparr>md5_abcd := y\<rparr>) = rfc_blocks (drop 64 p) (regs (pms\<lparr>md5_abcd := x\<rparr>))"
      by auto
    have "rest64 (take 64 p @ drop 64 p) = rest64 (drop 64 p)" by (rule rest64_append) (use True in simp)
    then have "rest64 (drop 64 p) = rest64 p" by simp
    then show ?thesis using True x y by (intro exI [of _ y]) (simp add: md5_full_blocks.simps [of pms p] rfc_blocks.simps [of p])
  next
    case False
    then show ?thesis using 1(2)
      by (intro exI [of _ "md5_abcd pms"]) (simp add: md5_full_blocks.simps [of pms p] rfc_blocks_short rest64_short)
  qed
qed

text \<open>The state after the message \<open>m\<close>.\<close>

definition bit_count :: "nat \<Rightarrow> md5_word_t list" where
  "bit_count n = [of_nat (8 * n), of_nat (8 * n div 2 ^ 32)]"

definition md5_inv :: "md5_byte_t list \<Rightarrow> md5_state \<Rightarrow> bool" where
  "md5_inv m pms \<longleftrightarrow> md5_count pms = bit_count (length m) \<and> length (md5_abcd pms) = 4
     \<and> regs pms = rfc_blocks m rfc_init \<and> length (md5_buf pms) = 64
     \<and> take (length m mod 64) (md5_buf pms) = rest64 m"

lemma md5_init_inv:
  assumes "length junk = 64"
  shows "md5_inv [] (md5_init junk)"
  using assms by (simp add: md5_inv_def md5_init_def bit_count_def regs_def rfc_blocks_short rfc_init_def T_MASK_def rest64_def)

lemma offset_eq: "unat (drop_bit 3 (bit_count n ! 0) AND 63) = n mod 64"
proof -
  have take: "unat (y AND 63) = unat y mod 2 ^ 6" for y :: "32 word"
  proof -
    have "y AND 63 = take_bit 6 y" by (simp add: take_bit_eq_mask mask_eq_exp_minus_1)
    then have "unat (y AND 63) = take_bit 6 (unat y)" by (simp add: unsigned_take_bit_eq)
    then show ?thesis by (simp only: take_bit_eq_mod)
  qed
  have u: "unat (of_nat (8 * n) :: 32 word) = 8 * n mod 2 ^ 32" by (simp only: unat_of_nat) simp
  have "8 * n mod (8 * 2 ^ 29) div 8 = n mod 2 ^ 29" by (simp only: mod_mult_mult1)
  then have "8 * n mod 2 ^ 32 div 2 ^ 3 mod 2 ^ 6 = n mod 64" using mod_mod_cancel [of 64 "2 ^ 29" n] by simp
  then show ?thesis unfolding take unat_drop_bit bit_count_def nth_Cons_0 u .
qed

lemma mod_less_iff_carry:
  fixes x y :: nat
  assumes "x < c" "y < c"
  shows "(x + y) mod c < y \<longleftrightarrow> c \<le> x + y"
  using assms by (cases "x + y < c") (auto simp: le_mod_geq)

lemma less_iff_carry: "(a + b < b) \<longleftrightarrow> 2 ^ 32 \<le> unat a + unat (b :: 32 word)"
  unfolding word_less_nat_alt unat_word_ariths
  using mod_less_iff_carry [of "unat a" "2 ^ 32" "unat b"] unsigned_less [of a, where ?'a = nat] unsigned_less [of b, where ?'a = nat]
  by simp

lemma div_add_carry:
  fixes a b c :: nat
  assumes "0 < c"
  shows "(a + b) div c = a div c + b div c + (if c \<le> a mod c + b mod c then 1 else 0)"
proof -
  have "a mod c + b mod c < 2 * c" using mod_less_divisor [OF assms, of a] mod_less_divisor [OF assms, of b] by linarith
  then have "(a mod c + b mod c) div c = (if c \<le> a mod c + b mod c then 1 else 0)"
    by (auto simp: le_div_geq)
  then show ?thesis by (simp add: div_add1_eq [of a b])
qed

lemma lengthen_eq: "md5_lengthen (bit_count n) (int k) = bit_count (n + k)"
proof -
  let ?a = "of_nat (8 * n) :: 32 word" and ?b = "of_nat (8 * k) :: 32 word"
  have u: "unat ?a = 8 * n mod 2 ^ 32" "unat ?b = 8 * k mod 2 ^ 32" by (simp_all only: unat_of_nat) simp_all
  have carry: "?a + ?b < ?b \<longleftrightarrow> 2 ^ 32 \<le> 8 * n mod 2 ^ 32 + 8 * k mod 2 ^ 32"
    unfolding less_iff_carry u ..
  have "8 * k div 2 ^ 32 = k div 2 ^ 29" using div_mult_mult1 [of 8 k "2 ^ 29"] by simp
  then have "8 * (n + k) div 2 ^ 32 = 8 * n div 2 ^ 32 + k div 2 ^ 29 + (if 2 ^ 32 \<le> 8 * n mod 2 ^ 32 + 8 * k mod 2 ^ 32 then 1 else 0)"
    using div_add_carry [of "2 ^ 32" "8 * n" "8 * k"] by (simp only: distrib_left) simp
  then have "(of_nat (8 * (n + k) div 2 ^ 32) :: 32 word) = of_nat (8 * n div 2 ^ 32) + of_nat (k div 2 ^ 29)
      + (if ?a + ?b < ?b then 1 else 0)"
    unfolding carry
    by (cases "2 ^ 32 \<le> 8 * n mod 2 ^ 32 + 8 * k mod 2 ^ 32") (simp_all only: if_True if_False add_0_right of_nat_add of_nat_1)
  moreover have "(of_nat (8 * (n + k)) :: 32 word) = ?a + ?b" by (simp add: algebra_simps)
  moreover have "(of_int (8 * int k) :: 32 word) = ?b" by simp
  moreover have "(of_int (int k div 2 ^ 29) :: 32 word) = of_nat (k div 2 ^ 29)"
    by (metis of_int_of_nat_eq of_nat_div of_nat_numeral of_nat_power)
  ultimately show ?thesis by (simp only: md5_lengthen_def bit_count_def Let_def) simp
qed

text \<open>Appending extends the message.\<close>

lemma tail_inv:
  assumes "length (md5_abcd pms) = 4" "length (md5_buf pms) = 64" "md5_count pms = bit_count (length m)"
    "rfc_blocks p (regs pms) = rfc_blocks m rfc_init" "rest64 p = rest64 m"
  shows "md5_inv m (md5_tail pms p)"
proof -
  obtain abcd where f: "md5_full_blocks pms p = (pms\<lparr>md5_abcd := abcd\<rparr>, rest64 p)" "length abcd = 4"
    "regs (pms\<lparr>md5_abcd := abcd\<rparr>) = rfc_blocks p (regs pms)" using full_blocks_eq [OF assms(1)] by blast
  have "length (rest64 m) < 64" by simp
  moreover have "regs (r\<lparr>md5_buf := b\<rparr>) = regs r" for r b by (simp add: regs_def)
  moreover have "length m mod 64 = 0 \<longleftrightarrow> rest64 m = []" by (metis length_0_conv length_rest64)
  ultimately show ?thesis
    using assms f by (auto simp: md5_inv_def md5_tail_def)
qed

lemma regs_update [simp]: "regs (r\<lparr>md5_buf := b\<rparr>) = regs r" "regs (r\<lparr>md5_count := c\<rparr>) = regs r"
  by (simp_all add: regs_def)

lemma fill_inv:
  assumes st: "length (md5_abcd pms) = 4" "regs pms = rfc_blocks m rfc_init" "length (md5_buf pms) = 64"
      "take (length m mod 64) (md5_buf pms) = rest64 m" "md5_count pms = bit_count (length (m @ p))"
    and p: "p \<noteq> []" "length p + 64 \<le> 2 ^ 31"
  shows "\<exists>pms'. md5_fill (length m mod 64) pms p (int (length p)) = Some pms' \<and> md5_inv (m @ p) pms'"
proof -
  define off where "off = length m mod 64"
  have off: "off < 64" "length (rest64 m) = off" "take off (md5_buf pms) = rest64 m"
    using st(4) by (simp_all add: off_def)
  have small: "int off + int (length p) < 2 ^ 31" using off(1) p(2) by simp
  have blocks: "rfc_blocks (m @ p) rfc_init = rfc_blocks (rest64 m @ p) (regs pms)" unfolding st(2) by (rule rfc_blocks_rest)
  have rest: "rest64 (m @ p) = rest64 (rest64 m @ p)" by (rule rest64_rest)
  consider (zero) "off = 0" | (part) "off \<noteq> 0" "off + length p < 64" | (full) "off \<noteq> 0" "64 \<le> off + length p" by linarith
  then have "\<exists>pms'. md5_fill off pms p (int (length p)) = Some pms' \<and> md5_inv (m @ p) pms'"
  proof cases
    case zero
    then have "rest64 m = []" using off(2) by (metis length_0_conv)
    with tail_inv [OF st(1,3,5), of p] blocks rest zero show ?thesis by (simp add: md5_fill_def)
  next
    case part
    let ?buf = "rest64 m @ p @ drop (off + length p) (md5_buf pms)"
    have run: "md5_fill off pms p (int (length p)) = Some (pms\<lparr>md5_buf := ?buf\<rparr>)"
      using part small off by (simp add: md5_fill_def Let_def)
    have "rest64 (m @ p) = rest64 m @ p" using rest rest64_short [of "rest64 m @ p"] part off by simp
    moreover from this have "length (m @ p) mod 64 = off + length p" using length_rest64 [of "m @ p"] off by simp
    moreover have "rfc_blocks (m @ p) rfc_init = regs pms" using blocks part off by (simp add: rfc_blocks_short)
    ultimately have "md5_inv (m @ p) (pms\<lparr>md5_buf := ?buf\<rparr>)" using st off part by (simp add: md5_inv_def)
    with run show ?thesis by blast
  next
    case full
    let ?copy = "64 - off" and ?buf = "rest64 m @ take (64 - off) p"
    have copy: "(if int off + int (length p) > 64 then 64 - off else nat (int (length p))) = ?copy" using full by auto
    have lb: "length ?buf = 64" using full off by simp
    have run: "md5_fill off pms p (int (length p)) = Some (md5_tail (md5_process (pms\<lparr>md5_buf := ?buf\<rparr>) ?buf) (drop ?copy p))"
      using full small off st(3) unfolding md5_fill_def copy by (simp add: Let_def)
    obtain x where x: "md5_process (pms\<lparr>md5_buf := ?buf\<rparr>) ?buf = pms\<lparr>md5_buf := ?buf, md5_abcd := x\<rparr>" "length x = 4"
      "regs (pms\<lparr>md5_buf := ?buf, md5_abcd := x\<rparr>) = rfc_block ?buf (regs pms)"
      using process_eq [OF lb, of "pms\<lparr>md5_buf := ?buf\<rparr>"] st(1) by auto
    have whole: "rest64 m @ p = ?buf @ drop ?copy p" by simp
    have "rfc_blocks (rest64 m @ p) (regs pms) = rfc_blocks (drop ?copy p) (rfc_block ?buf (regs pms))"
      unfolding whole by (rule rfc_blocks_64 [OF lb])
    moreover have "rest64 (rest64 m @ p) = rest64 (drop ?copy p)"
      unfolding whole by (rule rest64_append) (use lb in simp)
    ultimately have "md5_inv (m @ p) (md5_tail (pms\<lparr>md5_buf := ?buf, md5_abcd := x\<rparr>) (drop ?copy p))"
      using x blocks rest lb st(5) by (intro tail_inv) simp_all
    with run x(1) show ?thesis by simp
  qed
  then show ?thesis by (simp add: off_def)
qed

lemma append_inv:
  assumes inv: "md5_inv m pms" and k: "nbytes = int k" "k \<le> length data" "k + 64 \<le> 2 ^ 31"
  shows "\<exists>pms'. md5_append pms data nbytes = Some pms' \<and> md5_inv (m @ take k data) pms'"
proof (cases "k = 0")
  case True
  with inv k show ?thesis by (simp add: md5_append_def Let_def)
next
  case False
  let ?q = "pms\<lparr>md5_count := md5_lengthen (md5_count pms) nbytes\<rparr>"
  have lk: "length (take k data) = k" using k(2) by simp
  have run: "md5_append pms data nbytes = md5_fill (length m mod 64) ?q (take k data) (int (length (take k data)))"
    using inv k False by (simp add: md5_append_def md5_inv_def offset_eq Let_def)
  have "md5_count ?q = bit_count (length (m @ take k data))" using inv k lk by (simp add: md5_inv_def lengthen_eq)
  then show ?thesis unfolding run using inv k lk False
    by (intro fill_inv) (auto simp: md5_inv_def)
qed

section \<open>The padding and the digest\<close>

lemma le_bytes_map: "le_bytes n x = map (\<lambda>i. of_nat (x div 256 ^ i)) [0..<n]"
proof (induction n arbitrary: x)
  case (Suc n)
  have "map (\<lambda>i. of_nat (x div 256 ^ i)) [0..<Suc n] = (of_nat x :: byte) # map (\<lambda>i. of_nat (x div 256 div 256 ^ i)) [0..<n]"
    unfolding upt_conv_Cons [OF zero_less_Suc] map_Suc_upt [symmetric] by (simp add: div_mult2_eq)
  then show ?case by (simp only: le_bytes.simps Suc.IH)
qed simp

lemma word_byte:
  assumes "i < 4"
  shows "(ucast (drop_bit (8 * i) (of_nat x :: 32 word)) :: byte) = of_nat (x div 256 ^ i)"
proof -
  have "unat (ucast (drop_bit (8 * i) (of_nat x :: 32 word)) :: byte) = take_bit 8 (drop_bit (8 * i) (take_bit 32 x))"
    by (simp add: unsigned_ucast_eq unat_drop_bit_eq unsigned_of_nat)
  also have "\<dots> = take_bit 8 (drop_bit (8 * i) x)"
  proof -
    have "min 8 (32 - 8 * i) = 8" using assms by linarith
    then show ?thesis by (simp only: drop_bit_take_bit take_bit_take_bit)
  qed
  also have "\<dots> = unat (of_nat (x div 256 ^ i) :: byte)"
    by (simp add: unsigned_of_nat drop_bit_eq_div power_mult)
  finally show ?thesis by (simp only: word_unat_eq_iff)
qed

lemma word_bytes_count: "word_bytes (bit_count n) 8 = le_bytes 8 (8 * n)"
proof -
  have "[0..<8] = [0, 1, 2, 3, 4, 5, 6, 7]" by (simp add: upt_rec)
  then show ?thesis
    using word_byte [of 0 "8 * n"] word_byte [of 1 "8 * n"] word_byte [of 2 "8 * n"] word_byte [of 3 "8 * n"]
      word_byte [of 0 "8 * n div 2 ^ 32"] word_byte [of 1 "8 * n div 2 ^ 32"] word_byte [of 2 "8 * n div 2 ^ 32"]
      word_byte [of 3 "8 * n div 2 ^ 32"]
    by (simp add: word_bytes_def bit_count_def le_bytes_map div_mult2_eq [symmetric] del: of_nat_mult)
qed

lemma word_bytes_abcd:
  "word_bytes [a, b, c, d] 16 = concat (map (\<lambda>x. le_bytes 4 (unat x)) [a, b, c, d])"
proof -
  have "[0..<16] = [0, 1, 2, 3, 4, 5, 6, 7, 8, 9, 10, 11, 12, 13, 14, 15]" "[0..<4] = [0, 1, 2, 3]" by (simp_all add: upt_rec)
  moreover have "(ucast (drop_bit 8 x) :: byte) = of_nat (unat x div 256)" "(ucast (drop_bit 16 x) :: byte) = of_nat (unat x div 65536)"
    "(ucast (drop_bit 24 x) :: byte) = of_nat (unat x div 16777216)" for x :: "32 word"
    using word_byte [of 1 "unat x"] word_byte [of 2 "unat x"] word_byte [of 3 "unat x"] by simp_all
  ultimately show ?thesis by (simp add: word_bytes_def le_bytes_map)
qed

lemma pad_length: "uint ((55 - drop_bit 3 (bit_count n ! 0)) AND 63) + 1 = int (Suc ((119 - n mod 64) mod 64))"
proof -
  have take: "uint (y AND 63) = uint y mod 64" for y :: "32 word"
  proof -
    have "y AND 63 = take_bit 6 y" by (simp add: take_bit_eq_mask mask_eq_exp_minus_1)
    then have "uint (y AND 63) = take_bit 6 (uint y)" by (simp add: unsigned_take_bit_eq)
    then show ?thesis by (simp add: take_bit_eq_mod)
  qed
  have w: "uint (drop_bit 3 (bit_count n ! 0)) mod 64 = int (n mod 64)"
  proof -
    have "uint (drop_bit 3 (bit_count n ! 0) AND 63) = int (n mod 64)" unfolding uint_nat offset_eq ..
    then show ?thesis by (simp only: take)
  qed
  have "uint (55 - v :: 32 word) mod 64 = (55 - uint v mod 64) mod 64" for v
    by (simp add: uint_word_ariths mod_mod_cancel mod_diff_right_eq)
  then have "uint ((55 - drop_bit 3 (bit_count n ! 0)) AND 63) = (55 - int (n mod 64)) mod 64" unfolding take w by (simp add: w)
  also have "\<dots> = int ((119 - n mod 64) mod 64)"
  proof -
    have "int ((119 - n mod 64) mod 64) = (119 - int (n mod 64)) mod 64"
      using mod_less_divisor [of 64 n] by (simp add: zmod_int of_nat_diff)
    also have "119 - int (n mod 64) = (55 - int (n mod 64)) + 64" by simp
    finally show ?thesis by (simp only: mod_add_self2)
  qed
  finally show ?thesis by simp
qed

lemma take_pad: "z < 64 \<Longrightarrow> take (Suc z) md5_pad = 0x80 # replicate z 0"
  by (simp add: md5_pad_def)

lemma finish_eq:
  assumes inv: "md5_inv m pms"
  shows "md5_finish pms = Some (rfc_md5 m)"
proof -
  define z where "z = (119 - length m mod 64) mod 64"
  have z: "z < 64" by (simp add: z_def)
  have cnt: "md5_count pms = bit_count (length m)" using inv by (simp add: md5_inv_def)
  have pad: "uint ((55 - drop_bit 3 (md5_count pms ! 0)) AND 63) + 1 = int (Suc z)"
    unfolding cnt z_def by (rule pad_length)
  obtain p1 where p1: "md5_append pms md5_pad (int (Suc z)) = Some p1" "md5_inv (m @ take (Suc z) md5_pad) p1"
    using append_inv [OF inv refl, of "Suc z" md5_pad] z by (auto simp: md5_pad_def)
  obtain p2 where p2: "md5_append p1 (le_bytes 8 (8 * length m)) 8 = Some p2"
    "md5_inv ((m @ take (Suc z) md5_pad) @ take 8 (le_bytes 8 (8 * length m))) p2"
    using append_inv [OF p1(2), of 8 8 "le_bytes 8 (8 * length m)"] by auto
  have "(m @ take (Suc z) md5_pad) @ take 8 (le_bytes 8 (8 * length m)) = rfc_padded m"
    by (simp add: take_pad [OF z] rfc_padded_def z_def [symmetric])
  then have "rfc_blocks (rfc_padded m) rfc_init = regs p2" "length (md5_abcd p2) = 4"
    using p2(2) by (simp_all add: md5_inv_def)
  moreover obtain a b c d where abcd: "md5_abcd p2 = [a, b, c, d]"
    using calculation(2) by (auto simp: length_Suc_conv numeral_eq_Suc)
  ultimately have "rfc_md5 m = word_bytes (md5_abcd p2) 16"
    by (simp add: regs_def rfc_md5_def word_bytes_abcd)
  with p1(1) p2(1) show ?thesis
    unfolding md5_finish_def Let_def pad by (simp add: cnt word_bytes_count)
qed

text \<open>A client that feeds a message in pieces.\<close>

fun append_all :: "md5_state \<Rightarrow> md5_byte_t list list \<Rightarrow> md5_state option" where
  "append_all pms [] = Some pms"
| "append_all pms (c # cs) = do { pms \<leftarrow> md5_append pms c (int (length c)); append_all pms cs }"

lemma append_all_inv:
  "md5_inv m pms \<Longrightarrow> \<forall>c \<in> set cs. length c + 64 \<le> 2 ^ 31 \<Longrightarrow>
    \<exists>pms'. append_all pms cs = Some pms' \<and> md5_inv (m @ concat cs) pms'"
proof (induction cs arbitrary: m pms)
  case (Cons c cs)
  obtain p1 where p1: "md5_append pms c (int (length c)) = Some p1" "md5_inv (m @ c) p1"
    using append_inv [OF Cons.prems(1) refl, of "length c" c] Cons.prems(2) by auto
  from Cons.IH [OF p1(2)] Cons.prems(2) p1(1) show ?case by auto
qed simp

section \<open>The arrays keep their sizes\<close>

definition md5_shape :: "md5_state \<Rightarrow> bool" where
  "md5_shape pms \<longleftrightarrow> length (md5_count pms) = 2 \<and> length (md5_abcd pms) = 4 \<and> length (md5_buf pms) = 64"

lemma process_shape: "md5_shape pms \<Longrightarrow> md5_shape (md5_process pms data)"
  by (simp add: md5_shape_def md5_process_def Let_def split: prod.split)

lemma full_blocks_shape:
  "md5_shape pms \<Longrightarrow> md5_full_blocks pms p = (pms', p') \<Longrightarrow> md5_shape pms' \<and> length p' < 64"
proof (induction pms p rule: md5_full_blocks.induct)
  case (1 pms p)
  then show ?case
    by (cases "64 \<le> length p") (auto simp: md5_full_blocks.simps [of pms p] process_shape)
qed

lemma tail_shape: "md5_shape pms \<Longrightarrow> md5_shape (md5_tail pms p)"
  using full_blocks_shape [of pms p] by (auto simp: md5_tail_def md5_shape_def split: prod.split)

lemma append_shape:
  assumes "md5_shape pms" "md5_append pms data nbytes = Some pms'"
  shows "md5_shape pms'"
proof -
  let ?off = "unat (drop_bit 3 (md5_count pms ! 0) AND 63)" and ?p = "take (nat nbytes) data"
  let ?q = "pms\<lparr>md5_count := md5_lengthen (md5_count pms) nbytes\<rparr>"
  have off: "?off < 64"
  proof -
    have "drop_bit 3 (md5_count pms ! 0) AND 63 \<le> 63" by (rule word_and_le1)
    then show ?thesis by (simp add: word_le_nat_alt)
  qed
  have q: "md5_shape ?q" using assms(1) by (simp add: md5_shape_def md5_lengthen_def Let_def)
  show ?thesis
  proof (cases "nbytes \<le> 0")
    case True
    with assms show ?thesis by (simp add: md5_append_def Let_def)
  next
    case False
    then have fill: "md5_fill ?off ?q ?p nbytes = Some pms'" and n: "nat nbytes \<le> length data"
      using assms(2) by (auto simp: md5_append_def Let_def split: if_splits)
    show ?thesis
    proof (cases "?off = 0")
      case True
      with fill q show ?thesis by (auto simp: md5_fill_def intro: tail_shape)
    next
      case off0: False
      define copy where "copy = (if int ?off + nbytes > 64 then 64 - ?off else nat nbytes)"
      have fits: "(if int k + nbytes > 64 then 64 - k else nat nbytes) \<le> nat nbytes
          \<and> k + (if int k + nbytes > 64 then 64 - k else nat nbytes) \<le> 64" if "k < 64" for k
        using that False by auto
      have copy: "copy \<le> nat nbytes" "?off + copy \<le> 64" using fits [OF off] unfolding copy_def by blast+
      let ?buf = "take ?off (md5_buf ?q) @ take copy ?p @ drop (?off + copy) (md5_buf ?q)"
      have "md5_shape (?q\<lparr>md5_buf := ?buf\<rparr>)" using q off n copy by (simp add: md5_shape_def)
      then show ?thesis using fill off0 unfolding md5_fill_def Let_def copy_def [symmetric]
        by (auto split: if_splits intro: tail_shape process_shape)
    qed
  qed
qed

end
