(* ===== verification/Base64.thy ===== *)
theory Base64
  imports Prelude
begin

text \<open>
  The base64 coder of \<open>mongo/util/base64.cpp\<close> with its alphabet (\<open>base64.h\<close>), and the
  hexadecimal coder of \<open>mongo/util/hex.h\<close>. A failed \<open>assert\<close> or \<open>uassert\<close> is \<open>None\<close>.
\<close>

section \<open>The alphabet\<close>

definition char_range :: "nat \<Rightarrow> nat \<Rightarrow> byte list" where
  "char_range a b = map of_nat [a..<Suc b]"

definition alphabet_encode :: "byte list" where
  "alphabet_encode = char_range 65 90 @ char_range 97 122 @ char_range 48 57 @ [43, 47]"

text \<open>The constructor of \<open>Alphabet\<close> clears the table and then enters the 64 letters.\<close>

definition alphabet_decode :: "byte \<Rightarrow> byte" where
  "alphabet_decode = fold (\<lambda>i t. t(alphabet_encode ! i := of_nat i)) [0..<64] (\<lambda>c. 0)"

definition alphabet_e :: "byte \<Rightarrow> byte" where
  "alphabet_e x = alphabet_encode ! unat (x AND 0x3f)"

section \<open>Encoding\<close>

text \<open>The loop of \<open>encode\<close>, which takes three bytes at a time and breaks in the last group.\<close>

fun encode_loop :: "byte list \<Rightarrow> byte list" where
  "encode_loop [] = []"
| "encode_loop [a] = [alphabet_e (drop_bit 2 a), alphabet_e (push_bit 4 a)]"
| "encode_loop [a, b] =
     [alphabet_e (drop_bit 2 a),
      (let temp = push_bit 4 a; temp = temp OR (drop_bit 4 b AND 0xF) in alphabet_e temp),
      alphabet_e (push_bit 2 (b AND 0xF))]"
| "encode_loop (a # b # c # data) =
     [alphabet_e (drop_bit 2 a),
      (let temp = push_bit 4 a; temp = temp OR (drop_bit 4 b AND 0xF) in alphabet_e temp),
      (let temp = push_bit 2 (b AND 0xF); temp = temp OR (drop_bit 6 c AND 0x3) in alphabet_e temp),
      alphabet_e (c AND 0x3f)] @ encode_loop data"

definition b64_encode :: "byte list \<Rightarrow> byte list" where
  "b64_encode data =
     encode_loop data @ (let m = length data mod 3 in if m = 1 then [61, 61] else if m = 2 then [61] else [])"

section \<open>Decoding\<close>

definition decode_group :: "byte \<Rightarrow> byte \<Rightarrow> byte \<Rightarrow> byte \<Rightarrow> byte list" where
  "decode_group s0 s1 s2 s3 =
     [(push_bit 2 (alphabet_decode s0) AND 0xFC) OR (drop_bit 4 (alphabet_decode s1) AND 0x3),
      (push_bit 4 (alphabet_decode s1) AND 0xF0) OR (drop_bit 2 (alphabet_decode s2) AND 0xF),
      (push_bit 6 (alphabet_decode s2) AND 0xC0) OR (alphabet_decode s3 AND 0x3F)]"

fun decode_loop :: "byte list \<Rightarrow> byte list" where
  "decode_loop (s0 # s1 # s2 # s3 # data) =
     (let len = (if s3 = 61 then if s2 = 61 then 1 else 2 else 3)
      in take len (decode_group s0 s1 s2 s3) @ decode_loop data)"
| "decode_loop _ = []"

definition b64_decode :: "byte list \<Rightarrow> byte list option" where
  "b64_decode s = (if length s mod 4 = 0 then Some (decode_loop s) else None)"

section \<open>Hexadecimal\<close>

definition fromHex_digit :: "byte \<Rightarrow> int option" where
  "fromHex_digit c =
     (if 48 \<le> sint c \<and> sint c \<le> 57 then Some (sint c - 48)
      else if 97 \<le> sint c \<and> sint c \<le> 102 then Some (sint c - 97 + 10)
      else if 65 \<le> sint c \<and> sint c \<le> 70 then Some (sint c - 65 + 10)
      else None)"

definition fromHex :: "byte \<Rightarrow> byte \<Rightarrow> byte option" where
  "fromHex c0 c1 = do { hi \<leftarrow> fromHex_digit c0; lo \<leftarrow> fromHex_digit c1; Some (of_int (push_bit 4 hi OR lo)) }"

text \<open>\<open>toHex\<close> and \<open>toHexLower\<close> differ only in the digits.\<close>

definition hex_with :: "byte list \<Rightarrow> byte list \<Rightarrow> byte list" where
  "hex_with hexchars inp =
     concat (map (\<lambda>c. [hexchars ! unat (drop_bit 4 (c AND 0xF0)), hexchars ! unat (c AND 0x0F)]) inp)"

definition toHex :: "byte list \<Rightarrow> byte list" where
  "toHex = hex_with (char_range 48 57 @ char_range 65 70)"

definition toHexLower :: "byte list \<Rightarrow> byte list" where
  "toHexLower = hex_with (char_range 48 57 @ char_range 97 102)"

section \<open>Decoding what was encoded\<close>

lemma b64_encode_simps [simp]:
  "b64_encode [] = []"
  "b64_encode [a] = [alphabet_e (drop_bit 2 a), alphabet_e (push_bit 4 a), 61, 61]"
  "b64_encode [a, b] = [alphabet_e (drop_bit 2 a), alphabet_e (push_bit 4 a OR (drop_bit 4 b AND 0xF)),
     alphabet_e (push_bit 2 (b AND 0xF)), 61]"
  "b64_encode (a # b # c # data) = [alphabet_e (drop_bit 2 a), alphabet_e (push_bit 4 a OR (drop_bit 4 b AND 0xF)),
     alphabet_e (push_bit 2 (b AND 0xF) OR (drop_bit 6 c AND 0x3)), alphabet_e (c AND 0x3f)] @ b64_encode data"
  by (simp_all add: b64_encode_def Let_def)

lemma length_b64_encode: "length (b64_encode data) = 4 * ((length data + 2) div 3)"
proof (induction data rule: encode_loop.induct)
  case (4 a b c data)
  have "(Suc (Suc (Suc (length data))) + 2) div 3 = Suc ((length data + 2) div 3)" by simp
  with 4 show ?case by simp
qed simp_all

lemma alphabet_list: "alphabet_encode =
   [65, 66, 67, 68, 69, 70, 71, 72, 73, 74, 75, 76, 77, 78, 79, 80, 81, 82, 83, 84, 85, 86,
    87, 88, 89, 90, 97, 98, 99, 100, 101, 102, 103, 104, 105, 106, 107, 108, 109, 110, 111, 112, 113, 114,
    115, 116, 117, 118, 119, 120, 121, 122, 48, 49, 50, 51, 52, 53, 54, 55, 56, 57, 43, 47]"
  by (simp add: alphabet_encode_def char_range_def upt_rec)

lemma table_entry:
  "distinct xs \<Longrightarrow> n \<le> length xs \<Longrightarrow> k < n \<Longrightarrow> fold (\<lambda>i t. t(xs ! i := f i)) [0..<n] t (xs ! k) = f k"
proof (induction n)
  case (Suc n)
  then show ?case by (cases "k = n") (auto simp: nth_eq_iff_index_eq)
qed simp

lemma alphabet_inverse:
  assumes "k < 64"
  shows "alphabet_decode (alphabet_encode ! k) = of_nat k \<and> alphabet_encode ! k \<noteq> 61"
proof -
  have "distinct alphabet_encode" "length alphabet_encode = 64" "61 \<notin> set alphabet_encode"
    unfolding alphabet_list by simp_all
  moreover from this assms have "alphabet_encode ! k \<in> set alphabet_encode" by simp
  ultimately show ?thesis using table_entry [of alphabet_encode 64 k of_nat] assms
    unfolding alphabet_decode_def by fastforce
qed

lemma mask6: "(x AND 0x3f :: byte) = take_bit 6 x"
  by (simp add: take_bit_eq_mask mask_eq_exp_minus_1)

lemma decode_e [simp]: "alphabet_decode (alphabet_e x) = x AND 0x3f" "alphabet_e x \<noteq> 61"
proof -
  have "take_bit 6 (unat x) < 2 ^ 6" by (rule take_bit_nat_less_exp)
  then have "unat (x AND 0x3f) < 64" by (simp add: mask6 unsigned_take_bit_eq)
  with alphabet_inverse show "alphabet_decode (alphabet_e x) = x AND 0x3f" "alphabet_e x \<noteq> 61"
    by (auto simp: alphabet_e_def)
qed

lemma less_eight: "(\<forall>n<8. P n) \<longleftrightarrow> P 0 \<and> P 1 \<and> P 2 \<and> P 3 \<and> P 4 \<and> P 5 \<and> P 6 \<and> P (7 :: nat)"
proof -
  have "n < 8 \<longleftrightarrow> n \<in> {0, 1, 2, 3, 4, 5, 6, 7}" for n :: nat by auto
  then show ?thesis unfolding all_conj_distrib by (auto simp: all_conj_distrib)
qed

lemma byte_eqI: "(\<forall>n<8. bit x n = bit y n) \<Longrightarrow> x = (y :: byte)"
  by (rule bit_word_eqI) simp

text \<open>The six bits of each letter, put together again.\<close>

lemma regroup:
  fixes a b c :: byte
  shows "(push_bit 2 (drop_bit 2 a AND 0x3f) AND 0xFC) OR (drop_bit 4 (push_bit 4 a AND 0x3f) AND 3) = a"
    "(push_bit 2 (drop_bit 2 a AND 0x3f) AND 0xFC) OR (drop_bit 4 ((push_bit 4 a OR (drop_bit 4 b AND 0xF)) AND 0x3f) AND 3) = a"
    "(push_bit 4 ((push_bit 4 a OR (drop_bit 4 b AND 0xF)) AND 0x3f) AND 0xF0) OR (drop_bit 2 (push_bit 2 (b AND 0xF) AND 0x3f) AND 0xF) = b"
    "(push_bit 4 ((push_bit 4 a OR (drop_bit 4 b AND 0xF)) AND 0x3f) AND 0xF0)
       OR (drop_bit 2 ((push_bit 2 (b AND 0xF) OR (drop_bit 6 c AND 3)) AND 0x3f) AND 0xF) = b"
    "(push_bit 6 ((push_bit 2 (b AND 0xF) OR (drop_bit 6 c AND 3)) AND 0x3f) AND 0xC0) OR (((c AND 0x3f) AND 0x3f) AND 0x3F) = c"
proof -
  show "(push_bit 2 (drop_bit 2 a AND 0x3f) AND 0xFC) OR (drop_bit 4 (push_bit 4 a AND 0x3f) AND 3) = a"
    by (rule byte_eqI, unfold less_eight, auto simp: bit_simps) (simp_all add: numeral_eq_Suc)?
next
  show "(push_bit 2 (drop_bit 2 a AND 0x3f) AND 0xFC) OR (drop_bit 4 ((push_bit 4 a OR (drop_bit 4 b AND 0xF)) AND 0x3f) AND 3) = a"
    by (rule byte_eqI, unfold less_eight, auto simp: bit_simps) (simp_all add: numeral_eq_Suc)?
next
  show "(push_bit 4 ((push_bit 4 a OR (drop_bit 4 b AND 0xF)) AND 0x3f) AND 0xF0) OR (drop_bit 2 (push_bit 2 (b AND 0xF) AND 0x3f) AND 0xF) = b"
    by (rule byte_eqI, unfold less_eight, auto simp: bit_simps) (simp_all add: numeral_eq_Suc)?
next
  show "(push_bit 4 ((push_bit 4 a OR (drop_bit 4 b AND 0xF)) AND 0x3f) AND 0xF0)
       OR (drop_bit 2 ((push_bit 2 (b AND 0xF) OR (drop_bit 6 c AND 3)) AND 0x3f) AND 0xF) = b"
    by (rule byte_eqI, unfold less_eight, auto simp: bit_simps) (simp_all add: numeral_eq_Suc)?
next
  show "(push_bit 6 ((push_bit 2 (b AND 0xF) OR (drop_bit 6 c AND 3)) AND 0x3f) AND 0xC0) OR (((c AND 0x3f) AND 0x3f) AND 0x3F) = c"
    by (rule byte_eqI, unfold less_eight, auto simp: bit_simps) (simp_all add: numeral_eq_Suc)?
qed

lemma decode_group_e:
  "take 1 (decode_group (alphabet_e (drop_bit 2 a)) (alphabet_e (push_bit 4 a)) s2 s3) = [a]"
  "take 2 (decode_group (alphabet_e (drop_bit 2 a)) (alphabet_e (push_bit 4 a OR (drop_bit 4 b AND 0xF)))
     (alphabet_e (push_bit 2 (b AND 0xF))) s3) = [a, b]"
  "decode_group (alphabet_e (drop_bit 2 a)) (alphabet_e (push_bit 4 a OR (drop_bit 4 b AND 0xF)))
     (alphabet_e (push_bit 2 (b AND 0xF) OR (drop_bit 6 c AND 0x3))) (alphabet_e (c AND 0x3f)) = [a, b, c]"
  by (simp_all only: decode_group_def decode_e regroup) simp_all

lemma decode_encode: "b64_decode (b64_encode data) = Some data"
proof -
  have "decode_loop (b64_encode data) = data"
  proof (induction data rule: encode_loop.induct)
    case (4 a b c data)
    then show ?case
      by (simp only: b64_encode_simps append.simps decode_loop.simps decode_group_e decode_e if_False Let_def) simp
  qed (simp_all only: b64_encode_simps decode_loop.simps decode_group_e decode_e if_False if_True simp_thms Let_def append_Nil2)
  then show ?thesis by (simp add: b64_decode_def length_b64_encode)
qed

section \<open>Hexadecimal digits\<close>

text \<open>Reading back two digits at a time.\<close>

fun fromHex_all :: "byte list \<Rightarrow> byte list option" where
  "fromHex_all [] = Some []"
| "fromHex_all (c0 # c1 # cs) = do { b \<leftarrow> fromHex c0 c1; bs \<leftarrow> fromHex_all cs; Some (b # bs) }"
| "fromHex_all [c] = None"

lemma digit_value:
  "\<forall>i \<in> set [0..<16]. fromHex_digit ((char_range 48 57 @ char_range 65 70) ! i) = Some (int i)
    \<and> fromHex_digit ((char_range 48 57 @ char_range 97 102) ! i) = Some (int i)"
  unfolding list_all_iff [symmetric] by code_simp

lemma fromHex_pair:
  assumes "hexchars \<in> {char_range 48 57 @ char_range 65 70, char_range 48 57 @ char_range 97 102}"
  shows "fromHex (hexchars ! unat (drop_bit 4 (c AND 0xF0))) (hexchars ! unat (c AND 0x0F)) = Some c"
proof -
  let ?hi = "unat (drop_bit 4 (c AND 0xF0))" and ?lo = "unat (c AND 0x0F)"
  have hi: "drop_bit 4 (c AND 0xF0) = drop_bit 4 c"
    by (rule byte_eqI, unfold less_eight, auto simp: bit_simps dest: bit_imp_le_length)
  have lo: "c AND 0x0F = take_bit 4 c" by (simp add: take_bit_eq_mask mask_eq_exp_minus_1)
  have u: "int ?hi = drop_bit 4 (uint c)" "int ?lo = take_bit 4 (uint c)"
    unfolding hi lo by (simp_all add: unsigned_take_bit_eq unat_drop_bit_eq of_nat_drop_bit of_nat_take_bit)
  have "unat c < 256" by simp
  then have "?hi < 16" unfolding hi unat_drop_bit by (intro less_mult_imp_div_less) simp
  moreover have "?lo < 2 ^ 4" unfolding lo unsigned_take_bit_eq by (rule take_bit_nat_less_exp)
  ultimately have "fromHex_digit (hexchars ! ?hi) = Some (int ?hi)" "fromHex_digit (hexchars ! ?lo) = Some (int ?lo)"
    using assms digit_value by auto
  moreover have "push_bit 4 (int ?hi) OR int ?lo = uint c"
    unfolding u by (rule bit_eqI) (auto simp: bit_simps)
  ultimately show ?thesis by (simp add: fromHex_def)
qed

lemma fromHex_hex:
  assumes "hexchars \<in> {char_range 48 57 @ char_range 65 70, char_range 48 57 @ char_range 97 102}"
  shows "fromHex_all (hex_with hexchars bs) = Some bs"
proof (induction bs)
  case (Cons b bs)
  have "hex_with hexchars (b # bs) = [hexchars ! unat (drop_bit 4 (b AND 0xF0)), hexchars ! unat (b AND 0x0F)] @ hex_with hexchars bs"
    by (simp add: hex_with_def)
  with Cons show ?case by (simp only: append.simps fromHex_all.simps fromHex_pair [OF assms]) simp
qed (simp add: hex_with_def)

end
