(* ===== verification/TextUtil.thy ===== *)
theory TextUtil
  imports Prelude
begin

text \<open>
  The string functions of \<open>mongo/util/text.h\<close>, \<open>text.cpp\<close> and \<open>stringutils.cpp\<close>: the check
  of UTF-8, splitting and joining, and the conversion of decimal numbers. C and C++ strings are
  lists of bytes; a failed \<open>uassert\<close> is \<open>None\<close>.
\<close>

section \<open>UTF-8\<close>

definition leading_ones_table :: "nat list" where
  "leading_ones_table = replicate 64 1 @ replicate 32 2 @ replicate 16 3 @ replicate 8 4 @ replicate 4 5 @ [6, 6, 7, 8]"

definition leadingOnes :: "byte \<Rightarrow> nat" where
  "leadingOnes c = (if c < 0x80 then 0 else leading_ones_table ! unat (c AND 0x7f))"

fun utf8_loop :: "nat \<Rightarrow> byte list \<Rightarrow> bool" where
  "utf8_loop left [] = (left = 0)"
| "utf8_loop left (c # s) =
     (let ones = leadingOnes c in
      if left \<noteq> 0 then (if ones \<noteq> 1 then False else utf8_loop (left - 1) s)
      else if ones = 0 then utf8_loop left s
      else if ones = 1 then False
      else if c > 0xF4 then False
      else if c = 0xC0 \<or> c = 0xC1 then False
      else utf8_loop (ones - 1) s)"

definition isValidUTF8 :: "byte list \<Rightarrow> bool" where
  "isValidUTF8 s = utf8_loop 0 s"

text \<open>The sequences the check is meant to accept: the lead byte tells how many continuation bytes follow.\<close>

definition continuation :: "byte \<Rightarrow> bool" where
  "continuation c \<longleftrightarrow> 0x80 \<le> c \<and> c < 0xC0"

inductive utf8 :: "byte list \<Rightarrow> bool" where
  utf8_end: "utf8 []"
| utf8_1: "c < 0x80 \<Longrightarrow> utf8 s \<Longrightarrow> utf8 (c # s)"
| utf8_2: "0xC2 \<le> c \<Longrightarrow> c < 0xE0 \<Longrightarrow> continuation d \<Longrightarrow> utf8 s \<Longrightarrow> utf8 (c # d # s)"
| utf8_3: "0xE0 \<le> c \<Longrightarrow> c < 0xF0 \<Longrightarrow> continuation d \<Longrightarrow> continuation e \<Longrightarrow> utf8 s \<Longrightarrow> utf8 (c # d # e # s)"
| utf8_4: "0xF0 \<le> c \<Longrightarrow> c \<le> 0xF4 \<Longrightarrow> continuation d \<Longrightarrow> continuation e \<Longrightarrow> continuation f \<Longrightarrow> utf8 s
    \<Longrightarrow> utf8 (c # d # e # f # s)"

inductive_cases utf8_ConsE: "utf8 (c # s)"

lemma leading_ones_nth:
  "i < 128 \<Longrightarrow> leading_ones_table ! i = (if i < 64 then 1 else if i < 96 then 2 else if i < 112 then 3
    else if i < 120 then 4 else if i < 124 then 5 else if i < 126 then 6 else if i < 127 then 7 else 8)"
proof (cases "i < 124")
  case True
  then show ?thesis by (simp add: leading_ones_table_def nth_append) presburger
next
  case False
  moreover assume "i < 128"
  ultimately have "i \<in> {124, 125, 126, 127}" by auto
  then show ?thesis by (auto simp: leading_ones_table_def nth_append)
qed

lemma leadingOnes_nat:
  "leadingOnes c = (if unat c < 128 then 0 else if unat c < 192 then 1 else if unat c < 224 then 2 else if unat c < 240 then 3
    else if unat c < 248 then 4 else if unat c < 252 then 5 else if unat c < 254 then 6 else if unat c < 255 then 7 else 8)"
proof -
  have "unat (c AND 0x7f) = unat c mod 2 ^ 7"
  proof -
    have "c AND 0x7f = take_bit 7 c" by (simp add: take_bit_eq_mask mask_eq_exp_minus_1)
    then have "unat (c AND 0x7f) = take_bit 7 (unat c)" by (simp add: unsigned_take_bit_eq)
    then show ?thesis by (simp only: take_bit_eq_mod)
  qed
  moreover have "unat c < 256" by simp
  ultimately have i: "\<not> unat c < 128 \<Longrightarrow> unat (c AND 0x7f) = unat c - 128" by (simp add: le_mod_geq)
  show ?thesis
  proof (cases "unat c < 128")
    case True
    then show ?thesis by (simp add: leadingOnes_def word_less_nat_alt)
  next
    case False
    then obtain k where k: "unat c = 128 + k" by (metis le_Suc_ex not_less)
    then have "k < 128" "leadingOnes c = leading_ones_table ! k"
      using i \<open>unat c < 256\<close> False by (simp_all add: leadingOnes_def word_less_nat_alt)
    with leading_ones_nth [of k] show ?thesis unfolding k by simp
  qed
qed

lemma leadingOnes_cases:
  "leadingOnes c = 0 \<longleftrightarrow> c < 0x80" "leadingOnes c = Suc 0 \<longleftrightarrow> continuation c"
  by (auto simp: leadingOnes_nat continuation_def word_less_nat_alt word_le_nat_alt)

lemma utf8_loop_left:
  "utf8_loop left s \<longleftrightarrow> left \<le> length s \<and> list_all continuation (take left s) \<and> utf8_loop 0 (drop left s)"
proof (induction left arbitrary: s)
  case (Suc left)
  show ?case by (cases s) (simp_all add: Let_def leadingOnes_cases Suc.IH [symmetric])
qed simp

lemma utf8_loop_lead:
  "utf8_loop 0 (c # t) \<longleftrightarrow> (if c < 0x80 then utf8_loop 0 t
     else 0xC2 \<le> c \<and> c \<le> 0xF4 \<and> utf8_loop (if c < 0xE0 then 1 else if c < 0xF0 then 2 else 3) t)"
  by (auto simp: Let_def leadingOnes_nat word_less_nat_alt word_le_nat_alt word_unat_eq_iff)

lemma utf8_loop_more:
  "utf8_loop (Suc 0) t \<longleftrightarrow> (\<exists>d s. t = d # s \<and> continuation d \<and> utf8_loop 0 s)"
  "utf8_loop 2 t \<longleftrightarrow> (\<exists>d e s. t = d # e # s \<and> continuation d \<and> continuation e \<and> utf8_loop 0 s)"
  "utf8_loop 3 t \<longleftrightarrow> (\<exists>d e f s. t = d # e # f # s \<and> continuation d \<and> continuation e \<and> continuation f \<and> utf8_loop 0 s)"
proof -
  have 1: "utf8_loop (Suc k) t \<longleftrightarrow> (\<exists>d s. t = d # s \<and> continuation d \<and> utf8_loop k s)" for k t
    by (cases t) (simp_all add: Let_def leadingOnes_cases)
  show "utf8_loop (Suc 0) t \<longleftrightarrow> (\<exists>d s. t = d # s \<and> continuation d \<and> utf8_loop 0 s)"
    "utf8_loop 2 t \<longleftrightarrow> (\<exists>d e s. t = d # e # s \<and> continuation d \<and> continuation e \<and> utf8_loop 0 s)"
    "utf8_loop 3 t \<longleftrightarrow> (\<exists>d e f s. t = d # e # f # s \<and> continuation d \<and> continuation e \<and> continuation f \<and> utf8_loop 0 s)"
    by (auto simp: numeral_eq_Suc 1)
qed

lemma utf8_iff: "isValidUTF8 s \<longleftrightarrow> utf8 s"
proof -
  have "utf8_loop 0 s \<Longrightarrow> utf8 s"
  proof (induction s rule: length_induct)
    case (1 s)
    note hyp = 1(2)
    show ?case
    proof (cases s)
      case Nil
      then show ?thesis by (simp add: utf8_end)
    next
      case (Cons c t)
      have IH: "utf8_loop 0 r \<Longrightarrow> length r < length s \<Longrightarrow> utf8 r" for r using 1 by blast
      consider "c < 0x80" | "\<not> c < 0x80" "c < 0xE0" | "\<not> c < 0xE0" "\<not> c < 0x80" "c < 0xF0" | "\<not> c < 0xF0" "\<not> c < 0xE0" "\<not> c < 0x80"
        by blast
      then show ?thesis
      proof cases
        case 1
        then show ?thesis using hyp IH [of t] unfolding Cons utf8_loop_lead by (simp add: utf8_1)
      next
        case 2
        then show ?thesis using hyp IH unfolding Cons utf8_loop_lead by (auto simp: utf8_loop_more intro: utf8_2)
      next
        case 3
        then have "0xE0 \<le> c" by (simp add: not_less)
        with 3 show ?thesis using hyp IH unfolding Cons utf8_loop_lead by (auto simp: utf8_loop_more intro: utf8_3)
      next
        case 4
        then have "0xF0 \<le> c" by (simp add: not_less)
        moreover have "c \<le> 0xF4" "utf8_loop 3 t" using 4 hyp unfolding Cons utf8_loop_lead by simp_all
        moreover obtain d e f r where "t = d # e # f # r" "continuation d" "continuation e" "continuation f" "utf8_loop 0 r"
          using calculation(3) unfolding utf8_loop_more by blast
        ultimately show ?thesis using IH [of r] unfolding Cons by (simp add: utf8_4)
      qed
    qed
  qed
  moreover have "utf8 s \<Longrightarrow> utf8_loop 0 s"
  proof (induction rule: utf8.induct)
    case (utf8_2 c d s)
    then show ?case unfolding utf8_loop_lead by (auto simp: utf8_loop_more leadingOnes_cases word_less_nat_alt word_le_nat_alt)
  next
    case (utf8_3 c d e s)
    then show ?case unfolding utf8_loop_lead by (auto simp: utf8_loop_more leadingOnes_cases word_less_nat_alt word_le_nat_alt)
  next
    case (utf8_4 c d e f s)
    then show ?case unfolding utf8_loop_lead by (auto simp: utf8_loop_more leadingOnes_cases word_less_nat_alt word_le_nat_alt)
  qed (simp_all add: utf8_loop_lead del: utf8_loop.simps(2))
  ultimately show ?thesis by (auto simp: isValidUTF8_def)
qed

section \<open>Splitting and joining\<close>

text \<open>\<open>strstr\<close> of the C library gives the first occurrence.\<close>

fun strstr :: "byte list \<Rightarrow> byte list \<Rightarrow> nat option" where
  "strstr [] splitter = (if splitter = [] then Some 0 else None)"
| "strstr (c # big) splitter = (if prefix splitter (c # big) then Some 0 else map_option Suc (strstr big splitter))"

fun splitter_skip :: "byte list \<Rightarrow> byte list \<Rightarrow> byte list" where
  "splitter_skip splitter [] = []"
| "splitter_skip splitter (c # big) =
     (if strstr (c # big) splitter = Some 0 then splitter_skip splitter big else c # big)"

definition splitter_next :: "byte list \<Rightarrow> byte list \<Rightarrow> byte list \<times> byte list" where
  "splitter_next splitter big =
     (case strstr big splitter of
        Some k \<Rightarrow> (take k big, splitter_skip splitter (drop (k + 1) big))
      | None \<Rightarrow> (big, []))"

lemma length_splitter_skip: "length (splitter_skip splitter big) \<le> length big"
  by (induction splitter big rule: splitter_skip.induct) auto

lemma splitter_next_shorter: "splitter_next splitter (c # big) = (s, rest) \<Longrightarrow> length rest < Suc (length big)"
  using length_splitter_skip [of splitter] by (auto simp: splitter_next_def le_less_trans less_Suc_eq_le split: option.splits)
     (metis length_splitter_skip length_drop diff_le_self le_trans)

function splitter_split :: "byte list \<Rightarrow> byte list \<Rightarrow> byte list list" where
  "splitter_split splitter big =
     (if big = [] then [] else (let (s, rest) = splitter_next splitter big in s # splitter_split splitter rest))"
  by pat_completeness auto
termination
proof (relation "measure (\<lambda>(splitter, big). length big)")
  fix splitter big x s rest
  assume "big \<noteq> []" "x = splitter_next splitter big" "(s, rest) = x"
  then show "((splitter, rest), (splitter, big)) \<in> measure (\<lambda>(splitter, big). length big)"
    using splitter_next_shorter [of splitter _ _ s rest] by (cases big) (auto dest: sym)
qed simp

declare splitter_split.simps [simp del]

definition splitter_join :: "byte list list \<Rightarrow> byte list \<Rightarrow> byte list" where
  "splitter_join l split = (case l of [] \<Rightarrow> [] | x # xs \<Rightarrow> x @ concat (map (\<lambda>y. split @ y) xs))"

function split_loop :: "byte \<Rightarrow> byte list \<Rightarrow> byte list list" where
  "split_loop delim str =
     (if delim \<in> set str then takeWhile (\<lambda>c. c \<noteq> delim) str # split_loop delim (tl (dropWhile (\<lambda>c. c \<noteq> delim) str))
      else [str])"
  by pat_completeness auto
termination
proof (relation "measure (\<lambda>(delim, str). length str)")
  fix delim :: byte and str assume "delim \<in> set str"
  then have "dropWhile (\<lambda>c. c \<noteq> delim) str \<noteq> []" by (simp add: dropWhile_eq_Nil_conv)
  then have "length (tl (dropWhile (\<lambda>c. c \<noteq> delim) str)) < length (dropWhile (\<lambda>c. c \<noteq> delim) str)" by simp
  with length_dropWhile_le [of "\<lambda>c. c \<noteq> delim" str]
  show "((delim, tl (dropWhile (\<lambda>c. c \<noteq> delim) str)), delim, str) \<in> measure (\<lambda>(delim, str). length str)" by simp
qed simp

declare split_loop.simps [simp del]

definition splitStringDelim :: "byte list \<Rightarrow> byte list list \<Rightarrow> byte \<Rightarrow> byte list list" where
  "splitStringDelim str res delim = (if str = [] then res else res @ split_loop delim str)"

definition joinStringDelim :: "byte list list \<Rightarrow> byte list \<Rightarrow> byte \<Rightarrow> byte list" where
  "joinStringDelim strs res delim = res @ (case strs of [] \<Rightarrow> [] | x # xs \<Rightarrow> x @ concat (map (\<lambda>y. delim # y) xs))"

text \<open>The pieces of a string between single delimiters.\<close>

fun pieces :: "byte \<Rightarrow> byte list \<Rightarrow> byte list list" where
  "pieces d [] = [[]]"
| "pieces d (c # s) = (if c = d then [] # pieces d s else (c # hd (pieces d s)) # tl (pieces d s))"

lemma pieces_nonempty [simp]: "pieces d s \<noteq> []"
  by (cases s) auto

lemma pieces_append: "d \<notin> set x \<Longrightarrow> pieces d (x @ d # s) = x # pieces d s"
  by (induction x) auto

lemma pieces_none: "d \<notin> set x \<Longrightarrow> pieces d x = [x]"
  by (induction x) auto

lemma split_at_delim: "d \<in> set s \<Longrightarrow> s = takeWhile (\<lambda>c. c \<noteq> d) s @ d # tl (dropWhile (\<lambda>c. c \<noteq> d) s)"
  by (induction s) auto

lemma not_in_takeWhile: "d \<notin> set (takeWhile (\<lambda>c. c \<noteq> d) s)"
  by (auto dest: set_takeWhileD)

lemma split_loop_pieces: "split_loop d s = pieces d s"
proof (induction d s rule: split_loop.induct)
  case (1 d s)
  show ?case
  proof (cases "d \<in> set s")
    case True
    have "pieces d s = takeWhile (\<lambda>c. c \<noteq> d) s # pieces d (tl (dropWhile (\<lambda>c. c \<noteq> d) s))"
      by (subst split_at_delim [OF True]) (rule pieces_append [OF not_in_takeWhile])
    with 1 True show ?thesis by (simp add: split_loop.simps [of d s])
  next
    case False
    then show ?thesis by (simp add: split_loop.simps [of d s] pieces_none)
  qed
qed

text \<open>Joining what was split, and splitting what was joined.\<close>

lemma join_pieces: "joinStringDelim (pieces d s) [] d = s"
proof (induction s)
  case (Cons c s)
  obtain x xs where "pieces d s = x # xs" by (cases "pieces d s") auto
  with Cons show ?case by (auto simp: joinStringDelim_def)
qed (simp add: joinStringDelim_def)

lemma split_join:
  assumes "strs \<noteq> []" "strs \<noteq> [[]]" "\<forall>x \<in> set strs. d \<notin> set x"
  shows "splitStringDelim (joinStringDelim strs [] d) [] d = strs"
proof -
  have "pieces d (joinStringDelim strs [] d) = strs" using assms(1,3)
  proof (induction strs)
    case (Cons x xs)
    show ?case
    proof (cases xs)
      case Nil
      with Cons show ?thesis by (simp add: joinStringDelim_def pieces_none)
    next
      case (Cons y ys)
      with Cons.IH Cons.prems pieces_append [of d x "y @ concat (map (\<lambda>y. d # y) ys)"] show ?thesis
        by (simp add: joinStringDelim_def)
    qed
  qed simp
  moreover from this have "joinStringDelim strs [] d \<noteq> []" using assms(2) by auto
  ultimately show ?thesis by (simp add: splitStringDelim_def split_loop_pieces)
qed

lemma split_then_join: "joinStringDelim (splitStringDelim s [] d) [] d = s"
proof (cases "s = []")
  case True
  then show ?thesis by (simp add: splitStringDelim_def joinStringDelim_def)
next
  case False
  then show ?thesis by (simp add: splitStringDelim_def split_loop_pieces join_pieces)
qed

text \<open>The splitter with a delimiter of one byte: empty pieces after the first are dropped.\<close>

lemma strstr_one: "strstr s [d] = (if d \<in> set s then Some (length (takeWhile (\<lambda>c. c \<noteq> d) s)) else None)"
  by (induction s) auto

lemma skip_one: "splitter_skip [d] s = dropWhile (\<lambda>c. c = d) s"
  by (induction s) (auto simp: strstr_one)

lemma pieces_dropWhile: "filter (\<lambda>x. x \<noteq> []) (pieces d (dropWhile (\<lambda>c. c = d) s)) = filter (\<lambda>x. x \<noteq> []) (pieces d s)"
  by (induction s) auto

lemma splitter_split_one:
  "splitter_split [d] s = (if s = [] then [] else hd (pieces d s) # filter (\<lambda>x. x \<noteq> []) (tl (pieces d s)))"
proof (induction "length s" arbitrary: s rule: less_induct)
  case less
  show ?case
  proof (cases "s = [] \<or> d \<notin> set s")
    case True
    then show ?thesis
      by (auto simp: splitter_split.simps [of "[d]" s] splitter_split.simps [of "[d]" "[]"] splitter_next_def strstr_one pieces_none)
  next
    case False
    then obtain x r where s: "s = x @ d # r" "d \<notin> set x" by (meson split_list_first)
    have "takeWhile (\<lambda>c. c \<noteq> d) s = x" unfolding s(1) using s(2) by (induction x) auto
    then have n: "splitter_next [d] s = (x, dropWhile (\<lambda>c. c = d) r)"
      using s by (simp add: splitter_next_def strstr_one skip_one)
    let ?q = "dropWhile (\<lambda>c. c = d) r"
    have p: "pieces d s = x # pieces d r" unfolding s(1) by (rule pieces_append [OF s(2)])
    have "length ?q < length s" using length_dropWhile_le [of "\<lambda>c. c = d" r] by (simp add: s)
    from less [OF this] have "splitter_split [d] ?q = filter (\<lambda>x. x \<noteq> []) (pieces d ?q)"
    proof (cases ?q)
      case Nil
      then show ?thesis unfolding Nil by (simp add: splitter_split.simps [of "[d]" "[]"])
    next
      case (Cons c t)
      then have "c \<noteq> d" using hd_dropWhile [of "\<lambda>c. c = d" r] by auto
      then show ?thesis using less [OF \<open>length ?q < length s\<close>] unfolding Cons by simp
    qed
    then have "splitter_split [d] ?q = filter (\<lambda>x. x \<noteq> []) (pieces d r)" by (simp add: pieces_dropWhile)
    then show ?thesis using False n p by (simp add: splitter_split.simps [of "[d]" s])
  qed
qed

section \<open>Decimal numbers\<close>

text \<open>
  \<open>strtoll\<close> of the C library in base 10: white space, a sign, digits; the value, the rest of
  the string (all of it if there are no digits), and whether \<open>errno\<close> is set.
\<close>

definition is_space :: "byte \<Rightarrow> bool" where
  "is_space c \<longleftrightarrow> c \<in> {32, 9, 10, 11, 12, 13}"

definition is_digit :: "byte \<Rightarrow> bool" where
  "is_digit c \<longleftrightarrow> 48 \<le> c \<and> c \<le> 57"

definition LLONG_MAX :: int where [simp]: "LLONG_MAX = 0x7fffffffffffffff"
definition LLONG_MIN :: int where [simp]: "LLONG_MIN = -0x8000000000000000"

definition digits_value :: "byte list \<Rightarrow> int" where
  "digits_value ds = foldl (\<lambda>a c. 10 * a + (uint c - 48)) 0 ds"

definition strtoll10 :: "byte list \<Rightarrow> int \<times> byte list \<times> bool" where
  "strtoll10 n =
     (let s = dropWhile is_space n;
          (neg, s) = (case s of c # t \<Rightarrow> if c = 45 then (True, t) else if c = 43 then (False, t) else (False, s) | [] \<Rightarrow> (False, s));
          ds = takeWhile is_digit s;
          v = (if neg then - digits_value ds else digits_value ds)
      in if ds = [] then (0, n, False)
         else if v > LLONG_MAX then (LLONG_MAX, dropWhile is_digit s, True)
         else if v < LLONG_MIN then (LLONG_MIN, dropWhile is_digit s, True)
         else (v, dropWhile is_digit s, False))"

definition parseLL :: "byte list \<Rightarrow> int option" where
  "parseLL n =
     (if n = [] then None
      else (let (ret, endPtr, errno) = strtoll10 n in if endPtr = [] \<and> \<not> errno then Some ret else None))"

lemma digit_not_space: "is_digit c \<Longrightarrow> \<not> is_space c \<and> c \<noteq> 45 \<and> c \<noteq> 43"
  by (auto simp: is_digit_def is_space_def)

lemma parseLL_number:
  assumes "list_all is_space ws" "sign \<in> {[], [43], [45]}" "ds \<noteq> []" "list_all is_digit ds"
  shows "parseLL (ws @ sign @ ds) = (let v = (if sign = [45] then - digits_value ds else digits_value ds)
    in if LLONG_MIN \<le> v \<and> v \<le> LLONG_MAX then Some v else None)"
proof -
  obtain c cs where ds: "ds = c # cs" using assms(3) by (cases ds) auto
  have c: "\<not> is_space c" "c \<noteq> 45" "c \<noteq> 43" using assms(4) digit_not_space by (simp_all add: ds)
  have sg: "\<not> is_space 45" "\<not> is_space 43" by (simp_all add: is_space_def)
  have "dropWhile is_space (ws @ sign @ ds) = sign @ ds"
    using assms(1,2) c sg by (induction ws) (auto simp: ds)
  moreover have "takeWhile is_digit ds = ds" "dropWhile is_digit ds = []"
    using assms(4) by (simp_all add: list_all_iff)
  ultimately show ?thesis using assms(2) c ds by (auto simp: parseLL_def strtoll10_def Let_def)
qed

lemma parseLL_only:
  assumes "parseLL n = Some v"
  shows "\<exists>ws sign ds. n = ws @ sign @ ds \<and> list_all is_space ws \<and> sign \<in> {[], [43], [45]} \<and> ds \<noteq> [] \<and> list_all is_digit ds"
proof -
  define s where "s = dropWhile is_space n"
  have n: "n = takeWhile is_space n @ s" "list_all is_space (takeWhile is_space n)"
    by (simp_all add: s_def list_all_iff) (auto dest: set_takeWhileD)
  obtain sign t where st: "s = sign @ t" "sign \<in> {[], [43], [45]}"
    "(case s of c # t \<Rightarrow> if c = 45 then (True, t) else if c = 43 then (False, t) else (False, s) | [] \<Rightarrow> (False, s)) = (sign = [45], t)"
  proof (cases s)
    case (Cons c r)
    then show ?thesis using that [of "[c]" r] that [of "[]" s]
      by (cases "c = 45"; cases "c = 43") simp_all
  qed (use that [of "[]" "[]"] in auto)
  have "takeWhile is_digit t \<noteq> [] \<and> dropWhile is_digit t = []"
    using assms st(3) by (auto simp: parseLL_def strtoll10_def s_def [symmetric] Let_def split: if_splits)
  then have "t \<noteq> []" "list_all is_digit t" by (auto simp: list_all_iff dropWhile_eq_Nil_conv)
  moreover have "n = takeWhile is_space n @ sign @ t" using n(1) st(1) by simp
  ultimately show ?thesis using n(2) st(2) by blast
qed

end
