(* ===== verification/Instances.thy ===== *)
theory Instances
  imports MztoolsSpec MinizipSpec MiniunzMain MiniunzSafe ZipRun ExtraField Dates Md5Spec Base64 TextUtil
begin

text \<open>
  Concrete instances of the parameters: a file system with one open file, an environment in
  which no allocation fails, a zlib whose compressor is the identity, and an entry and an
  archive to start from. The witnesses of the properties evaluate on them.
\<close>

definition one_file :: "byte list \<Rightarrow> nat \<Rightarrow> stdio" where
  "one_file d p =
     \<lparr>w_files = [[0x61] \<mapsto> d],
      w_streams = [2 \<mapsto> \<lparr>f_path = [0x61], f_pos = p, f_rd = True, f_wr = True, f_err = False\<rparr>],
      w_next = 2, w_limit = 2 ^ 40, w_denied = (\<lambda>p. False)\<rparr>"

definition one_stream :: "byte list \<Rightarrow> nat \<Rightarrow> stream" where
  "one_stream d p = \<lparr>s_data = d, s_pos = p, s_rd = True, s_wr = True, s_err = False\<rparr>"

lemma fetch_one_file [simp]: "stdio_fetch (one_file d p) 2 = Some (one_stream d p)"
  by (simp add: one_file_def one_stream_def stdio_fetch_def)

lemma one_file_sel [simp]: "w_limit (one_file d p) = 2 ^ 40"
  by (simp add: one_file_def)

lemma one_stream_sel [simp]:
  "s_data (one_stream d p) = d" "s_pos (one_stream d p) = p" "s_rd (one_stream d p)" "s_wr (one_stream d p)"
  "\<not> s_err (one_stream d p)"
  by (simp_all add: one_stream_def)

definition plain_sys :: sys where
  "plain_sys = \<lparr>sys_malloc = (\<lambda>k n. True), sys_mallocs = 0, sys_rand = (\<lambda>seed k. 0), sys_seed = 1,
                sys_rands = 0, sys_time = 0, sys_calls = 0\<rparr>"

lemma malloc_plain_sys [simp]: "malloc n plain_sys = (True, plain_sys\<lparr>sys_mallocs := 1\<rparr>)"
  by (simp add: plain_sys_def malloc_def)

lemma plain_sys_total: "malloc_total plain_sys"
  by (simp add: plain_sys_def malloc_total_def)

text \<open>The compressor and the decompressor copy what fits; the checksum is a 16-bit sum.\<close>

definition copy_zlib :: "unit z_stream \<Rightarrow> int \<Rightarrow> int \<times> byte list \<times> unit z_stream" where
  "copy_zlib s flush =
     (let k = min (avail_in s) (avail_out s)
      in (if k = 0 \<and> flush = Z_FINISH then Z_STREAM_END else Z_OK, take k (next_in s),
          s\<lparr>next_in := drop k (next_in s), avail_out := avail_out s - k, next_out := next_out s + k,
            total_in := total_in s + of_nat k, total_out := total_out s + of_nat k\<rparr>))"

definition plain_zlib :: "unit zlib" where
  "plain_zlib =
     \<lparr>zl_crc32 = (\<lambda>c bs. foldl (\<lambda>c b. (c + ucast b) AND 0xffff) c bs), zl_crc_table = (\<lambda>i. of_nat i),
      zl_deflateInit2 = (\<lambda>s a b c d e. (Z_OK, s)), zl_deflate = copy_zlib, zl_deflateEnd = (\<lambda>s. (Z_OK, s)),
      zl_inflateInit2 = (\<lambda>s a. (Z_OK, s)), zl_inflate = copy_zlib, zl_inflateEnd = (\<lambda>s. (Z_OK, s))\<rparr>"

definition blank_stream :: "'z \<Rightarrow> 'z z_stream" where
  "blank_stream z = \<lparr>next_in = [], next_out = 0, avail_out = Z_BUFSIZE, total_in = 0, total_out = 0,
     data_type = 0, msg_set = False, zstate = z\<rparr>"

definition blank_entry :: "'z \<Rightarrow> 'z curfile64_info" where
  "blank_entry z =
     \<lparr>ci_stream = blank_stream z, ci_stream_initialised = 0, ci_pos_in_buffered_data = 0, ci_pos_local_header = 0,
      ci_central_header = [], ci_size_centralExtra = 0, ci_size_centralheader = 0, ci_size_centralExtraFree = 0,
      ci_flag = 0, ci_method = 0, ci_raw = 0, ci_buffered_data = (\<lambda>i. 0), ci_dosDate = 0, ci_crc32 = 0,
      ci_encrypt = 0, ci_zip64 = 0, ci_pos_zip64extrainfo = 0, ci_totalCompressedData = 0,
      ci_totalUncompressedData = 0, ci_keys = \<lparr>key0 = 0, key1 = 0, key2 = 0\<rparr>, ci_pcrc_32_tab = (\<lambda>i. 0),
      ci_crypt_header_size = 0\<rparr>"

abbreviation empty_stream :: "unit z_stream" where "empty_stream \<equiv> blank_stream ()"

abbreviation empty_entry :: "unit curfile64_info" where "empty_entry \<equiv> blank_entry ()"

definition stdio_archive :: "unit curfile64_info \<Rightarrow> int \<Rightarrow> (stdio, unit) zip64_internal" where
  "stdio_archive ci is_open =
     \<lparr>zi_filefunc = stdio_filefunc64, zi_filestream = 2, zi_central_dir = [], zi_in_opened_file_inzip = is_open,
      zi_ci = ci, zi_begin_pos = 0, zi_add_position = 0, zi_number_entry = 0, zi_globalcomment = None\<rparr>"

lemma empty_entry_ok [simp]: "buf_ok empty_entry" "stored empty_entry" "pending empty_entry = []"
  "enc_bytes empty_entry bs = bs"
  by (simp_all add: buf_ok_def stored_def pending_def blank_entry_def blank_stream_def enc_bytes_def)

lemma plain_crc32: "crc32_streams plain_zlib" "crc32_small plain_zlib"
proof -
  have "unat (foldl (\<lambda>c b. (c + ucast b) AND 0xffff) c bs :: 64 word) < 2 ^ 32" if "unat c < 2 ^ 32" for c and bs :: "byte list"
    using that
  proof (induction bs arbitrary: c)
    case (Cons b bs)
    have "(c + ucast b) AND 0xffff = take_bit 16 (c + ucast b)" by (simp add: take_bit_eq_mask mask_eq_decr_exp)
    then have "unat ((c + ucast b) AND 0xffff) < 2 ^ 32"
      using take_bit_nat_less_exp [of 16 "unat (c + ucast b)"] by (simp add: unsigned_take_bit_eq)
    with Cons.IH show ?case by simp
  qed simp
  then show "crc32_small plain_zlib" by (simp add: crc32_small_def plain_zlib_def)
qed (simp add: crc32_streams_def plain_zlib_def)

text \<open>An empty file system, and an entry to store in an archive.\<close>

definition empty_fs :: stdio where
  "empty_fs = \<lparr>w_files = Map.empty, w_streams = Map.empty, w_next = 1, w_limit = 2 ^ 40, w_denied = (\<lambda>p. False)\<rparr>"

definition demo_file :: "byte list \<Rightarrow> new_file" where
  "demo_file name =
     \<lparr>nf_filename = Some name, nf_zipfi = None, nf_extrafield_local = [], nf_extrafield_global = [],
      nf_comment = None, nf_method = 0, nf_level = 0, nf_raw = 0, nf_windowBits = 0, nf_memLevel = 0,
      nf_strategy = 0, nf_password = None, nf_crcForCrypting = 0, nf_versionMadeBy = 0, nf_flagBase = 0, nf_zip64 = 0\<rparr>"

definition demo_job :: "byte list \<Rightarrow> byte list list \<Rightarrow> job" where
  "demo_job name chunks = \<lparr>job_file = demo_file name, job_chunks = chunks, job_usize = 0, job_crc = 0\<rparr>"

definition demo_es :: "zip_entry list" where
  "demo_es = map (job_entry plain_zlib) [demo_job [0x61] [[1], [2, 3]], demo_job [0x62] [[4]]]"

text \<open>A signature that occurs nowhere, as a computation.\<close>

fun no_sig :: "byte list \<Rightarrow> byte list \<Rightarrow> bool" where
  "no_sig magic [] = True"
| "no_sig magic (b # bs) = (take 4 (b # bs) \<noteq> magic \<and> no_sig magic bs)"

lemma no_sigD: "no_sig magic d \<Longrightarrow> magic \<noteq> [] \<Longrightarrow> take 4 (drop j d) \<noteq> magic"
proof (induction magic d arbitrary: j rule: no_sig.induct)
  case (2 magic b bs)
  then show ?case by (cases j) auto
qed auto

lemma demo_ok: "archive_ok [] demo_es []" "length (archive_bytes demo_es []) = 182"
  by (simp_all add: archive_ok_def demo_es_def job_entry_def demo_job_def demo_file_def nf_ok_def new_file_name_def
      new_file_comment_def entry_local_def archive_bytes_def)

lemma unambiguousI:
  assumes "no_sig [0x50, 0x4b, 0x05, 0x06] (drop (Suc (length pre + central_pos es (length es))) (pre @ archive_bytes es c))"
    "no_sig [0x50, 0x4b, 0x06, 0x07] (pre @ archive_bytes es c)"
  shows "unambiguous pre es c"
proof -
  define d where "d = pre @ archive_bytes es c"
  define p where "p = Suc (length pre + central_pos es (length es))"
  have "take 4 (drop j d) \<noteq> [0x50, 0x4b, 0x05, 0x06]" if "p \<le> j" for j
    using no_sigD [OF assms(1), of "j - p"] that by (simp add: d_def [symmetric] p_def [symmetric])
  with no_sigD [OF assms(2)] show ?thesis
    unfolding unambiguous_def Let_def Suc_le_eq [symmetric] by (simp add: d_def [symmetric] p_def [symmetric])
qed

lemma demo_unambiguous: "unambiguous [] demo_es []"
proof (rule unambiguousI)
  show "no_sig [0x50, 0x4b, 0x05, 0x06] (drop (Suc (length ([] :: byte list) + central_pos demo_es (length demo_es))) ([] @ archive_bytes demo_es []))"
    by code_simp
  show "no_sig [0x50, 0x4b, 0x06, 0x07] ([] @ archive_bytes demo_es [])" by code_simp
qed

text \<open>An entry whose CRC is wrong, in an archive behind two other bytes.\<close>

definition damaged_es :: "zip_entry list" where
  "damaged_es = [\<lparr>ze_file = demo_file [0x61], ze_data = [1, 2, 3], ze_crc = 7, ze_size = 3\<rparr>]"

definition damaged_fs :: stdio where
  "damaged_fs = empty_fs\<lparr>w_files := [[0x7a] \<mapsto> [0x4d, 0x5a] @ archive_bytes damaged_es []]\<rparr>"

lemma damaged_ok: "archive_ok [0x4d, 0x5a] damaged_es []" "unambiguous [0x4d, 0x5a] damaged_es []"
proof -
  show "archive_ok [0x4d, 0x5a] damaged_es []"
    by (simp add: archive_ok_def damaged_es_def demo_file_def nf_ok_def new_file_name_def
        new_file_comment_def entry_local_def archive_bytes_def)
  show "unambiguous [0x4d, 0x5a] damaged_es []"
  proof (rule unambiguousI)
    show "no_sig [0x50, 0x4b, 0x05, 0x06] (drop (Suc (length [0x4d, 0x5a :: byte] + central_pos damaged_es (length damaged_es)))
        ([0x4d, 0x5a] @ archive_bytes damaged_es []))" by code_simp
    show "no_sig [0x50, 0x4b, 0x06, 0x07] ([0x4d, 0x5a] @ archive_bytes damaged_es [])" by code_simp
  qed
qed

lemma damaged_sel:
  "length damaged_es = 1" "nf_method (ze_file (damaged_es ! 0)) = 0" "ze_size (damaged_es ! 0) = 3"
  "ze_data (damaged_es ! 0) = [1, 2, 3]" "field 4 (ze_crc (damaged_es ! 0)) = 7" "zl_crc32 plain_zlib 0 [1, 2, 3] \<noteq> 7"
  using field_id [of 4 7] by (simp_all add: damaged_es_def demo_file_def plain_zlib_def)

lemma damaged_file:
  "\<not> w_denied damaged_fs p" "w_files damaged_fs [0x7a] = Some ([0x4d, 0x5a] @ archive_bytes damaged_es [])"
  by (simp_all add: damaged_fs_def empty_fs_def)

text \<open>
  A directory with one entry of 5 bytes in ZIP64 form: both sizes are \<open>0xffffffff\<close>, and a block
  of its extra field holds the 64-bit sizes; and a reader that stands at it.
\<close>

definition zip64_directory :: "byte list" where
  "zip64_directory = central_header 45 0 0 0 0 0xffffffff 0xffffffff 0 0 0 [0x61]
     [1, 0, 16, 0, 5, 0, 0, 0, 0, 0, 0, 0, 5, 0, 0, 0, 0, 0, 0, 0] []"

definition demo_info :: unz_file_info64 where
  "demo_info =
     \<lparr>fi_version = 0, fi_version_needed = 0, fi_flag = 0, fi_compression_method = 0, fi_dosDate = 0, fi_crc = 0,
      fi_compressed_size = 0, fi_uncompressed_size = 0, fi_size_filename = 0, fi_size_file_extra = 0,
      fi_size_file_comment = 0, fi_disk_num_start = 0, fi_internal_fa = 0, fi_external_fa = 0,
      fi_tmu_date = \<lparr>tmu_sec = 0, tmu_min = 0, tmu_hour = 0, tmu_mday = 0, tmu_mon = 0, tmu_year = 0\<rparr>\<rparr>"

definition demo_reader :: "(stdio, unit) unz64_s" where
  "demo_reader =
     \<lparr>us_filefunc = stdio_filefunc64, us_is64bitOpenFunction = 1, us_filestream = 2,
      us_gi = \<lparr>gi_number_entry = 1, gi_size_comment = 0\<rparr>, us_byte_before_the_zipfile = 0, us_num_file = 0,
      us_pos_in_central_dir = 0, us_current_file_ok = True, us_central_pos = 0, us_size_central_dir = 0,
      us_offset_central_dir = 0, us_cur_file_info = demo_info,
      us_cur_file_info_internal = \<lparr>offset_curfile = 0\<rparr>, us_pfile_in_zip_read = None, us_encrypted = 0,
      us_isZip64 = 0\<rparr>"

text \<open>Opening an entry of an empty archive.\<close>

abbreviation demo_base :: archive_base where
  "demo_base \<equiv> \<lparr>ab_data = [], ab_dir = [], ab_count = 0\<rparr>"

lemma demo_opened:
  "\<exists>zi' \<sigma>' s'. zipOpenNewFileInZip4_64 plain_zlib (Some (stdio_archive empty_entry 0)) (demo_file [0x61]) plain_sys (one_file [] 0)
      = Some (ZIP_OK, Some zi', \<sigma>', stdio_store 2 s' (one_file [] 0)) \<and> malloc_total \<sigma>' \<and> length (s_data s') = 31
    \<and> arch_open demo_base [] (demo_file [0x61]) [] 0 zi' s' \<and> zi_filefunc zi' = stdio_filefunc64 \<and> zi_filestream zi' = 2"
proof -
  have f: "zi_filefunc (stdio_archive empty_entry 0) = stdio_filefunc64" "zi_filestream (stdio_archive empty_entry 0) = 2"
    by (simp_all add: stdio_archive_def)
  have a: "arch_closed demo_base [] (stdio_archive empty_entry 0) (one_stream [] 0)"
    by (simp add: arch_closed_def arch_dir_def stdio_archive_def at_end_def ll_ok_def ll_bytes_def)
  have nf: "nf_ok (demo_file [0x61])"
    by (simp add: demo_file_def nf_ok_def new_file_name_def new_file_comment_def)
  have n: "length (s_data (one_stream [] 0)) < 0xffffffff"
    "length (s_data (one_stream [] 0) @ entry_header (demo_file [0x61]) 0 0 0) \<le> w_limit (one_file [] 0)"
    by (simp_all add: demo_file_def new_file_name_def entry_header_def)
  have "length (entry_header (demo_file [0x61]) 0 0 0) = 31" by (simp add: demo_file_def new_file_name_def entry_header_def)
  then have len: "length (s_data (s_write (entry_header (demo_file [0x61]) 0 0 0) (one_stream [] 0))) = 31"
    by (cases "entry_header (demo_file [0x61]) 0 0 0") (simp_all add: s_write_def overwrite_def)
  from stdio64.new_file_open_eq [OF f fetch_one_file a nf plain_sys_total n, of plain_zlib] len f show ?thesis
    by (auto simp: zipOpenNewFileInZip4_64_def same_archive_def stdio_archive_def demo_file_def)
qed

lemma demo_open:
  "\<exists>zi' \<sigma>' w'. zipOpenNewFileInZip4_64 plain_zlib (Some (stdio_archive empty_entry 0)) (demo_file [0x61]) plain_sys (one_file [] 0)
      = Some (ZIP_OK, Some zi', \<sigma>', w') \<and> zi_in_opened_file_inzip zi' = 1"
  using demo_opened by (auto simp: arch_open_def)

lemma plain_zlib_init: "deflate_init_keeps plain_zlib"
  by (simp add: deflate_init_keeps_def plain_zlib_def)

text \<open>The two entries in a file, and an empty console to extract them on.\<close>

definition demo_fs :: stdio where
  "demo_fs = empty_fs\<lparr>w_files := [[0x7a] \<mapsto> [] @ archive_bytes demo_es []]\<rparr>"

definition demo_console :: console where
  "demo_console = \<lparr>con_files = empty_fs, con_dirs = [], con_times = [], con_input = [], con_printed = []\<rparr>"

lemma demo_fs_sel: "\<not> w_denied demo_fs p" "w_files demo_fs [0x7a] = Some ([] @ archive_bytes demo_es [])"
  by (simp_all add: demo_fs_def empty_fs_def)

lemma demo_names: "demo_es \<noteq> []" "names_ok demo_es"
  by (simp_all add: demo_es_def names_ok_def job_entry_def demo_job_def demo_file_def new_file_name_def)

definition demo_contents :: "(zip_entry \<times> byte list) list" where
  "demo_contents = map (\<lambda>e. (e, ze_data e)) demo_es"

lemma demo_contents: "demo_es = map fst demo_contents"
  by (simp add: demo_contents_def comp_def)

lemma demo_extractable: "\<forall>x \<in> set demo_contents. extractable plain_zlib wp (con_env demo_console) x"
proof -
  have "field 4 (zl_crc32 plain_zlib 0 bs) = zl_crc32 plain_zlib 0 bs" for bs
    using plain_crc32(2) by (intro field_id) (simp_all add: crc32_small_def)
  moreover have "zl_crc32 plain_zlib (zl_crc32 plain_zlib 0 xs) ys = zl_crc32 plain_zlib 0 (xs @ ys)" for xs ys
    using foldl_crc32 [OF plain_crc32(1), of 0 "[xs, ys]"] by simp
  ultimately show ?thesis
    by (simp add: extractable_def holds_def demo_contents_def demo_es_def job_entry_def demo_job_def demo_file_def con_env_def
        demo_console_def empty_fs_def)
qed

lemma demo_console_empty: "con_view demo_console = Map.empty" "w_streams (con_files demo_console) = Map.empty"
  by (simp_all add: con_view_def demo_console_def empty_fs_def)

lemma demo_extracted: "fold (extracted wp) demo_contents Map.empty = [[0x61] \<mapsto> [1, 2, 3], [0x62] \<mapsto> [4]]"
  by (cases "wp = 0") (simp_all add: demo_contents_def demo_es_def job_entry_def demo_job_def demo_file_def is_directory_def
      output_name_def new_file_name_def without_path_def separator_def)

text \<open>An archive that lost its directory: the two entries, and two bytes of the signature that followed.\<close>

definition cut_fs :: stdio where
  "cut_fs = empty_fs\<lparr>w_files := [[0x7a] \<mapsto> locals demo_es @ [0x50, 0x4b]]\<rparr>"

lemma cut_ok:
  "repair_paths cut_fs [0x7a] [0x6f] [0x74] (locals demo_es @ [0x50, 0x4b])" "\<forall>e \<in> set demo_es. repairable e"
  "length (archive_bytes (map repaired demo_es) []) = 182" "w_limit cut_fs = 2 ^ 40" "data_total demo_es = 4"
  by (simp_all add: cut_fs_def empty_fs_def repair_paths_def demo_es_def job_entry_def demo_job_def demo_file_def
      repairable_def new_file_name_def repaired_def repaired_file_def archive_bytes_def entry_central_def
      new_file_comment_def entry_local_def data_total_def)

end
