(* ===== verification/CodecInstance.thy ===== *)
theory CodecInstance
  imports Instances DeflateArchive
begin

text \<open>
  A zlib that really codes: every byte is complemented and a zero byte ends the stream. The
  contract of \<open>Codec\<close> holds for it, so that the witnesses can compress; and two archives made with it.
\<close>

section \<open>The codec\<close>

text \<open>A stream remembers the bytes it has taken and, in a compressor, whether the end is out.\<close>

type_synonym flip = "byte list \<times> bool"

definition flip_move :: "nat \<Rightarrow> byte list \<Rightarrow> flip \<Rightarrow> flip z_stream \<Rightarrow> flip z_stream" where
  "flip_move k bs z s =
     s\<lparr>next_in := drop k (next_in s), avail_out := avail_out s - length bs, next_out := next_out s + length bs,
       total_in := total_in s + of_nat k, total_out := total_out s + of_nat (length bs), zstate := z\<rparr>"

definition flip_deflate :: "flip z_stream \<Rightarrow> int \<Rightarrow> int \<times> byte list \<times> flip z_stream" where
  "flip_deflate s flush =
     (let (taken, ended) = zstate s; k = min (avail_in s) (avail_out s)
      in if flush = Z_FINISH \<and> next_in s = [] \<and> \<not> ended \<and> 0 < avail_out s then (Z_STREAM_END, [0], flip_move 0 [0] (taken, True) s)
         else (Z_OK, map NOT (take k (next_in s)), flip_move k (map NOT (take k (next_in s))) (taken @ take k (next_in s), ended) s))"

text \<open>The decompressor holds back the last byte it has taken: it may be the end.\<close>

definition flip_inflate :: "flip z_stream \<Rightarrow> int \<Rightarrow> int \<times> byte list \<times> flip z_stream" where
  "flip_inflate s flush =
     (let (taken, e) = zstate s; k = min (avail_in s) (avail_out s); taken' = taken @ take k (next_in s);
          bs = drop (length taken - 1) (map NOT (butlast taken'))
      in (Z_OK, bs, flip_move k bs (taken', e) s))"

definition flip_zlib :: "flip zlib" where
  "flip_zlib =
     \<lparr>zl_crc32 = zl_crc32 plain_zlib, zl_crc_table = (\<lambda>i. of_nat i),
      zl_deflateInit2 = (\<lambda>s a b c d e. (Z_OK, s\<lparr>total_in := 0, total_out := 0, zstate := ([], False)\<rparr>)),
      zl_deflate = flip_deflate, zl_deflateEnd = (\<lambda>s. (Z_OK, s)),
      zl_inflateInit2 = (\<lambda>s a. (Z_OK, s\<lparr>total_in := 0, total_out := 0, msg_set := False, zstate := ([], False)\<rparr>)),
      zl_inflate = flip_inflate, zl_inflateEnd = (\<lambda>s. (Z_OK, s))\<rparr>"

definition flip_view :: "flip codec_view" where
  "flip_view =
     \<lparr>cv_live = (\<lambda>z. \<not> snd z), cv_last = (\<lambda>z. False), cv_ended = snd, cv_taken = fst,
      cv_given = (\<lambda>z. map NOT (fst z) @ (if snd z then [0] else [])), cv_bound = Suc,
      cv_coded = (\<lambda>d c. c = map NOT d @ [0]),
      iv_live = (\<lambda>z. True), iv_taken = fst, iv_given = (\<lambda>z. map NOT (butlast (fst z)))\<rparr>"

lemma flip_move_step: "k \<le> avail_in s \<Longrightarrow> length bs \<le> avail_out s \<Longrightarrow> strm_step s bs (flip_move k bs z s)"
  by (simp add: strm_step_def flip_move_def suffix_drop)

lemma flip_move_sel [simp]:
  "next_in (flip_move k bs z s) = drop k (next_in s)" "zstate (flip_move k bs z s) = z" "msg_set (flip_move k bs z s) = msg_set s"
  by (simp_all add: flip_move_def)

lemma flip_view_sel [simp]:
  "cv_live flip_view z \<longleftrightarrow> \<not> snd z" "\<not> cv_last flip_view z" "cv_ended flip_view z \<longleftrightarrow> snd z" "cv_taken flip_view z = fst z"
  "cv_given flip_view z = map NOT (fst z) @ (if snd z then [0] else [])" "cv_bound flip_view = Suc"
  "cv_coded flip_view d c \<longleftrightarrow> c = map NOT d @ [0]" "iv_live flip_view z" "iv_taken flip_view z = fst z"
  "iv_given flip_view z = map NOT (butlast (fst z))"
  by (simp_all add: flip_view_def)

lemma flip_crc32: "crc32_streams flip_zlib" "crc32_small flip_zlib"
  using plain_crc32 by (simp_all add: crc32_streams_def crc32_small_def flip_zlib_def)

lemma flip_deflates: "deflates flip_zlib flip_view"
proof -
  have "deflate_starts flip_zlib flip_view" by (simp add: deflate_starts_def flip_zlib_def)
  moreover have "deflate_progress flip_zlib flip_view" unfolding deflate_progress_def
  proof (intro allI impI, goal_cases)
    case (1 s)
    let ?k = "min (avail_in s) (avail_out s)"
    let ?bs = "map NOT (take ?k (next_in s))"
    have "zl_deflate flip_zlib s Z_NO_FLUSH = (Z_OK, ?bs, flip_move ?k ?bs (fst (zstate s) @ take ?k (next_in s), snd (zstate s)) s)"
      by (simp add: flip_zlib_def flip_deflate_def split_beta Let_def)
    moreover have "strm_step s ?bs (flip_move ?k ?bs z s)" for z by (rule flip_move_step) simp_all
    ultimately show ?case using 1 by (auto simp: deflate_call_def)
  qed
  moreover have "deflate_finishes flip_zlib flip_view" unfolding deflate_finishes_def
  proof (intro conjI allI impI, goal_cases)
    case (1 s)
    then have "zl_deflate flip_zlib s Z_FINISH = (Z_STREAM_END, [0], flip_move 0 [0] (fst (zstate s), True) s)"
      by (simp add: flip_zlib_def flip_deflate_def split_beta Let_def)
    moreover have "strm_step s [0] (flip_move 0 [0] z s)" for z using 1 by (intro flip_move_step) simp_all
    ultimately show ?case using 1 by (simp add: deflate_call_def)
  qed (simp add: flip_zlib_def)
  ultimately show ?thesis by (simp add: deflates_def mono_Suc)
qed

lemma prefix_butlast_snoc: "prefix xs (ys @ [y]) \<Longrightarrow> prefix (butlast xs) ys"
  using prefix_order.trans [OF prefixeq_butlast] by (fastforce simp: prefix_snoc)

lemma flip_inflates: "inflates flip_zlib flip_view"
proof -
  have "inflate_starts flip_zlib flip_view" by (simp add: inflate_starts_def flip_zlib_def)
  moreover have "inflate_progress flip_zlib flip_view" unfolding inflate_progress_def
  proof (intro allI impI, elim conjE, goal_cases)
    case (1 s d c)
    let ?t = "fst (zstate s)" and ?k = "min (avail_in s) (avail_out s)"
    let ?new = "?t @ take ?k (next_in s)"
    let ?bs = "drop (length ?t - 1) (map NOT (butlast ?new))"
    have c: "c = map NOT d @ [0]" using 1(1) by simp
    have in1: "next_in s \<noteq> []"
    proof
      assume "next_in s = []"
      then have "?t = c" using 1(7) by simp
      then have "iv_given flip_view (zstate s) = d" by (simp add: c comp_def)
      with 1(5) show False by simp
    qed
    have call: "zl_inflate flip_zlib s Z_SYNC_FLUSH = (Z_OK, ?bs, flip_move ?k ?bs (?new, snd (zstate s)) s)"
      by (simp add: flip_zlib_def flip_inflate_def split_beta Let_def)
    have step: "strm_step s ?bs (flip_move ?k ?bs z s)" for z by (rule flip_move_step) auto
    have "take (length ?t - 1) (butlast ?new) = butlast ?t"
      by (cases ?t rule: rev_cases) (simp_all add: butlast_append)
    then have given: "map NOT (butlast ?new) = map NOT (butlast ?t) @ ?bs"
      using append_take_drop_id [of "length ?t - 1" "map NOT (butlast ?new)"] by (simp add: take_map)
    have "prefix ?new (?t @ next_in s)" by (simp add: take_is_prefix)
    then have "prefix ?new c" using 1(4) unfolding flip_view_sel by (rule prefix_order.trans)
    then have "prefix (butlast ?new) (map NOT d)"
      unfolding c by (rule prefix_butlast_snoc)
    then have "prefix (map NOT (butlast ?new)) (map NOT (map NOT d))" by (rule map_mono_prefix)
    then have pre: "prefix (map NOT (butlast ?new)) d" by (simp add: comp_def)
    have "avail_in s - ?k < avail_in s" using in1 1(6) by simp
    then show ?case using call step given pre 1(3) by (auto simp: inflate_call_def)
  qed
  ultimately show ?thesis by (simp add: inflates_def)
qed

section \<open>Two files, packed and unpacked\<close>

text \<open>
  \<open>minizip -9 z.z x d/y\<close> and \<open>miniunz -o z.z\<close>, and the memory the second tool starts with.
\<close>

definition demo_shell :: shell where
  "demo_shell =
     \<lparr>sh_files = empty_fs\<lparr>w_files := [[0x78] \<mapsto> [1, 2, 3], [0x64, 0x2f, 0x79] \<mapsto> [4]]\<rparr>, sh_mtime = (\<lambda>p. None),
      sh_localtime = (\<lambda>t. \<lparr>tm_sec = 0, tm_min = 0, tm_hour = 0, tm_mday = 1, tm_mon = 0, tm_year = 70\<rparr>),
      sh_input = [], sh_printed = []\<rparr>"

abbreviation demo_names_packed :: "path list" where
  "demo_names_packed \<equiv> [[0x78], [0x64, 0x2f, 0x79]]"

definition pack_argv :: "byte list list" where
  "pack_argv = [[0x6d], [0x2d, 0x39], [0x7a, 0x2e, 0x7a], [0x78], [0x64, 0x2f, 0x79]]"

definition demo_pack :: pack_options where
  "demo_pack = \<lparr>po_overwrite = 0, po_level = 9, po_exclude_path = 0, po_zipfilenamearg = 2, po_password = None\<rparr>"

definition unpack_argv :: "byte list list" where
  "unpack_argv = [[0x6d], [0x2d, 0x6f], [0x7a, 0x2e, 0x7a]]"

definition demo_unpack :: unpack_options where
  "demo_unpack = unpack_defaults\<lparr>uo_overwrite := 1, uo_zipfilename := Some [0x7a, 0x2e, 0x7a]\<rparr>"

definition demo_memory :: "flip memory" where
  "demo_memory = \<lparr>m_info = demo_info, m_internal = \<lparr>offset_curfile = 0\<rparr>, m_strm = blank_stream ([], False),
     m_names = (\<lambda>i. replicate 256 0), m_located = replicate 256 0, m_number = replicate 21 0, m_blocks = (\<lambda>i j. 0)\<rparr>"

lemma demo_pack_args: "pack_args pack_argv 1 pack_defaults = demo_pack"
  by code_simp

lemma demo_unpack_args: "unpack_args unpack_argv 1 unpack_defaults = demo_unpack"
  by code_simp

lemma demo_pack_call: "pack_call pack_argv (\<lambda>i. 0) demo_shell demo_pack [0x7a, 0x2e, 0x7a] demo_names_packed"
  unfolding pack_call_def demo_pack_args
  by (simp add: demo_pack_def pack_argv_def archive_name_def copy_name_def MAXFILENAME_def c_string_def demo_shell_def empty_fs_def
      file_args_def option_arg_iff packable_def)

lemma demo_unpack_call: "unpack_call unpack_argv [0x7a, 0x2e, 0x7a] demo_unpack"
  unfolding unpack_call_def demo_unpack_args by (simp add: demo_unpack_def unpack_argv_def unpack_defaults_def)

lemma demo_pack_rooms:
  "pack_room flip_view demo_pack demo_shell demo_names_packed < 0xffffffff"
  "pack_total flip_view demo_pack demo_shell demo_names_packed \<le> 2 ^ 40"
  "pack_total flip_view demo_pack demo_shell demo_names_packed < 0xffffffff"
proof -
  have nc: "new_file_comment (packed_file opts d f) = []" "nf_extrafield_local (packed_file opts d f) = []"
    "nf_extrafield_global (packed_file opts d f) = []" "nf_zip64 (packed_file opts d f) = 0" for opts d f
    by (simp_all add: packed_file_def new_file_comment_def)
  show "pack_room flip_view demo_pack demo_shell demo_names_packed < 0xffffffff"
    "pack_total flip_view demo_pack demo_shell demo_names_packed \<le> 2 ^ 40"
    "pack_total flip_view demo_pack demo_shell demo_names_packed < 0xffffffff"
    by (simp_all add: pack_total_def pack_room_def job_room_def job_central_def stored_size_def nc saved_name_def separator_def
        file_data_def demo_shell_def demo_pack_def)
qed

text \<open>The entries, up to the marks of the compressor.\<close>

definition packed_literal :: "byte list \<Rightarrow> new_file" where
  "packed_literal name = (demo_file name)\<lparr>nf_zipfi := Some (pack_fileinfo
     \<lparr>tm_sec = 0, tm_min = 0, tm_hour = 0, tm_mday = 1, tm_mon = 0, tm_year = 70\<rparr>),
     nf_method := Z_DEFLATED, nf_level := 9, nf_windowBits := -15, nf_memLevel := 8, nf_versionMadeBy := VERSIONMADEBY\<rparr>"

definition literal_es :: "int \<Rightarrow> int \<Rightarrow> zip_entry list" where
  "literal_es t u = [\<lparr>ze_file = compressed_file t (packed_literal [0x78]), ze_data = [0xfe, 0xfd, 0xfc, 0], ze_crc = 6, ze_size = 3\<rparr>,
     \<lparr>ze_file = compressed_file u (packed_literal [0x64, 0x2f, 0x79]), ze_data = [0xfb, 0], ze_crc = 4, ze_size = 1\<rparr>]"

lemma packed_literal:
  assumes "list_all2 (packed flip_zlib flip_view demo_pack demo_shell) demo_names_packed es"
  shows "\<exists>t u. es = literal_es t u"
proof -
  have t: "filetime 0 f demo_shell = Some (0, \<lparr>tm_sec = 0, tm_min = 0, tm_hour = 0, tm_mday = 1, tm_mon = 0, tm_year = 70\<rparr>)"
    if "f \<noteq> []" for f using that by (simp add: filetime_def demo_shell_def Let_def)
  have f: "packed_file demo_pack demo_shell f = packed_literal f" if "f \<noteq> []" "hd f \<noteq> 0x2f" "hd f \<noteq> 0x5c" for f
    using that t [of f] by (cases f) (simp_all add: packed_file_def packed_literal_def demo_file_def saved_name_def demo_pack_def separator_def)
  have c: "nf_compressed (packed_literal f)" for f by (simp add: nf_compressed_def packed_literal_def demo_file_def)
  have d: "file_data demo_shell [0x78] = [1, 2, 3]" "file_data demo_shell [0x64, 0x2f, 0x79] = [4]"
    by (simp_all add: file_data_def demo_shell_def)
  from assms obtain x y t u where "es = [x, y]"
    "ze_file x = compressed_file t (packed_literal [0x78])" "ze_data x = [0xfe, 0xfd, 0xfc, 0]" "ze_crc x = 6" "ze_size x = 3"
    "ze_file y = compressed_file u (packed_literal [0x64, 0x2f, 0x79])" "ze_data y = [0xfb, 0]" "ze_crc y = 4" "ze_size y = 1"
    by (auto simp: list_all2_Cons1 packed_def job_done_def entry_made_def f c d flip_zlib_def plain_zlib_def)
  then have "es = literal_es t u" by (simp add: literal_es_def)
  then show ?thesis by blast
qed

lemma compressed_file_cases: "compressed_file t nf = compressed_file (if t = Z_ASCII then Z_ASCII else Z_BINARY) nf"
  by (simp add: compressed_file_def marked_def)

lemma literal_unambiguous: "unambiguous [] (literal_es t u) []"
proof -
  have "unambiguous [] (literal_es t u) []" if "t \<in> {Z_ASCII, Z_BINARY}" "u \<in> {Z_ASCII, Z_BINARY}" for t u
  proof (rule unambiguousI)
    show "no_sig [0x50, 0x4b, 0x05, 0x06] (drop (Suc (length ([] :: byte list) + central_pos (literal_es t u) (length (literal_es t u))))
        ([] @ archive_bytes (literal_es t u) []))" using that by (elim insertE emptyE; hypsubst) code_simp+
    show "no_sig [0x50, 0x4b, 0x06, 0x07] ([] @ archive_bytes (literal_es t u) [])"
      using that by (elim insertE emptyE; hypsubst) code_simp+
  qed
  from this [of "if t = Z_ASCII then Z_ASCII else Z_BINARY" "if u = Z_ASCII then Z_ASCII else Z_BINARY"] show ?thesis
    using compressed_file_cases [of t] compressed_file_cases [of u] by (simp add: literal_es_def split: if_splits)
qed

section \<open>A stored and a compressed entry\<close>

definition flip_jobs :: "job list" where
  "flip_jobs = [demo_job [0x61] [[4]], \<lparr>job_file = packed_literal [0x62], job_chunks = [[1], [2, 3]], job_usize = 0, job_crc = 0\<rparr>]"

definition flip_es :: "int \<Rightarrow> zip_entry list" where
  "flip_es t = [\<lparr>ze_file = demo_file [0x61], ze_data = [4], ze_crc = 4, ze_size = 1\<rparr>,
     \<lparr>ze_file = compressed_file t (packed_literal [0x62]), ze_data = [0xfe, 0xfd, 0xfc, 0], ze_crc = 6, ze_size = 3\<rparr>]"

lemma flip_files:
  "nf_ok (demo_file n) \<longleftrightarrow> length n < 2 ^ 16" "nf_deflate (packed_literal n) \<longleftrightarrow> length n < 2 ^ 16"
  "\<not> nf_compressed (demo_file n)" "nf_compressed (packed_literal n)" "nf_raw (demo_file n) = 0" "nf_raw (packed_literal n) = 0"
  "new_file_name (demo_file n) = n" "new_file_name (packed_literal n) = n" "new_file_comment (demo_file n) = []"
  "new_file_comment (packed_literal n) = []" "nf_extrafield_local (packed_literal n) = []" "nf_extrafield_global (packed_literal n) = []"
  "nf_extrafield_local (demo_file n) = []" "nf_extrafield_global (demo_file n) = []" "nf_zip64 (demo_file n) = 0" "nf_zip64 (packed_literal n) = 0"
  by (simp_all add: demo_file_def packed_literal_def nf_ok_def nf_compressed_def new_file_name_def new_file_comment_def
      nf_deflate_def nf_small_def deflate_params_def)

lemma flip_jobs_fit: "\<forall>j \<in> set flip_jobs. job_fits flip_zlib flip_view j"
  by (simp add: flip_jobs_def demo_job_def job_fits_def job_data_def nf_writable_def stored_size_def flip_files flip_deflates)

lemma flip_jobs_room:
  "(\<Sum>j\<leftarrow>flip_jobs. job_room flip_view j) = 67" "(\<Sum>j\<leftarrow>flip_jobs. job_central j) = 94"
  by (simp_all add: flip_jobs_def demo_job_def job_room_def job_central_def job_data_def stored_size_def flip_files)

lemma flip_jobs_sel: "length flip_jobs = 2" "job_file (flip_jobs ! 1) = packed_literal [0x62]" "concat (job_chunks (flip_jobs ! 1)) = [1, 2, 3]"
  by (simp_all add: flip_jobs_def)

lemma flip_jobs_unambiguous: "list_all2 (job_done flip_zlib flip_view) flip_jobs es \<Longrightarrow> unambiguous [] es []"
proof -
  assume "list_all2 (job_done flip_zlib flip_view) flip_jobs es"
  then obtain x t where x: "es = [\<lparr>ze_file = demo_file [0x61], ze_data = [4], ze_crc = 4, ze_size = 1\<rparr>, x]"
    "ze_file x = compressed_file t (packed_literal [0x62])" "ze_data x = [0xfe, 0xfd, 0xfc, 0]" "ze_crc x = 6" "ze_size x = 3"
    by (auto simp: list_all2_Cons1 flip_jobs_def demo_job_def job_done_def entry_made_def job_data_def flip_files flip_zlib_def plain_zlib_def)
  have "unambiguous [] (flip_es t) []" if "t \<in> {Z_ASCII, Z_BINARY}" for t
  proof (rule unambiguousI)
    show "no_sig [0x50, 0x4b, 0x05, 0x06] (drop (Suc (length ([] :: byte list) + central_pos (flip_es t) (length (flip_es t))))
        ([] @ archive_bytes (flip_es t) []))" using that by (elim insertE emptyE; hypsubst) code_simp+
    show "no_sig [0x50, 0x4b, 0x06, 0x07] ([] @ archive_bytes (flip_es t) [])"
      using that by (elim insertE emptyE; hypsubst) code_simp+
  qed
  from this [of "if t = Z_ASCII then Z_ASCII else Z_BINARY"] have "unambiguous [] (flip_es t) []"
    using compressed_file_cases [of t] by (simp add: flip_es_def split: if_splits)
  moreover have "es = flip_es t" using x by (simp add: flip_es_def)
  ultimately show ?thesis by simp
qed

end
