(* ===== verification/Spec2Isabelle.thy ===== *)
theory Spec2Isabelle
  imports CodecInstance
begin

text \<open>
  A verification of the C code of the repository and of the small C++ utilities beside it. The
  repository (supercell) is a build system with the bundled sources of its dependencies; what is
  program code in C is \<open>dep/linux/zlib/minizip\<close>, a library that writes and reads ZIP archives with
  two tools and a repair function on top, and \<open>dep/linux/mongodb/mongo/util/md5.c\<close>.

  \<^bold>\<open>The program and its parts.\<close> A client of \<open>zip.c\<close> opens an archive (\<open>zipOpen3\<close>), opens, writes and
  closes entries (\<open>zipOpenNewFileInZip4_64\<close>, \<open>zipWriteInFileInZip\<close>, \<open>zipCloseFileInZipRaw64\<close>) and
  closes it (\<open>zipClose\<close>). Local headers and data go to the file; the central directory is kept in a
  list of blocks and written at the end. A client of \<open>unzip.c\<close> opens an archive (\<open>unzOpenInternal\<close>
  finds the end records by searching backwards), moves over the directory (\<open>unzGoToNextFile\<close>,
  \<open>unzLocateFile\<close>, file positions), and opens, reads and closes the current entry. Both do all I/O
  through the callback tables of \<open>ioapi.h\<close>, usually those over C stdio. \<open>minizip.c\<close> is a client of the
  writer that packs the files named on its command line, \<open>miniunz.c\<close> a client of the reader that lists
  and extracts; \<open>mztools.c\<close> rebuilds the directory of a damaged archive, on stdio and without the
  library.

  \<^bold>\<open>Theories, in the order of the code.\<close>
  \<^item> \<open>Prelude\<close>: machine types (LP64: \<open>uLong\<close> and \<open>ZPOS64_T\<close> have 64 bits), result codes, the C
    runtime, little-endian bytes. A C string is the list of its bytes; \<open>None\<close> is undefined
    behaviour or a run that does not end; \<open>malloc\<close>, \<open>rand\<close> and \<open>time\<close> are answered by a record \<open>sys\<close>.
  \<^item> \<open>Ioapi\<close>: the callback tables and their dispatch (\<open>ioapi.c\<close>, \<open>ioapi.h\<close>), C stdio as a file
    system with \<open>FILE\<close> objects, and the locale \<open>filefunc\<close>, a seekable byte stream, which the stdio
    callbacks (64-bit and 32-bit) interpret. Everything the archive code proves rests on it.
  \<^item> \<open>Crypt\<close>: \<open>crypt.h\<close>; \<open>ZipBytes\<close>: the fields (\<open>zip64local_putValue\<close>, \<open>getShort\<close>, \<open>getLong\<close>, ...);
    \<open>DataBlocks\<close>: \<open>linkedlist_data\<close>; \<open>Search\<close>: \<open>SearchCentralDir\<close>; \<open>Zlib\<close>, \<open>Codec\<close>: zlib as a
    record of functions, with the documented properties that are used as named predicates: the CRC,
    and the contract of a compressor (\<open>deflates\<close>) and a decompressor (\<open>inflates\<close>) over views of the stream.
  \<^item> \<open>ZipState\<close>, \<open>ZipEntry\<close>, \<open>ZipOpen\<close>, \<open>ZipClose\<close>: the records \<open>zip64_internal\<close> and
    \<open>curfile64_info\<close> and the operations of \<open>zip.c\<close>; \<open>ZipWrite\<close>: what the write buffer does;
    \<open>ZipRun\<close>: any sequence of calls as a step relation, and its invariant; \<open>ExtraField\<close>:
    \<open>zipRemoveExtraInfoBlock\<close>.
  \<^item> \<open>UnzState\<close>, \<open>UnzInfo\<close>, \<open>UnzRead\<close>: the records and operations of \<open>unzip.c\<close>.
  \<^item> \<open>Dates\<close>: DOS dates. \<open>ZipFormat\<close>, \<open>Archive\<close>, \<open>ArchiveRun\<close>: the abstract archive (a list of
    entries with their data), the bytes it stands for, and that the writer produces them.
    \<open>UnzFormat\<close>, \<open>UnzArchive\<close>, \<open>UnzData\<close>, \<open>RoundTrip\<close>, \<open>UnzNames\<close>: that the reader finds in these
    bytes the entries, names and data. \<open>Deflate\<close>, \<open>DeflateArchive\<close>: the write loop, the finishing loop
    and whole runs when entries are compressed (\<open>job_done\<close> relates what is to be written with the entry
    it becomes); \<open>Inflate\<close>: the read loop on a compressed entry (\<open>holds\<close>: what an entry stands for).
  \<^item> \<open>UnzClient\<close>, \<open>Miniunz\<close>: \<open>miniunz.c\<close>; the operating system is a record of functions with the
    locale \<open>out_system\<close>. \<open>MiniunzSpec\<close>: what the tool prints and extracts, and a console over stdio
    that interprets the locale; \<open>MiniunzSafe\<close>: the locale \<open>confined\<close>, for hostile archives;
    \<open>MiniunzMain\<close>: its command line and \<open>main\<close>.
  \<^item> \<open>Minizip\<close>: \<open>minizip.c\<close>, in a world \<open>shell\<close> with one file system for the archive and the files.
    \<open>MinizipSpec\<close>: that it stores or deflates what it is given. \<open>Mztools\<close>, \<open>MztoolsSpec\<close>: \<open>unzRepair\<close>, and that it
    makes the archive of the entries it finds.
  \<^item> \<open>Md5\<close>, \<open>Md5Spec\<close>: \<open>md5.c\<close> and \<open>md5.hpp\<close>, with RFC 1321 as the reference. \<open>Base64\<close>: \<open>base64.cpp\<close>
    and \<open>hex.h\<close>. \<open>TextUtil\<close>: \<open>text.h\<close>, \<open>text.cpp\<close>, \<open>stringutils.cpp\<close>.
  \<^item> \<open>Instances\<close>, \<open>CodecInstance\<close>: concrete parameters for the witnesses, with a codec that satisfies
    the contract of \<open>Codec\<close>. This theory: the properties.

  \<^bold>\<open>What is shown.\<close> The bytes of a written archive are exactly those of the format; what was written,
  stored or deflated, is read back, behind other data too; a wrong CRC is reported; \<open>miniunz\<close> extracts everything and,
  without paths, stays in its directory whatever the archive holds; what \<open>minizip\<close> packs comes
  back from it; a lost directory is rebuilt. Single components: the
  encoding of fields, the backward search, the block list, the write buffer, the cipher, dates,
  names, positions. MD5 is RFC 1321, for messages in pieces; the text utilities have their exact
  specifications. Several theorems record where the code does not do what it means to
  (\<open>zip64_sizes_never_read\<close>, \<open>getLong_past_end\<close>, \<open>remove_extra_keeps_last\<close>,
  \<open>set_offset_hides_offset\<close>, \<open>splitter_leaves_delimiter\<close>).

  \<^bold>\<open>Loops and bounds.\<close> Loops whose end depends on a callback, on zlib or on the user are
  \<open>partial_function (option)\<close>, and \<open>None\<close> is a run that does not end; the theorems on archives
  state that the result is \<open>Some\<close>. All other loops are functions with a measure; there is no fuel.
  The hypotheses \<open>archive_ok\<close> and \<open>unambiguous\<close> bound the sizes by the limits of the format without
  ZIP64 and exclude an archive whose comment or data spells an end record in the searched window.

  \<^bold>\<open>Not modelled.\<close> zlib and the operating system are parameters. The files \<open>miniunz\<close> writes are in
  another file system than the archive it reads, so that extracting over the open archive is left
  out. bzip2, decryption on reading and
  the Windows callbacks (\<open>iowin32.c\<close>) are not compiled in this build. \<open>ArchiveRun\<close> states the bytes of
  archives of stored and raw entries exactly; the bytes of a deflated entry depend on zlib, so that
  there the theorems speak of any archive that the contract allows. The C++ sources of the database clients and the XML
  headers are bundled third-party interfaces to servers and are left out but for the utilities
  above.
\<close>

section \<open>An archive, written and read back\<close>

lemma archive_ok_jobs:
  assumes "archive_ok [] (map (job_entry Z) js) c"
  shows "\<forall>j \<in> set js. job_ok j"
  using assms by (auto simp: archive_ok_def job_ok_def job_entry_def)

text \<open>
  C1: \<open>zipOpen64\<close>, the entries one after another (\<open>zipOpenNewFileInZip4_64\<close>,
  \<open>zipWriteInFileInZip\<close> for each chunk, \<open>zipCloseFileInZipRaw64\<close>) and \<open>zipClose\<close> leave
  exactly the local headers with the data, the central directory and the end record, and no
  other file is touched.
\<close>

theorem archive_written_exactly:
  assumes "\<not> w_denied w path" "malloc_total \<sigma>" "es = map (job_entry Z) js" "c = case_option [] id comment"
    "archive_ok [] es c" "length (archive_bytes es c) \<le> w_limit w"
  shows "\<exists>\<sigma>' w'. make_archive Z ci0 path js comment \<sigma> w = Some (ZIP_OK, \<sigma>', w')
    \<and> w_files w' = (w_files w)(path \<mapsto>
        locals es @ central_dir 0 es @
        end_of_central_dir (of_nat (length es)) (of_nat (length (central_dir 0 es))) (of_nat (length (locals es))) c)"
proof -
  have "length c < 2 ^ 64" "length (locals es) < 0xffffffff" using assms(5) by (simp_all add: archive_ok_def)
  with make_archive_eq [OF assms(1,2) _ assms(3,4)] archive_ok_jobs assms show ?thesis
    unfolding archive_bytes_def by metis
qed

theorem archive_written_exactly_witness:
  "\<exists>\<sigma>' w'. make_archive plain_zlib empty_entry [0x7a] [demo_job [0x61] [[1], [2, 3]], demo_job [0x62] [[4]]] None plain_sys empty_fs
      = Some (ZIP_OK, \<sigma>', w')
    \<and> w_files w' = [[0x7a] \<mapsto> locals demo_es @ central_dir 0 demo_es @ end_of_central_dir 2 94 66 []]"
proof -
  have "length (central_dir 0 demo_es) = 94" "length (locals demo_es) = 66" "length demo_es = 2"
    by (simp_all add: demo_es_def job_entry_def demo_job_def demo_file_def new_file_name_def
        new_file_comment_def entry_local_def entry_central_def)
  with archive_written_exactly [of empty_fs "[0x7a]" plain_sys demo_es plain_zlib
      "[demo_job [0x61] [[1], [2, 3]], demo_job [0x62] [[4]]]" "[]" None empty_entry]
  show ?thesis using plain_sys_total demo_ok by (simp add: demo_es_def [symmetric]) (simp add: demo_es_def empty_fs_def)
qed

text \<open>
  C2: What was written is read back, stored or deflated. Any jobs that fit the format without ZIP64
  are written as entries, the data of each in chunks; a client of \<open>unzip.c\<close> that opens the archive,
  goes to the \<open>n\<close>-th entry, opens it, reads it into a buffer that is large enough and closes it gets
  \<open>UNZ_OK\<close> from every call, the number of bytes, and exactly the bytes that were written, whatever
  the file system does with the rest. Of the compressor and the decompressor only their documented
  contract is used (\<open>deflates\<close>, \<open>inflates\<close>), and only if the entry, or some entry, is compressed.
\<close>

theorem archive_roundtrip:
  fixes Z :: "'z zlib"
  assumes "crc32_streams Z" "crc32_small Z" "malloc_total \<sigma>" "malloc_total \<sigma>2" "\<not> w_denied w path"
    and js: "\<forall>j \<in> set js. job_fits Z V j" "length js < 0xffff"
    and c: "c = case_option [] id comment" "length c < 0xffff - 22"
    and room: "(\<Sum>j\<leftarrow>js. job_room V j) < 0xffffffff" "(\<Sum>j\<leftarrow>js. job_central j) < 0xffffffff"
      "(\<Sum>j\<leftarrow>js. job_room V j) + (\<Sum>j\<leftarrow>js. job_central j) + 22 + length c \<le> w_limit w"
    and found: "\<forall>es. list_all2 (job_done Z V) js es \<longrightarrow> unambiguous [] es c"
    and n: "n < length js" "nf_raw (job_file (js ! n)) = 0" "nf_method (job_file (js ! n)) = 0 \<or> inflates Z V"
    and data: "data = concat (job_chunks (js ! n))" "length data \<le> unat len" "length data < 2 ^ 31"
  shows "\<exists>\<sigma>' w1 w2. make_archive Z ci0 path js comment \<sigma> w = Some (ZIP_OK, \<sigma>', w1)
    \<and> extract_from Z strm0 fi0 fii0 path n buf len \<sigma>2 w1
      = Some (UNZ_OK, int (length data), UNZ_OK, buf_write 0 data buf, w2)"
proof -
  have "length c < 2 ^ 64" using c(2) by simp
  then obtain \<sigma>' w1 es where 1: "make_archive Z ci0 path js comment \<sigma> w = Some (ZIP_OK, \<sigma>', w1)"
    "list_all2 (job_done Z V) js es" "w_files w1 = (w_files w)(path \<mapsto> archive_bytes es c)" "w_denied w1 = w_denied w"
    using make_archive_jobs [OF assms(5,3) js(1) c(1) _ room(1,3)] by blast
  have ok: "archive_ok [] es c" "unambiguous [] es c"
    using jobs_archive_ok [OF 1(2) js c(2) room(1,2)] found 1(2) by blast+
  have e: "n < length es" "job_done Z V (js ! n) (es ! n)" "job_fits Z V (js ! n)"
    using 1(2) n(1) js(1) by (simp_all add: list_all2_conv_all_nth)
  then have m: "entry_made V (job_file (js ! n)) data (foldl (zl_crc32 Z) 0 (job_chunks (js ! n))) (job_usize (js ! n))
      (job_crc (js ! n)) (es ! n)" and nf: "nf_writable (job_file (js ! n))"
    by (simp_all add: job_done_def job_fits_def job_data_def data(1))
  have "length data < 2 ^ 32" "nf_compressed (job_file (js ! n)) \<Longrightarrow> inflates Z V"
    using data(3) n(3) by (auto simp: nf_compressed_def)
  note h = entry_made_holds [OF m nf n(2) this]
  have "unat (zl_crc32 Z 0 data) < 2 ^ 32" using assms(2) by (simp add: crc32_small_def)
  then have crc: "field 4 (ze_crc (es ! n)) = zl_crc32 Z 0 data"
    using h(2) foldl_crc32 [OF assms(1), of 0 "job_chunks (js ! n)"] by (simp add: data(1) field_id)
  have "\<not> w_denied w1 path" "w_files w1 path = Some ([] @ archive_bytes es c)" using 1(3,4) assms(5) by simp_all
  from extract_from_eq [OF assms(1) this ok e(1) assms(4) refl h(1) data(2,3)] 1(1) crc show ?thesis by auto
qed

theorem archive_roundtrip_witness:
  "\<exists>\<sigma>' w1 w2. make_archive flip_zlib (blank_entry ([], False)) [0x7a] flip_jobs None plain_sys empty_fs = Some (ZIP_OK, \<sigma>', w1)
    \<and> extract_from flip_zlib (blank_stream ([], False)) demo_info \<lparr>offset_curfile = 0\<rparr> [0x7a] 1 (\<lambda>i. 0) 10 plain_sys w1
      = Some (UNZ_OK, 3, UNZ_OK, buf_write 0 [1, 2, 3] (\<lambda>i. 0), w2)"
proof -
  have f: "\<not> w_denied empty_fs p" "w_limit empty_fs = 2 ^ 40" for p by (simp_all add: empty_fs_def)
  note n = flip_jobs_sel flip_files
  show ?thesis
    using archive_roundtrip [OF flip_crc32 plain_sys_total plain_sys_total f(1) flip_jobs_fit _ refl, where path = "[0x7a]" and comment = None and n = 1
        and data = "[1, 2, 3]" and len = 10 and ?ci0.0 = "blank_entry ([], False)" and ?strm0.0 = "blank_stream ([], False)" and ?fi0.0 = demo_info
        and ?fii0.0 = "\<lparr>offset_curfile = 0\<rparr>" and buf = "\<lambda>i. 0"]
      flip_jobs_unambiguous flip_inflates by (simp add: n [unfolded One_nat_def] f(2) flip_jobs_room)
qed

text \<open>
  C3: The same holds behind other data, as in a self-extracting program, where all offsets are
  relative to the beginning of the archive. If the stored CRC is not the CRC of the data,
  the data is still delivered and closing the entry reports \<open>UNZ_CRCERROR\<close>.
\<close>

theorem extract_checks_crc:
  fixes Z :: "'z zlib"
  assumes "crc32_streams Z" "malloc_total \<sigma>" "\<not> w_denied w path" "w_files w path = Some (pre @ archive_bytes es c)"
    and ok: "archive_ok pre es c" "unambiguous pre es c"
    and n: "n < length es" "holds Z (es ! n) data"
    and data: "length data \<le> unat len" "length data < 2 ^ 31"
  shows "\<exists>w'. extract_from Z strm0 fi0 fii0 path n buf len \<sigma> w =
    Some (UNZ_OK, int (length data), (if zl_crc32 Z 0 data = field 4 (ze_crc (es ! n)) then UNZ_OK else UNZ_CRCERROR),
      buf_write 0 data buf, w')"
  by (rule extract_from_eq [OF assms(1,3,4) ok n(1) assms(2) refl n(2) data])

theorem extract_checks_crc_witness:
  "\<exists>w'. extract_from plain_zlib empty_stream demo_info \<lparr>offset_curfile = 0\<rparr> [0x7a] 0 (\<lambda>i. 0) 10 plain_sys damaged_fs
    = Some (UNZ_OK, 3, UNZ_CRCERROR, buf_write 0 [1, 2, 3] (\<lambda>i. 0), w')"
proof -
  have "0 < length damaged_es" "holds plain_zlib (damaged_es ! 0) [1, 2, 3]"
    "length [1, 2, 3 :: byte] \<le> unat (10 :: uInt)" "length [1, 2, 3 :: byte] < 2 ^ 31"
    by (simp_all add: holds_def damaged_sel)
  from extract_checks_crc [OF plain_crc32(1) plain_sys_total damaged_file damaged_ok this, of empty_stream demo_info "\<lparr>offset_curfile = 0\<rparr>" "\<lambda>i. 0"]
  show ?thesis unfolding damaged_sel(5) if_not_P [OF damaged_sel(6)] by simp
qed

section \<open>Bytes\<close>

text \<open>
  C13: Writing a field of 2, 4 or 8 bytes with \<open>zip64local_putValue\<close>, seeking back and reading
  it with the getters of \<open>unzip.c\<close> gives the value, or the largest value of the field when
  it does not fit.
\<close>

theorem put_get_roundtrip:
  assumes "stdio_fetch w h = Some s" "s_rd s" "s_wr s" "\<not> s_err s" "s_pos s + n \<le> w_limit w" "s_pos s < 2 ^ 63"
    and get: "(n, get) \<in> {(2, unz64local_getShort), (4, unz64local_getLong), (8, unz64local_getLong64)}"
  shows "\<exists>w1 w2 w3 y. zip64local_putValue stdio_filefunc64 h x n w = (ZIP_OK, w1)
    \<and> ZSEEK64 stdio_filefunc64 h (of_nat (s_pos s)) ZLIB_FILEFUNC_SEEK_SET w1 = (0, w2)
    \<and> get stdio_filefunc64 h w2 = (UNZ_OK, y, w3) \<and> unat y = min (unat x) (2 ^ (8 * n) - 1)"
proof -
  have n: "0 < n" "n \<le> 8" using get by auto
  obtain w1 w2 s2 where w: "zip64local_putValue stdio_filefunc64 h x n w = (ZIP_OK, w1)"
    "ZSEEK64 stdio_filefunc64 h (of_nat (s_pos s)) ZLIB_FILEFUNC_SEEK_SET w1 = (0, w2)"
    "stdio_fetch w2 h = Some s2" "s_rd s2" "\<not> s_err s2" "\<forall>i. sticky n i (s_rest s2) = putValue_buf x n"
    using stdio64.write_then_seek [OF assms(1,3,5) n assms(6)] assms(2,4) by metis
  note g = stdio64.getShort_eq [OF w(3-5)] stdio64.getLong_eq [OF w(3-5)] stdio64.getLong64_eq [OF w(3-5)]
  have "get stdio_filefunc64 h w2 = (UNZ_OK, le_word (putValue_buf x n), stdio_store h (s_skip n s2) w2)"
    using get g w(6) by (auto simp: unz_get_eq)
  moreover have "unat (le_word (putValue_buf x n)) = min (unat x) (2 ^ (8 * n) - 1)"
    using le_word_putValue [OF n(2), of x] by (simp add: power_mult)
  ultimately show ?thesis using w(1,2) by blast
qed

theorem put_get_roundtrip_witness:
  "\<exists>w1 w2 w3 y. zip64local_putValue stdio_filefunc64 2 0x12345 2 (one_file [1, 2, 3, 4] 1) = (ZIP_OK, w1)
    \<and> ZSEEK64 stdio_filefunc64 2 1 ZLIB_FILEFUNC_SEEK_SET w1 = (0, w2)
    \<and> unz64local_getShort stdio_filefunc64 2 w2 = (UNZ_OK, y, w3) \<and> unat y = 0xffff"
  using put_get_roundtrip [of "one_file [1, 2, 3, 4] 1" 2 "one_stream [1, 2, 3, 4] 1" 2 unz64local_getShort "0x12345"]
  by simp

text \<open>
  C24: The readers of \<open>unzip.c\<close>, which combine bytes with \<open>|=\<close>, are the readers of
  \<open>zip.c\<close>, which combine them with \<open>+=\<close>, on every callback table and in every state.
\<close>

theorem readers_agree:
  "unz64local_getShort = zip64local_getShort \<and> unz64local_getLong = zip64local_getLong
   \<and> unz64local_getLong64 = zip64local_getLong64"
  using unz_get_eq by blast

text \<open>
  C25: Reading a 4-byte field at the end of a file is not an error, because \<open>UNZ_EOF\<close> is
  \<open>UNZ_OK\<close>: the bytes that are missing repeat the last byte that is there.
\<close>

theorem getLong_past_end:
  assumes "stdio_fetch w h = Some s" "s_rd s" "\<not> s_err s"
  shows "\<exists>w'. unz64local_getLong stdio_filefunc64 h w =
    (UNZ_OK,
     (case s_rest s of
        [] \<Rightarrow> 0
      | [a] \<Rightarrow> le_word [a, a, a, a]
      | [a, b] \<Rightarrow> le_word [a, b, b, b]
      | [a, b, c] \<Rightarrow> le_word [a, b, c, c]
      | a # b # c # d # _ \<Rightarrow> le_word [a, b, c, d]), w')"
  using stdio64.getLong_eq [OF assms]
  by (auto simp: unz_get_eq sticky_small Let_def le_word_def split: list.split)

theorem getLong_past_end_witness:
  "\<exists>w'. unz64local_getLong stdio_filefunc64 2 (one_file [7] 1) = (UNZ_OK, 0, w')"
  using getLong_past_end [of "one_file [7] 1" 2 "one_stream [7] 1"] by (simp add: s_rest_def)

section \<open>Finding the end of the archive\<close>

text \<open>
  C14: The windowed backward search of \<open>zip.c\<close> and of \<open>unzip.c\<close> finds the last
  end-of-central-directory signature of the file if it begins in the last 65535 bytes, and
  otherwise returns 0; a signature at offset 0 (an empty archive) is not found either.
\<close>

theorem search_finds_last_signature:
  assumes "stdio_fetch w h = Some s" "s_rd s" "length (s_data s) < 2 ^ 63" "malloc 1028 \<sigma> = (True, \<sigma>')"
  shows "\<exists>p w'. zip64local_SearchCentralDir stdio_filefunc64 h \<sigma> w = (of_nat p, \<sigma>', w')
    \<and> unz64local_SearchCentralDir stdio_filefunc64 h \<sigma> w = (of_nat p, \<sigma>', w')
    \<and> (p \<noteq> 0 \<longrightarrow> length (s_data s) - 65535 \<le> p \<and> p + 4 \<le> length (s_data s)
        \<and> take 4 (drop p (s_data s)) = [0x50, 0x4b, 0x05, 0x06]
        \<and> (\<forall>j>p. take 4 (drop j (s_data s)) \<noteq> [0x50, 0x4b, 0x05, 0x06]))
    \<and> (p = 0 \<longrightarrow> (\<forall>j>0. length (s_data s) - 65535 \<le> j \<longrightarrow> take 4 (drop j (s_data s)) \<noteq> [0x50, 0x4b, 0x05, 0x06]))"
proof -
  let ?p = "last_sig sig_end_of_central_dir (s_data s) (min (length (s_data s)) 65535)"
  obtain q where "search_signature stdio_filefunc64 h sig_end_of_central_dir \<sigma> w = (?p, \<sigma>', stdio_store h (s_seek q s) w)"
    using stdio64.search_signature_eq [OF assms(1-4)] by auto
  moreover have "length sig_end_of_central_dir = 4" by (simp add: sig_end_of_central_dir_def)
  note last_sig_cases [OF this refl, of "s_data s" 65535, unfolded sig_end_of_central_dir_def]
  ultimately show ?thesis
    unfolding zip64local_SearchCentralDir_def unz64local_SearchCentralDir_def
    by (intro exI [of _ ?p] exI [of _ "stdio_store h (s_seek q s) w"]) (simp add: sig_end_of_central_dir_def)
qed

theorem search_finds_last_signature_witness:
  "\<exists>p w'. zip64local_SearchCentralDir stdio_filefunc64 2 plain_sys (one_file [0, 0x50, 0x4b, 0x05, 0x06, 0] 0)
      = (of_nat p, plain_sys\<lparr>sys_mallocs := 1\<rparr>, w') \<and> p = 1"
proof -
  let ?d = "[0, 0x50, 0x4b, 0x05, 0x06, 0] :: byte list"
  obtain p w' where p: "zip64local_SearchCentralDir stdio_filefunc64 2 plain_sys (one_file ?d 0)
      = (of_nat p, plain_sys\<lparr>sys_mallocs := 1\<rparr>, w')"
    "p \<noteq> 0 \<longrightarrow> p + 4 \<le> 6 \<and> take 4 (drop p ?d) = [0x50, 0x4b, 0x05, 0x06]"
    "p = 0 \<longrightarrow> (\<forall>j>0. take 4 (drop j ?d) \<noteq> [0x50, 0x4b, 0x05, 0x06])"
    using search_finds_last_signature [of "one_file ?d 0" 2 "one_stream ?d 0" plain_sys] by auto
  have "p \<noteq> 0"
  proof
    assume "p = 0"
    from p(3) [rule_format, OF this, of 1] show False by simp
  qed
  moreover from this p(2) have "p \<noteq> 2" and "p \<le> 2" by auto
  ultimately have "p = 1" by linarith
  with p(1) show ?thesis by blast
qed

section \<open>The central directory in memory\<close>

text \<open>
  C18: \<open>add_data_in_datablock\<close> refines appending to a byte string: the block list stays
  well formed, on success exactly the data is appended, and when an allocation fails a prefix
  of it is.
\<close>

theorem add_data_refines_append:
  assumes "ll_ok ll" "add_data_in_datablock (Some ll) buf \<sigma> = (err, ll', \<sigma>')"
  shows "\<exists>l p. ll' = Some l \<and> ll_ok l \<and> ll_size l = length (ll_bytes l) \<and> ll_bytes l = ll_bytes ll @ p
    \<and> prefix p buf \<and> (if err = ZIP_OK then p = buf else err = ZIP_INTERNALERROR \<and> \<not> malloc_total \<sigma>)"
proof -
  obtain l p where l: "ll' = Some l" "ll_ok l" "prefix p buf" "ll_bytes l = ll_bytes ll @ p"
    "if err = ZIP_OK then p = buf else err = ZIP_INTERNALERROR"
    using add_data_in_datablock_spec [OF assms(2,1)] by blast
  moreover have "err \<noteq> ZIP_OK \<Longrightarrow> \<not> malloc_total \<sigma>"
    using add_data_in_datablock_total [of \<sigma> ll buf] assms(2) by auto
  ultimately show ?thesis using ll_size_bytes [of l] by auto
qed

theorem add_data_refines_append_witness:
  "\<exists>l. fst (snd (add_data_in_datablock (Some init_linkedlist) [1, 2, 3] plain_sys)) = Some l
    \<and> ll_bytes l = [1, 2, 3]"
proof -
  obtain err ll' \<sigma>' where r: "add_data_in_datablock (Some init_linkedlist) [1, 2, 3] plain_sys = (err, ll', \<sigma>')"
    by (metis prod_cases3)
  obtain l p where "ll' = Some l" "ll_bytes l = p"
    "if err = ZIP_OK then p = [1, 2, 3] else err = ZIP_INTERNALERROR \<and> \<not> malloc_total plain_sys"
    using add_data_refines_append [OF _ r] by auto
  with r plain_sys_total show ?thesis by (auto split: if_splits)
qed

section \<open>Encryption\<close>

text \<open>C20: Decrypting what was encrypted under the same keys gives the plain text and the same keys.\<close>

theorem decrypt_encrypt:
  "zdecode_buf tab (fst (zencode_buf tab cs k)) k = (cs, snd (zencode_buf tab cs k))"
  by (rule zdecode_buf_zencode_buf)

text \<open>
  C19: The encryption of the code, with its 64-bit keys, is the algorithm on 32-bit keys: same
  initial keys, same cipher text, same keys afterwards. The CRC table has 32-bit entries.
\<close>

theorem encryption_refines_32_bit:
  assumes "crctab_ok tab"
  shows "case zencode_buf tab cs (init_keys passwd tab) of
    (es, k) \<Rightarrow> (es, abs_keys k) = encrypt_spec (abs_tab tab) cs (init_keys_spec (abs_tab tab) passwd)"
  using zencode_buf_refines [OF assms, of "init_keys passwd tab" cs] init_keys_refines [OF assms, of passwd]
  by (simp add: case_prod_beta)

theorem encryption_refines_32_bit_witness:
  "case zencode_buf (\<lambda>i. of_nat i) [1, 2] (init_keys [3] (\<lambda>i. of_nat i)) of
    (es, k) \<Rightarrow> (es, abs_keys k) =
      encrypt_spec (abs_tab (\<lambda>i. of_nat i)) [1, 2] (init_keys_spec (abs_tab (\<lambda>i. of_nat i)) [3])"
proof (rule encryption_refines_32_bit)
  show "crctab_ok (\<lambda>i. of_nat i)"
    by (auto simp: crctab_ok_def word_unat_eq_iff unsigned_take_bit_eq unat_of_nat take_bit_nat_eq_self)
qed

text \<open>
  C21: The encryption header of \<open>crypthead\<close> is 12 bytes that decrypt, with the password, to 10
  bytes followed by the high half of the CRC, and leave the keys the entry is encrypted with.
\<close>

theorem crypthead_checks:
  assumes "RAND_HEAD_LEN \<le> n"
  shows "\<exists>buf keys \<sigma>' h. crypthead passwd n tab crc \<sigma> = (Some (buf, keys), \<sigma>') \<and> length buf = 12 \<and> length h = 10
    \<and> zdecode_buf tab buf (init_keys passwd tab) = (h @ [ucast (drop_bit 16 crc), ucast (drop_bit 24 crc)], keys)"
  using crypthead_fits [of n passwd tab crc \<sigma>] crypthead_decodes assms unfolding RAND_HEAD_LEN_def by metis

theorem crypthead_checks_witness:
  "\<exists>buf keys \<sigma>' h. crypthead [1] 12 (\<lambda>i. 0) 0x120000 plain_sys = (Some (buf, keys), \<sigma>') \<and> length buf = 12 \<and> length h = 10
    \<and> zdecode_buf (\<lambda>i. 0) buf (init_keys [1] (\<lambda>i. 0)) = (h @ [0x12, 0], keys)"
  using crypthead_checks [of 12 "[1]" "\<lambda>i. 0" "0x120000" plain_sys]
  by (simp add: RAND_HEAD_LEN_def drop_bit_eq_div)

section \<open>Dates and names\<close>

text \<open>
  C22: A date packed by \<open>zip64local_TmzDateToDosDate\<close> is unpacked by
  \<open>unz64local_DosDateToTmuDate\<close> to the same date, with the seconds rounded down to even and
  the year counted from 1980 (a year 80-1979 is taken as years since 1900).
\<close>

theorem dos_date_roundtrip:
  assumes "tm_sec t < 60" "tm_min t < 60" "tm_hour t < 24" "tm_mday t < 32" "tm_mon t < 12"
    "1980 \<le> tm_year t \<and> tm_year t < 2108 \<or> 80 \<le> tm_year t \<and> tm_year t < 208"
  shows "unz64local_DosDateToTmuDate (zip64local_TmzDateToDosDate t) =
    \<lparr>tmu_sec = 2 * (tm_sec t div 2), tmu_min = tm_min t, tmu_hour = tm_hour t, tmu_mday = tm_mday t,
     tmu_mon = tm_mon t, tmu_year = (if 1980 \<le> tm_year t then tm_year t else tm_year t + 1900)\<rparr>"
proof -
  have ok: "tm_ok t" using assms by (auto simp: tm_ok_def dos_year_def word_less_nat_alt word_le_nat_alt)
  have "of_nat (dos_year (tm_year t)) + 1980 = (if 1980 \<le> tm_year t then tm_year t else tm_year t + 1900)"
    using assms(6) by (auto simp: dos_year_def word_less_nat_alt word_le_nat_alt)
  with DosDateToTmuDate_TmzDate [OF ok] show ?thesis by (simp add: tmu_of_def)
qed

theorem dos_date_roundtrip_witness:
  "unz64local_DosDateToTmuDate (zip64local_TmzDateToDosDate
     \<lparr>tm_sec = 59, tm_min = 58, tm_hour = 23, tm_mday = 31, tm_mon = 11, tm_year = 110\<rparr>) =
   \<lparr>tmu_sec = 58, tmu_min = 58, tmu_hour = 23, tmu_mday = 31, tmu_mon = 11, tmu_year = 2010\<rparr>"
  using dos_date_roundtrip [of "\<lparr>tm_sec = 59, tm_min = 58, tm_hour = 23, tm_mday = 31, tm_mon = 11, tm_year = 110\<rparr>"]
  by simp

lemma strcmp_eq: "libc_strcmp a b = 0 \<longleftrightarrow> a = b"
  by (induction a b rule: libc_strcmp.induct) auto

lemma sint_antisym: "\<not> sint a < sint b \<Longrightarrow> \<not> sint b < sint a \<Longrightarrow> a = (b :: byte)"
  by (rule signed_word_eqI [where ?'a = int]) linarith

lemma strcmpcase_eq: "strcmpcasenosensitive_internal a b = 0 \<longleftrightarrow> map upcase_char a = map upcase_char b"
proof (induction a b rule: strcmpcasenosensitive_internal.induct)
  case (4 c1 a c2 b)
  show ?case
  proof (cases "upcase_char c1 = upcase_char c2")
    case True
    with 4 show ?thesis by (simp add: Let_def)
  next
    case False
    with sint_antisym [of "upcase_char c1" "upcase_char c2"] show ?thesis by (auto simp: Let_def)
  qed
qed simp_all

lemma strcmpcase_sym: "strcmpcasenosensitive_internal b a = - strcmpcasenosensitive_internal a b"
  by (induction a b rule: strcmpcasenosensitive_internal.induct) (auto simp: Let_def)

text \<open>
  C23: \<open>unzStringFileNameCompare\<close> returns 0 exactly for equal names (sensitivity 0 or 1), or
  for names equal up to the case of ASCII letters (any other), and swapping the names negates
  the case-insensitive result.
\<close>

theorem file_name_compare:
  "(unzStringFileNameCompare a b i = 0 \<longleftrightarrow>
      (if i = 0 \<or> i = 1 then a = b else map upcase_char a = map upcase_char b))
   \<and> (i \<noteq> 0 \<and> i \<noteq> 1 \<longrightarrow> unzStringFileNameCompare b a i = - unzStringFileNameCompare a b i)"
  using strcmp_eq [of a b] strcmpcase_eq [of a b] strcmpcase_sym [of b a]
  by (auto simp: unzStringFileNameCompare_def)

theorem file_name_compare_witness:
  "unzStringFileNameCompare [0x41, 0x62] [0x61, 0x42] 2 = 0 \<and> unzStringFileNameCompare [0x41] [0x61] 1 \<noteq> 0
   \<and> unzStringFileNameCompare [0x62] [0x41] 2 = - unzStringFileNameCompare [0x41] [0x62] 2"
  using file_name_compare [of "[0x41, 0x62]" "[0x61, 0x42]" 2] file_name_compare [of "[0x41]" "[0x61]" 1]
    file_name_compare [of "[0x41]" "[0x62]" 2]
  by (simp add: upcase_char_def)

section \<open>Writing an entry\<close>

text \<open>
  C15: \<open>zipWriteInFileInZip\<close> on an open stored or raw entry returns, succeeds when the file may
  grow enough, and appends the data: what the file will hold once the buffer is flushed,
  followed by any later data, is what it would have held followed by the new data (encrypted,
  for an entry with a password). The running sizes grow by its length.
\<close>

theorem write_stored_appends:
  assumes "zi_filefunc zi = stdio_filefunc64" "stdio_fetch w (zi_filestream zi) = Some s" "at_end s"
    "buf_ok (zi_ci zi)" "stored (zi_ci zi)" "zi_in_opened_file_inzip zi \<noteq> 0"
    "length (s_data s) + length (pending (zi_ci zi)) + length buf \<le> w_limit w"
  shows "\<exists>ci s'. zipWriteInFileInZip Z (Some zi) buf w
      = Some (ZIP_OK, Some (zi\<lparr>zi_ci := ci\<rparr>), stdio_store (zi_filestream zi) s' w)
    \<and> at_end s' \<and> buf_ok ci
    \<and> (\<forall>more. s_data s' @ enc_bytes ci (pending ci @ more)
        = s_data s @ enc_bytes (zi_ci zi) (pending (zi_ci zi) @ buf @ more))
    \<and> ci_crc32 ci = zl_crc32 Z (ci_crc32 (zi_ci zi)) buf
    \<and> size_c ci = size_c (zi_ci zi) + of_nat (length buf)
    \<and> size_u ci = size_u (zi_ci zi) + of_nat (length buf)"
proof -
  have "length (out s (zi_ci zi) buf) \<le> w_limit w" using assms(7) by (simp add: out_def)
  from stdio64.write_stored [OF assms(1-6) this, of Z]
  obtain ci s' where r: "zipWriteInFileInZip Z (Some zi) buf w
      = Some (ZIP_OK, Some (zi\<lparr>zi_ci := ci\<rparr>), stdio_store (zi_filestream zi) s' w)"
    "at_end s'" "buf_ok ci" "same_entry ((zi_ci zi)\<lparr>ci_crc32 := zl_crc32 Z (ci_crc32 (zi_ci zi)) buf\<rparr>) ci"
    "\<forall>xs. out s' ci xs = out s (zi_ci zi) (buf @ xs)"
    "size_c ci = size_c (zi_ci zi) + of_nat (length buf)" "size_u ci = size_u (zi_ci zi) + of_nat (length buf)"
    by blast
  have "ci_crc32 ci = zl_crc32 Z (ci_crc32 (zi_ci zi)) buf" using same_entry_sel(8) [OF r(4)] by simp
  with r show ?thesis by (auto simp: out_def)
qed

theorem write_stored_appends_witness:
  "\<exists>ci s'. zipWriteInFileInZip plain_zlib (Some (stdio_archive empty_entry 1)) [1, 2, 3] (one_file [9] 1)
      = Some (ZIP_OK, Some ((stdio_archive empty_entry 1)\<lparr>zi_ci := ci\<rparr>), stdio_store 2 s' (one_file [9] 1))
    \<and> s_data s' @ enc_bytes ci (pending ci) = [9, 1, 2, 3]"
  using write_stored_appends [of "stdio_archive empty_entry 1" "one_file [9] 1" "one_stream [9] 1" "[1, 2, 3]" plain_zlib]
  by (fastforce simp: stdio_archive_def at_end_def dest: spec [of _ "[]"])

text \<open>
  C16: \<open>zipWriteInFileInZip\<close> never overflows its 64 KiB buffer: the fill count, \<open>next_out\<close> and
  \<open>avail_out\<close> stay consistent on every run that returns, whatever the callbacks do, for a
  \<open>deflate\<close> that respects \<open>avail_out\<close>.
\<close>

theorem write_keeps_buffer_invariant:
  assumes "deflate_steps Z" "buf_ok (zi_ci zi)" "zipWriteInFileInZip Z (Some zi) buf w = Some (err, file', w')"
  shows "\<exists>zi'. file' = Some zi' \<and> buf_ok (zi_ci zi') \<and> ci_pos_in_buffered_data (zi_ci zi') \<le> Z_BUFSIZE"
proof (cases "zi_in_opened_file_inzip zi = 0")
  case True
  with assms(2,3) show ?thesis by (auto simp: zipWriteInFileInZip_def buf_ok_def)
next
  case False
  let ?ci = "(zi_ci zi)\<lparr>ci_crc32 := zl_crc32 Z (ci_crc32 (zi_ci zi)) buf,
      ci_stream := (ci_stream (zi_ci zi))\<lparr>next_in := buf\<rparr>\<rparr>"
  obtain zi' where "zip_write_loop Z ZIP_OK (zi\<lparr>zi_ci := ?ci\<rparr>) w = Some (err, zi', w')" "file' = Some zi'"
    using assms(3) False by (auto simp: zipWriteInFileInZip_def Let_def)
  moreover from buf_ok_write_loop [OF assms(1) _ this(1)] assms(2) have "buf_ok (zi_ci zi')"
    by (simp add: buf_ok_def)
  ultimately show ?thesis by (auto simp: buf_ok_def)
qed

lemma plain_zlib_steps: "deflate_steps plain_zlib"
  by (auto simp: deflate_steps_def plain_zlib_def copy_zlib_def strm_step_def Let_def suffix_drop)

theorem write_keeps_buffer_invariant_witness:
  "\<exists>zi' w'. zipWriteInFileInZip plain_zlib (Some (stdio_archive empty_entry 1)) [1, 2] (one_file [] 0)
      = Some (ZIP_OK, Some zi', w') \<and> buf_ok (zi_ci zi') \<and> ci_pos_in_buffered_data (zi_ci zi') \<le> Z_BUFSIZE"
proof -
  obtain ci s' where r: "zipWriteInFileInZip plain_zlib (Some (stdio_archive empty_entry 1)) [1, 2] (one_file [] 0)
      = Some (ZIP_OK, Some ((stdio_archive empty_entry 1)\<lparr>zi_ci := ci\<rparr>), stdio_store 2 s' (one_file [] 0))"
    using stdio64.write_stored [of "stdio_archive empty_entry 1" "one_file [] 0" "one_stream [] 0" "[1, 2]" plain_zlib]
    by (auto simp: stdio_archive_def at_end_def out_def)
  from write_keeps_buffer_invariant [OF plain_zlib_steps _ this] r show ?thesis
    by (auto simp: stdio_archive_def)
qed

section \<open>Reading a directory entry\<close>

text \<open>
  C17: Whatever the file holds and the callbacks return, the sizes and the offset that
  \<open>unz64local_GetCurrentFileInfoInternal\<close> reports are below \<open>2 ^ 32\<close>: the comparison with
  \<open>(ZPOS64_T)(unsigned long)-1\<close> keeps the 64-bit values of a ZIP64 block from ever being read
  where \<open>unsigned long\<close> has 64 bits.
\<close>

theorem zip64_sizes_never_read:
  assumes "unz64local_GetCurrentFileInfoInternal s ib w = (err, Some (fi, fii), ib', w')"
  shows "unat (fi_compressed_size fi) < 2 ^ 32 \<and> unat (fi_uncompressed_size fi) < 2 ^ 32
    \<and> unat (offset_curfile fii) < 2 ^ 32"
  using file_info_small [OF assms] by (simp add: small_info_def)

theorem zip64_sizes_never_read_witness:
  "\<exists>fi fii ib' w'. unz64local_GetCurrentFileInfoInternal demo_reader no_bufs (one_file zip64_directory 0)
      = (UNZ_OK, Some (fi, fii), ib', w') \<and> fi_size_file_extra fi = 20
    \<and> unat (fi_compressed_size fi) < 2 ^ 32 \<and> unat (fi_uncompressed_size fi) < 2 ^ 32 \<and> unat (offset_curfile fii) < 2 ^ 32"
proof -
  obtain q where r: "unz64local_GetCurrentFileInfoInternal demo_reader no_bufs (one_file zip64_directory 0)
    = (UNZ_OK, Some (central_info 45 0 0 0 0 0xffffffff 0xffffffff 0 0 [0x61]
        [1, 0, 16, 0, 5, 0, 0, 0, 0, 0, 0, 0, 5, 0, 0, 0, 0, 0, 0, 0] [], \<lparr>offset_curfile = field 4 0\<rparr>),
       no_bufs, stdio_store 2 (s_seek q (one_stream zip64_directory 0)) (one_file zip64_directory 0))"
    using stdio64.file_info_eq [of demo_reader 2 "one_file zip64_directory 0" "one_stream zip64_directory 0" 0
        45 0 0 0 0 "0xffffffff" "0xffffffff" 0 0 0 "[0x61]" "[1, 0, 16, 0, 5, 0, 0, 0, 0, 0, 0, 0, 5, 0, 0, 0, 0, 0, 0, 0]" "[]" "[]"]
    by (auto simp: demo_reader_def zip64_directory_def)
  from zip64_sizes_never_read [OF r] r show ?thesis
    using field_of_nat [of 2 20] by (simp add: central_info_def)
qed

section \<open>Digests\<close>

text \<open>
  C11: A message that is fed to \<open>md5_append\<close> in pieces of any sizes and finished with \<open>md5_finish\<close>
  gives the digest of RFC 1321: the message padded with a one bit, zeros and its length in bits,
  cut into blocks and folded. What the buffer holds initially does not matter.
\<close>

theorem md5_computes_rfc1321:
  assumes "length junk = 64" "\<forall>c \<in> set chunks. length c + 64 \<le> 2 ^ 31"
  shows "\<exists>pms. append_all (md5_init junk) chunks = Some pms \<and> md5_finish pms = Some (rfc_md5 (concat chunks))"
proof -
  from append_all_inv [OF md5_init_inv [OF assms(1)] assms(2)] obtain pms where
    "append_all (md5_init junk) chunks = Some pms" "md5_inv (concat chunks) pms" by auto
  with finish_eq show ?thesis by blast
qed

theorem md5_computes_rfc1321_witness:
  "\<exists>pms. append_all (md5_init (replicate 64 0)) [[0x61], [], [0x62, 0x63]] = Some pms
    \<and> md5_finish pms = Some (rfc_md5 [0x61, 0x62, 0x63])"
  using md5_computes_rfc1321 [of "replicate 64 0" "[[0x61], [], [0x62, 0x63]]"] by simp

text \<open>
  C12: The 64 unrolled steps of \<open>md5_process\<close>, with their constants written as complements and the
  registers rotated by renaming, are the 64 indexed steps of RFC 1321 on any block and any state.
\<close>

theorem md5_block_refines:
  assumes "length block = 64" "length (md5_abcd pms) = 4"
  shows "\<exists>abcd. md5_process pms block = pms\<lparr>md5_abcd := abcd\<rparr> \<and> length abcd = 4
    \<and> (abcd ! 0, abcd ! 1, abcd ! 2, abcd ! 3)
      = rfc_block block (md5_abcd pms ! 0, md5_abcd pms ! 1, md5_abcd pms ! 2, md5_abcd pms ! 3)"
  using process_eq [OF assms] by (auto simp: regs_def)

theorem md5_block_refines_witness:
  "\<exists>abcd. md5_process (md5_init []) (replicate 64 7) = (md5_init [])\<lparr>md5_abcd := abcd\<rparr> \<and> length abcd = 4
    \<and> (abcd ! 0, abcd ! 1, abcd ! 2, abcd ! 3) = rfc_block (replicate 64 7)
       (0x67452301, T_MASK XOR 0x10325476, T_MASK XOR 0x67452301, 0x10325476)"
  using md5_block_refines [of "replicate 64 7" "md5_init []"] by (simp add: md5_init_def)


text \<open>
  C37: \<open>md5_append\<close> never writes outside its arrays: two counters, four registers and a buffer of
  64 bytes keep their sizes whatever the counters hold and however many bytes are passed.
\<close>

theorem md5_append_keeps_arrays:
  assumes "length (md5_count pms) = 2" "length (md5_abcd pms) = 4" "length (md5_buf pms) = 64"
    "md5_append pms data nbytes = Some pms'"
  shows "length (md5_count pms') = 2 \<and> length (md5_abcd pms') = 4 \<and> length (md5_buf pms') = 64"
  using append_shape [of pms data nbytes pms'] assms by (simp add: md5_shape_def)

theorem md5_append_keeps_arrays_witness:
  "\<exists>pms'. md5_append (md5_init (replicate 64 0)) [1, 2, 3] 3 = Some pms' \<and> length (md5_buf pms') = 64"
proof -
  obtain pms' where r: "md5_append (md5_init (replicate 64 0)) [1, 2, 3] 3 = Some pms'"
    using append_inv [OF md5_init_inv [of "replicate 64 0"], of 3 3 "[1, 2, 3]"] by auto
  with md5_append_keeps_arrays [OF _ _ _ r] show ?thesis by (simp add: md5_init_def)
qed

section \<open>Text encodings\<close>

text \<open>C31: Decoding the base64 encoding of a string gives the string; the encoding is padded to groups of four.\<close>

theorem base64_roundtrip:
  "b64_decode (b64_encode data) = Some data \<and> length (b64_encode data) = 4 * ((length data + 2) div 3)"
  using decode_encode length_b64_encode by blast

text \<open>C32: The upper and the lower case hexadecimal forms of a string are read back by \<open>fromHex\<close>, byte by byte.\<close>

theorem hex_roundtrip:
  "fromHex_all (toHex bs) = Some bs \<and> fromHex_all (toHexLower bs) = Some bs"
  by (simp add: toHex_def toHexLower_def fromHex_hex)

text \<open>
  C33: \<open>isValidUTF8\<close> accepts exactly the strings made of ASCII bytes and of lead bytes followed by
  their continuation bytes, where \<open>C0\<close>, \<open>C1\<close> and everything above \<open>F4\<close> is no lead byte.
\<close>

theorem utf8_check_exact: "isValidUTF8 s \<longleftrightarrow> utf8 s"
  by (rule utf8_iff)

section \<open>Splitting and numbers\<close>

text \<open>
  C34: \<open>joinStringDelim\<close> inverts \<open>splitStringDelim\<close> on every string, and \<open>splitStringDelim\<close>
  inverts \<open>joinStringDelim\<close> on every list of pieces without the delimiter, except the empty
  list and the list of one empty piece.
\<close>

theorem split_join_roundtrip:
  "joinStringDelim (splitStringDelim s [] d) [] d = s
   \<and> (strs \<noteq> [] \<and> strs \<noteq> [[]] \<and> (\<forall>x \<in> set strs. d \<notin> set x)
     \<longrightarrow> splitStringDelim (joinStringDelim strs [] d) [] d = strs)"
  using split_then_join split_join by blast

theorem split_join_roundtrip_witness:
  "splitStringDelim (joinStringDelim [[1, 2], [], [3]] [] 9) [] 9 = [[1, 2], [], [3]]"
  using split_join_roundtrip [of "[]" 9 "[[1, 2], [], [3]]"] by simp

text \<open>
  C36: \<open>StringSplitter\<close> with a delimiter of one byte ends, and gives the first piece and the
  non-empty ones among the others.
\<close>

theorem splitter_one_delimiter:
  "splitter_split [d] s = (if s = [] then [] else hd (pieces d s) # filter (\<lambda>x. x \<noteq> []) (tl (pieces d s)))"
  by (rule splitter_split_one)


text \<open>
  C35: \<open>parseLL\<close> accepts white space, a sign and digits, and nothing else; the value is the decimal
  value if it fits 64 bits, and otherwise the conversion fails.
\<close>

theorem parseLL_exact:
  "(parseLL n = Some v \<longrightarrow> (\<exists>ws sign ds. n = ws @ sign @ ds \<and> list_all is_space ws \<and> sign \<in> {[], [43], [45]}
       \<and> ds \<noteq> [] \<and> list_all is_digit ds))
   \<and> (list_all is_space ws \<and> sign \<in> {[], [43], [45]} \<and> ds \<noteq> [] \<and> list_all is_digit ds \<longrightarrow>
       parseLL (ws @ sign @ ds) = (let v = (if sign = [45] then - digits_value ds else digits_value ds)
         in if - (2 ^ 63) \<le> v \<and> v \<le> 2 ^ 63 - 1 then Some v else None))"
  using parseLL_only [of n v] parseLL_number [of ws sign ds] by (simp add: Let_def)

theorem parseLL_exact_witness:
  "parseLL [32, 45, 49, 50] = Some (-12)
    \<and> parseLL [57, 57, 57, 57, 57, 57, 57, 57, 57, 57, 57, 57, 57, 57, 57, 57, 57, 57, 57] = None"
  using parseLL_exact [of "[]" 0 "[32]" "[45]" "[49, 50]"] parseLL_exact [of "[]" 0 "[]" "[]"
      "[57, 57, 57, 57, 57, 57, 57, 57, 57, 57, 57, 57, 57, 57, 57, 57, 57, 57, 57]"]
  by (simp add: is_space_def is_digit_def digits_value_def)

section \<open>Extra fields\<close>

text \<open>
  C30: \<open>zipRemoveExtraInfoBlock\<close> on a sequence of blocks, one of which is to be removed, returns
  with the total length of the kept blocks. But each kept block is copied to the same place: what
  the buffer then begins with is the last one, and only with one kept block is it what is left.
\<close>

theorem remove_extra_keeps_last:
  assumes "d = concat (map block_bytes bs)" "\<forall>b \<in> set bs. length (snd b) < 2 ^ 15" "\<exists>b \<in> set bs. fst b = h"
    "malloc (length d) \<sigma> = (True, \<sigma>')"
  shows "\<exists>d'. zipRemoveExtraInfoBlock (Some d) h junk \<sigma> = Some (ZIP_OK, Some d', int (length (concat (kept_blocks h bs))), \<sigma>')
    \<and> length d' = length d
    \<and> (kept_blocks h bs \<noteq> [] \<longrightarrow> take (length (last (kept_blocks h bs))) d' = last (kept_blocks h bs))"
  by (rule remove_extra_eq [OF assms])

theorem remove_extra_keeps_last_witness:
  "\<exists>d'. zipRemoveExtraInfoBlock (Some [5, 0, 1, 0, 9, 1, 0, 0, 0, 7, 0, 1, 0, 8]) 1 (\<lambda>i. 0) plain_sys
      = Some (ZIP_OK, Some d', 10, plain_sys\<lparr>sys_mallocs := 1\<rparr>)
    \<and> take 5 d' = [7, 0, 1, 0, 8]"
proof -
  let ?bs = "[(5, [9]), (1, []), (7, [8])] :: (16 word \<times> byte list) list"
  have d: "[5, 0, 1, 0, 9, 1, 0, 0, 0, 7, 0, 1, 0, 8] = concat (map block_bytes ?bs)"
    "\<forall>b \<in> set ?bs. length (snd b) < 2 ^ 15" "\<exists>b \<in> set ?bs. fst b = 1"
    by (simp_all add: block_bytes_def short_bytes_def)
  have k: "kept_blocks 1 ?bs = [[5, 0, 1, 0, 9], [7, 0, 1, 0, 8]]"
    by (simp add: block_bytes_def short_bytes_def kept_blocks_def)
  have l: "last [[5, 0, 1, 0, 9], [7, 0, 1, 0, 8]] = [7, 0, 1, 0, 8 :: byte]" by simp
  have five: "length [7, 0, 1, 0, 8 :: byte] = 5" by simp
  have "malloc (length [5, 0, 1, 0, 9, 1, 0, 0, 0, 7, 0, 1, 0, 8 :: byte]) plain_sys = (True, plain_sys\<lparr>sys_mallocs := 1\<rparr>)"
    by simp
  from remove_extra_keeps_last [OF d this, of "\<lambda>i. 0", unfolded k l five] show ?thesis by auto
qed

section \<open>Finding entries\<close>

text \<open>
  C10: \<open>unzLocateFile\<close> on an archive that was opened ends. It makes the first entry whose name
  compares equal the current one, or reports \<open>UNZ_END_OF_LIST_OF_FILE\<close> and leaves the reader
  exactly as it was. Names have less than 256 bytes.
\<close>

theorem locate_finds_first:
  assumes "\<not> w_denied w path" "w_files w path = Some (pre @ archive_bytes es c)" "archive_ok pre es c"
    "unambiguous pre es c" "es \<noteq> []" "names_ok es" "malloc_total \<sigma>"
    "length junk = UNZ_MAXFILENAMEINZIP + 1" "length name < UNZ_MAXFILENAMEINZIP"
  shows "\<exists>(s :: (stdio, 'z) unz64_s) \<sigma>' w1 w2. unzOpen64 fi0 fii0 (Some path) \<sigma> w = (Some s, \<sigma>', w1)
    \<and> (if \<exists>e \<in> set es. entry_matches name cs e
       then \<exists>n s'. n < length es \<and> entry_matches name cs (es ! n) \<and> (\<forall>j<n. \<not> entry_matches name cs (es ! j))
         \<and> unzLocateFile junk (Some s) name cs w1 = Some (UNZ_OK, Some s', w2) \<and> at_entry es n s'
       else unzLocateFile junk (Some s) name cs w1 = Some (UNZ_END_OF_LIST_OF_FILE, Some s, w2))"
proof -
  obtain s :: "(stdio, 'z) unz64_s" and \<sigma>' w1 h st where o: "unzOpen64 fi0 fii0 (Some path) \<sigma> w = (Some s, \<sigma>', w1)"
    "stdio_fetch w1 h = Some st" "s_rd st" "\<not> s_err st" "s_data st = pre @ archive_bytes es c"
    "opened stdio_filefunc64 h pre es c s" "at_entry es 0 s"
    using open_stdio_eq [OF assms(1-5,7)] by metis
  from stdio64.locate_file_eq [OF o(6,2-5) assms(3,6) o(7) assms(8,9), of cs] show ?thesis
    using o(1) moved_simps(1) nth_mem by (metis (no_types, opaque_lifting))
qed

theorem locate_finds_first_witness:
  "\<exists>(s :: (stdio, unit) unz64_s) \<sigma>' w1 n s' w2. unzOpen64 demo_info \<lparr>offset_curfile = 0\<rparr> (Some [0x7a]) plain_sys damaged_fs = (Some s, \<sigma>', w1)
    \<and> unzLocateFile (replicate 257 0) (Some s) [0x61] 1 w1 = Some (UNZ_OK, Some s', w2) \<and> at_entry damaged_es n s'"
proof -
  have es: "damaged_es \<noteq> []" "names_ok damaged_es" "\<exists>e \<in> set damaged_es. entry_matches [0x61] 1 e"
    by (simp_all add: damaged_es_def demo_file_def names_ok_def new_file_name_def entry_matches_def unzStringFileNameCompare_def)
  show ?thesis
    using locate_finds_first [OF damaged_file damaged_ok es(1,2) plain_sys_total, of "replicate 257 0" "[0x61]" demo_info
        "\<lparr>offset_curfile = 0\<rparr>" 1] es(3) by (simp add: damaged_file) blast
qed

text \<open>
  C29: A position that \<open>unzGetFilePos64\<close> gave out at an entry leads back to it, from whatever entry
  the reader is at in the meantime.
\<close>

theorem file_pos_roundtrip:
  fixes s t :: "(stdio, 'z) unz64_s"
  assumes "opened stdio_filefunc64 h pre es c s" "at_entry es k s" "opened stdio_filefunc64 h pre es c t" "at_entry es j t"
    "stdio_fetch w h = Some st" "s_rd st" "\<not> s_err st" "s_data st = pre @ archive_bytes es c" "length (s_data st) < 2 ^ 63"
  shows "\<exists>pos t' w'. unzGetFilePos64 (Some s) False = (UNZ_OK, Some pos)
    \<and> unzGoToFilePos64 (Some t) (Some pos) w = (UNZ_OK, Some t', w') \<and> at_entry es k t' \<and> opened stdio_filefunc64 h pre es c t'"
proof -
  have k: "k < length es" using assms(2) by (simp add: at_entry_def)
  from stdio64.refresh_eq [OF assms(3,5-9) k] k assms(2,3) show ?thesis
    by (auto simp: unzGetFilePos64_def unzGoToFilePos64_def at_entry_def moved_def opened_def)
qed

theorem file_pos_roundtrip_witness:
  "\<exists>(s :: (stdio, unit) unz64_s) \<sigma>' w1 pos t' w2. unzOpen64 demo_info \<lparr>offset_curfile = 0\<rparr> (Some [0x7a]) plain_sys damaged_fs = (Some s, \<sigma>', w1)
    \<and> unzGetFilePos64 (Some s) False = (UNZ_OK, Some pos) \<and> unzGoToFilePos64 (Some s) (Some pos) w1 = (UNZ_OK, Some t', w2)
    \<and> at_entry damaged_es 0 t'"
proof -
  have ne: "damaged_es \<noteq> []" by (simp add: damaged_es_def)
  obtain s :: "(stdio, unit) unz64_s" and \<sigma>' w1 h st where
    o: "unzOpen64 demo_info \<lparr>offset_curfile = 0\<rparr> (Some [0x7a]) plain_sys damaged_fs = (Some s, \<sigma>', w1)"
    "stdio_fetch w1 h = Some st" "s_rd st" "\<not> s_err st" "s_data st = [0x4d, 0x5a] @ archive_bytes damaged_es []"
    "opened stdio_filefunc64 h [0x4d, 0x5a] damaged_es [] s" "at_entry damaged_es 0 s"
    using open_stdio_eq [OF damaged_file damaged_ok ne plain_sys_total] by metis
  have "length (s_data st) < 2 ^ 63" using damaged_ok(1) o(5) by (simp add: archive_ok_def)
  from file_pos_roundtrip [OF o(6,7,6,7,2-5) this] o(1) show ?thesis by blast
qed

text \<open>
  C39: \<open>unzSetOffset64\<close> numbers the entry it moves to as if it were behind the last one, so that
  \<open>unzGetOffset64\<close> gives 0 afterwards and not the offset that was set.
\<close>

theorem set_offset_hides_offset:
  assumes "gi_number_entry (us_gi s) \<noteq> 0" "gi_number_entry (us_gi s) \<noteq> 0xffff"
    "unzSetOffset64 (Some s) pos w = (err, Some s', w')"
  shows "unzGetOffset64 (Some s') = 0"
  using assms by (auto simp: unzSetOffset64_def with_file_def refresh_current_def unzGetOffset64_def Let_def
      split: prod.splits option.splits)

theorem set_offset_hides_offset_witness:
  "\<exists>err s' w'. unzSetOffset64 (Some demo_reader) 0 (one_file zip64_directory 0) = (err, Some s', w')
    \<and> unzGetOffset64 (Some s') = 0"
proof -
  obtain err s' w' where "refresh_current (demo_reader\<lparr>us_pos_in_central_dir := 0, us_num_file := gi_number_entry (us_gi demo_reader)\<rparr>)
      (one_file zip64_directory 0) = (err, s', w')" by (rule prod_cases3)
  then have r: "unzSetOffset64 (Some demo_reader) 0 (one_file zip64_directory 0) = (err, Some s', w')"
    by (simp add: unzSetOffset64_def with_file_def)
  from set_offset_hides_offset [OF _ _ r] r show ?thesis by (auto simp: demo_reader_def)
qed

section \<open>Any sequence of calls\<close>

text \<open>
  C9: From an archive with no open entry, any sequence of opening, writing and closing entries
  with any arguments, whatever zlib, the callbacks and \<open>malloc\<close> answer, keeps the
  writer consistent: the write buffer within its bounds, room for the ZIP64 block
  of the open entry, the block list well formed. What the directory holds is never changed.
\<close>

theorem writer_reachable_safe:
  assumes "deflate_steps Z" "deflate_init_keeps Z" "zi_in_opened_file_inzip zi = 0" "ll_ok (zi_central_dir zi)"
    "zip_reachable Z (zi, \<sigma>, w) (zi', \<sigma>', w')"
  shows "(zi_in_opened_file_inzip zi' \<noteq> 0 \<longrightarrow> ci_pos_in_buffered_data (zi_ci zi') \<le> Z_BUFSIZE
       \<and> ci_size_centralExtraFree (zi_ci zi') = 32)
    \<and> ll_ok (zi_central_dir zi') \<and> prefix (ll_bytes (zi_central_dir zi)) (ll_bytes (zi_central_dir zi'))"
proof -
  have "zip_inv zi" using assms(3,4) by (simp add: zip_inv_def)
  with zip_inv_reachable [OF assms(1,2) _ assms(5)] show ?thesis by (auto simp: zip_inv_def buf_ok_def)
qed

theorem writer_reachable_safe_witness:
  "\<exists>zi' \<sigma>' w'. zip_reachable plain_zlib (stdio_archive empty_entry 0, plain_sys, one_file [] 0) (zi', \<sigma>', w')
    \<and> zi_in_opened_file_inzip zi' = 1 \<and> ci_pos_in_buffered_data (zi_ci zi') \<le> Z_BUFSIZE"
proof -
  obtain zi' \<sigma>' w' where r: "zipOpenNewFileInZip4_64 plain_zlib (Some (stdio_archive empty_entry 0)) (demo_file [0x61]) plain_sys (one_file [] 0)
      = Some (ZIP_OK, Some zi', \<sigma>', w')" "zi_in_opened_file_inzip zi' = 1"
    using demo_open by blast
  have reach: "zip_reachable plain_zlib (stdio_archive empty_entry 0, plain_sys, one_file [] 0) (zi', \<sigma>', w')"
    unfolding zip_reachable_def by (rule r_into_rtranclp, rule step_open, rule r(1))
  have "zi_in_opened_file_inzip (stdio_archive empty_entry 0) = 0" "ll_ok (zi_central_dir (stdio_archive empty_entry 0))"
    by (simp_all add: stdio_archive_def ll_ok_def)
  from writer_reachable_safe [OF plain_zlib_steps plain_zlib_init this reach] reach r(2) show ?thesis by auto
qed

text \<open>
  C28: Closing an entry always leaves none open and counts it, even when flushing, the header or
  the directory failed; the directory only grows.
\<close>

theorem close_finishes_entry:
  assumes "zip_inv zi" "zi_in_opened_file_inzip zi \<noteq> 0"
    "zipCloseFileInZipRaw64 Z (Some zi) usize crc \<sigma> w = Some (err, file', \<sigma>', w')"
  shows "\<exists>zi'. file' = Some zi' \<and> zip_inv zi' \<and> zi_in_opened_file_inzip zi' = 0
    \<and> zi_number_entry zi' = zi_number_entry zi + 1
    \<and> prefix (ll_bytes (zi_central_dir zi)) (ll_bytes (zi_central_dir zi'))"
  using assms(3) zip_inv_close [OF assms(1,2)] by (auto simp: zipCloseFileInZipRaw64_def)

theorem close_finishes_entry_witness:
  "\<exists>zi \<sigma> w zi' \<sigma>' w'. zipOpenNewFileInZip4_64 plain_zlib (Some (stdio_archive empty_entry 0)) (demo_file [0x61]) plain_sys (one_file [] 0)
      = Some (ZIP_OK, Some zi, \<sigma>, w)
    \<and> zipCloseFileInZipRaw64 plain_zlib (Some zi) 0 0 \<sigma> w = Some (ZIP_OK, Some zi', \<sigma>', w')
    \<and> zi_in_opened_file_inzip zi' = 0 \<and> zi_number_entry zi' = zi_number_entry zi + 1"
proof -
  obtain zi \<sigma> s where 1: "zipOpenNewFileInZip4_64 plain_zlib (Some (stdio_archive empty_entry 0)) (demo_file [0x61]) plain_sys (one_file [] 0)
      = Some (ZIP_OK, Some zi, \<sigma>, stdio_store 2 s (one_file [] 0))" "malloc_total \<sigma>" "length (s_data s) = 31"
    "arch_open demo_base [] (demo_file [0x61]) [] 0 zi s" "zi_filefunc zi = stdio_filefunc64" "zi_filestream zi = 2"
    using demo_opened by blast
  let ?w = "stdio_store 2 s (one_file [] 0)" and ?e = "\<lparr>ze_file = demo_file [0x61], ze_data = [], ze_crc = 0, ze_size = 0\<rparr>"
  have f: "stdio_fetch ?w 2 = Some s" by (rule stdio64.fetch_store [OF fetch_one_file])
  have nf: "nf_ok (demo_file [0x61])" "?e = \<lparr>ze_file = demo_file [0x61], ze_data = [],
      ze_crc = (if nf_raw (demo_file [0x61]) = 0 then 0 else 0),
      ze_size = (if nf_raw (demo_file [0x61]) = 0 then of_nat (length ([] :: byte list)) else 0)\<rparr>"
    by (simp_all add: demo_file_def nf_ok_def new_file_name_def new_file_comment_def)
  have room: "length (ab_data demo_base @ locals [] @ entry_header (demo_file [0x61]) 0 0 0 @ []) \<le> w_limit ?w"
    by (simp add: stdio64.limit_store demo_file_def new_file_name_def entry_header_def)
  obtain zi' \<sigma>' w' where 2: "zipCloseFileInZipRaw64_zi plain_zlib zi 0 0 \<sigma> ?w = Some (ZIP_OK, zi', \<sigma>', w')"
    using stdio64.arch_close [OF 1(5,6) f 1(4) nf(1) 1(2) room _ _ _ nf(2), of plain_zlib] by auto
  then have c: "zipCloseFileInZipRaw64 plain_zlib (Some zi) 0 0 \<sigma> ?w = Some (ZIP_OK, Some zi', \<sigma>', w')"
    by (simp add: zipCloseFileInZipRaw64_def)
  have "zip_inv (stdio_archive empty_entry 0)" by (simp add: zip_inv_def stdio_archive_def ll_ok_def)
  from zip_inv_open [OF plain_zlib_init this 1(1)] have inv: "zip_inv zi" by simp
  have "zi_in_opened_file_inzip zi \<noteq> 0" using 1(4) by (simp add: arch_open_def)
  from close_finishes_entry [OF inv this c] 1(1) c show ?thesis by blast
qed

section \<open>The unpacking tool\<close>

text \<open>
  C4: \<open>do_extract\<close> on an archive of stored or deflated entries with good CRCs ends, with result 0,
  and the files afterwards are those before with each entry's data under its name, in the order of
  the directory; with option \<open>-e\<close> under the name without the path. Nothing else is written.
\<close>

theorem extract_writes_everything:
  fixes Z :: "'z zlib"
  assumes "crc32_streams Z" "\<not> w_denied w path" "w_files w path = Some (pre @ archive_bytes es c)" "archive_ok pre es c"
    "unambiguous pre es c" "es \<noteq> []" "names_ok es" "malloc_total \<sigma>"
    "es = map fst xs" "\<forall>x \<in> set xs. extractable Z wp (con_env d) x" "ow \<noteq> 0" "\<forall>i. length (junk i) = 256"
  shows "\<exists>(s :: (stdio, 'z) unz64_s) \<sigma>1 w1 s2 \<sigma>2 w2 d2. unzOpen64 fi0 fii0 (Some path) \<sigma> w = (Some s, \<sigma>1, w1)
    \<and> do_extract Z strm0 console_os junk buf wp ow None (Some s) \<sigma>1 w1 d = Some (Some 0, Some s2, \<sigma>2, w2, d2)
    \<and> con_view d2 = fold (extracted wp) xs (con_view d)"
proof -
  obtain s :: "(stdio, 'z) unz64_s" and \<sigma>1 w1 h st where o: "unzOpen64 fi0 fii0 (Some path) \<sigma> w = (Some s, \<sigma>1, w1)"
    "malloc_total \<sigma>1" "stdio_fetch w1 h = Some st" "s_rd st" "\<not> s_err st" "s_data st = pre @ archive_bytes es c"
    "opened stdio_filefunc64 h pre es c s" "at_entry es 0 s" "us_pfile_in_zip_read s = None"
    using open_stdio_eq [OF assms(2-6,8)] by metis
  from tool.do_extract_eq [OF assms(1,4,7,11,12) assms(9) o(7-9,3-6,2) assms(10), of strm0 buf] o(1) show ?thesis by blast
qed

theorem extract_writes_everything_witness:
  "\<exists>(s :: (stdio, unit) unz64_s) \<sigma>1 w1 s2 \<sigma>2 w2 d2. unzOpen64 demo_info \<lparr>offset_curfile = 0\<rparr> (Some [0x7a]) plain_sys demo_fs = (Some s, \<sigma>1, w1)
    \<and> do_extract plain_zlib empty_stream console_os (\<lambda>i. replicate 256 0) (\<lambda>i j. 0) 0 1 None (Some s) \<sigma>1 w1 demo_console
      = Some (Some 0, Some s2, \<sigma>2, w2, d2)
    \<and> con_view d2 = [[0x61] \<mapsto> [1, 2, 3], [0x62] \<mapsto> [4]]"
  using extract_writes_everything [OF plain_crc32(1) demo_fs_sel demo_ok(1) demo_unambiguous demo_names plain_sys_total
      demo_contents demo_extractable, of 1 "\<lambda>i. replicate 256 0" demo_info "\<lparr>offset_curfile = 0\<rparr>" empty_stream "\<lambda>i j. 0" 0]
  by (simp add: demo_console_empty demo_extracted)

text \<open>
  C5: With option \<open>-e\<close> extraction is confined, whatever the archive, its callbacks, zlib and the
  answers of the user are: no file whose name has a separator is created or changed.
\<close>

theorem junk_paths_confined:
  assumes "do_extract Z strm0 console_os junk buf wp ow password uf \<sigma> w d = Some (ret, uf', \<sigma>', w', d')" "wp \<noteq> 0"
    "\<forall>h f. w_streams (con_files d) h = Some f \<and> f_wr f \<longrightarrow> plain_name (f_path f)" "\<not> plain_name p"
  shows "con_view d' p = con_view d p"
proof -
  have "con_confined (con_view d) d" using assms(3) by (simp add: con_confined_def)
  with con_safe.good_do_extract [OF assms(1) _ assms(2), of "con_view d"] assms(4) show ?thesis
    by (simp add: con_confined_def)
qed

theorem junk_paths_confined_witness:
  "\<exists>(s :: (stdio, unit) unz64_s) \<sigma>1 w1 s2 \<sigma>2 w2 d2. unzOpen64 demo_info \<lparr>offset_curfile = 0\<rparr> (Some [0x7a]) plain_sys demo_fs = (Some s, \<sigma>1, w1)
    \<and> do_extract plain_zlib empty_stream console_os (\<lambda>i. replicate 256 0) (\<lambda>i j. 0) 1 1 None (Some s) \<sigma>1 w1 demo_console
      = Some (Some 0, Some s2, \<sigma>2, w2, d2)
    \<and> con_view d2 [0x2e, 0x2e, 0x2f, 0x61] = None"
proof -
  obtain s :: "(stdio, unit) unz64_s" and \<sigma>1 w1 h st where o:
    "unzOpen64 demo_info \<lparr>offset_curfile = 0\<rparr> (Some [0x7a]) plain_sys demo_fs = (Some s, \<sigma>1, w1)"
    "malloc_total \<sigma>1" "stdio_fetch w1 h = Some st" "s_rd st" "\<not> s_err st" "s_data st = [] @ archive_bytes demo_es []"
    "opened stdio_filefunc64 h [] demo_es [] s" "at_entry demo_es 0 s" "us_pfile_in_zip_read s = None"
    using open_stdio_eq [OF demo_fs_sel demo_ok(1) demo_unambiguous demo_names(1) plain_sys_total] by metis
  obtain s2 \<sigma>2 w2 d2 where r: "do_extract plain_zlib empty_stream console_os (\<lambda>i. replicate 256 0) (\<lambda>i j. 0) 1 1 None (Some s) \<sigma>1 w1 demo_console
      = Some (Some 0, Some s2, \<sigma>2, w2, d2)"
    using tool.do_extract_eq [OF plain_crc32(1) demo_ok(1) demo_names(2) _ _ demo_contents o(7-9,3-6,2) demo_extractable,
        of 1 "\<lambda>i. replicate 256 0" empty_stream "\<lambda>i j. 0" 1] by auto
  have "\<not> plain_name [0x2e, 0x2e, 0x2f, 0x61]" by (simp add: plain_name_def separator_def)
  from junk_paths_confined [OF r _ _ this] r o(1) show ?thesis by (auto simp: demo_console_empty)
qed

text \<open>
  C26: \<open>do_list\<close> on an archive that was opened ends with result 0 and prints the title and a line
  for every entry, from its directory header and its name.
\<close>

theorem list_shows_entries:
  assumes "\<not> w_denied w path" "w_files w path = Some (pre @ archive_bytes es c)" "archive_ok pre es c"
    "unambiguous pre es c" "es \<noteq> []" "names_ok es" "malloc_total \<sigma>" "\<forall>i. length (junk i) = 256"
  shows "\<exists>(s :: (stdio, 'z) unz64_s) \<sigma>1 w1 s2 w2. unzOpen64 fi0 fii0 (Some path) \<sigma> w = (Some s, \<sigma>1, w1)
    \<and> do_list junk num (Some s) w1 =
      Some (0, list_title @ concat (map (\<lambda>e. list_line num (entry_info e) (new_file_name (ze_file e))) es), Some s2, w2)"
proof -
  obtain s :: "(stdio, 'z) unz64_s" and \<sigma>1 w1 h st where o: "unzOpen64 fi0 fii0 (Some path) \<sigma> w = (Some s, \<sigma>1, w1)"
    "stdio_fetch w1 h = Some st" "s_rd st" "\<not> s_err st" "s_data st = pre @ archive_bytes es c"
    "opened stdio_filefunc64 h pre es c s" "at_entry es 0 s"
    using open_stdio_eq [OF assms(1-5,7)] by metis
  from stdio64.do_list_eq [OF o(6,2-5) assms(3) o(7) assms(6,8), of num] o(1) show ?thesis
    unfolding entry_line_def by blast
qed

theorem list_shows_entries_witness:
  "\<exists>(s :: (stdio, unit) unz64_s) \<sigma>1 w1 s2 w2. unzOpen64 demo_info \<lparr>offset_curfile = 0\<rparr> (Some [0x7a]) plain_sys demo_fs = (Some s, \<sigma>1, w1)
    \<and> do_list (\<lambda>i. replicate 256 0) (replicate 21 0) (Some s) w1 =
      Some (0, list_title @ list_line (replicate 21 0) (entry_info (demo_es ! 0)) [0x61]
        @ list_line (replicate 21 0) (entry_info (demo_es ! 1)) [0x62], Some s2, w2)"
  using list_shows_entries [OF demo_fs_sel demo_ok(1) demo_unambiguous demo_names plain_sys_total, of "\<lambda>i. replicate 256 0"
      demo_info "\<lparr>offset_curfile = 0\<rparr>" "replicate 21 0"]
  by (simp add: demo_es_def) (simp add: job_entry_def demo_job_def demo_file_def new_file_name_def)

text \<open>
  C27: \<open>Display64BitsSize\<close> prints the decimal digits of any 64-bit size, without leading zeros and
  padded with blanks to one column more than it is given; its array of 21 bytes is large enough.
\<close>

theorem display_size_decimal:
  assumes "length junk = 21"
  shows "Display64BitsSize junk n width =
    (let ds = digits_base 10 (unat n) in replicate (Suc width - length ds) 32 @ ds)"
  by (rule display_eq [OF assms])

theorem display_size_decimal_witness:
  "Display64BitsSize (replicate 21 0xff) 1024 7 = replicate 4 32 @ [0x31, 0x30, 0x32, 0x34]"
  using display_size_decimal [of "replicate 21 0xff" 1024 7]
  by (simp add: digits10 digit_char_def Let_def)

section \<open>The repair of archives\<close>



section \<open>The packing tool\<close>



text \<open>
  C7: Packing and unpacking: the files that \<open>minizip\<close> packs, stored or deflated, come back from
  \<open>miniunz -o\<close> with their contents, each under its stored name, if these names are distinct, none of
  them ends in a separator and the output files can be created. (The bytes of the archive must not
  imitate an end record; entries and sizes stay below the ZIP64 limits.)
\<close>

theorem pack_unpack_roundtrip:
  fixes Z :: "'z zlib" and M :: "'z memory"
  assumes Z: "crc32_streams Z" "crc32_small Z" "po_level opts \<noteq> 0 \<Longrightarrow> deflates Z V \<and> inflates Z V"
    and mt: "malloc_total \<sigma>" "malloc_total \<tau>"
    and pack: "pack_call argv junk d opts zp fs" "fs \<noteq> []" "length fs < 0xffff"
      "pack_total V opts d fs < 0xffffffff" "pack_total V opts d fs \<le> w_limit (sh_files d)"
      "\<forall>es. list_all2 (packed Z V opts d) fs es \<longrightarrow> unambiguous [] es []"
    and unpack: "unpack_call uargv zp uopts" "uo_withoutpath uopts = 0" "\<forall>i. length (m_names M i) = 256"
    and names: "distinct (map (saved_name (po_exclude_path opts)) fs)"
      "\<forall>f \<in> set fs. 0 \<notin> set f \<and> without_path (saved_name (po_exclude_path opts) f) \<noteq> []
         \<and> \<not> w_denied (con_files c) (saved_name (po_exclude_path opts) f)
         \<and> length (file_data d f) \<le> w_limit (con_files c)"
  shows "\<exists>\<sigma>1 d1 \<tau>2 w2 c2. minizip_main Z ci0 junk argv \<sigma> d = Some (0, \<sigma>1, d1)
    \<and> miniunz_main Z console_os chdir M uargv \<tau> (sh_files d1) c = Some (0, \<tau>2, w2, c2)
    \<and> (\<forall>f \<in> set fs. con_view c2 (saved_name (po_exclude_path opts) f) = w_files (sh_files d) f)"
proof -
  have Zc: "po_level opts \<noteq> 0 \<Longrightarrow> deflates Z V" "po_level opts \<noteq> 0 \<Longrightarrow> inflates Z V" using Z(3) by blast+
  have room: "pack_room V opts d fs < 0xffffffff" using pack(4) by (simp add: pack_total_def)
  obtain \<sigma>1 d1 es where 1: "minizip_main Z ci0 junk argv \<sigma> d = Some (0, \<sigma>1, d1)" "list_all2 (packed Z V opts d) fs es"
    "w_files (sh_files d1) = (w_files (sh_files d))(zp \<mapsto> archive_bytes es [])" "w_denied (sh_files d1) = w_denied (sh_files d)"
    using minizip_eq [OF Z(1) Zc(1) mt(1) pack(1) room pack(5)] by blast
  have fits: "job_fits Z V (file_job opts d f)" "length f < 255" "w_files (sh_files d) f = Some (file_data d f)" if "f \<in> set fs" for f
    using pack_call_fits [OF pack(1) Zc(1) room that] by simp_all
  define xs where "xs = zip es (map (file_data d) fs)"
  have all: "\<forall>f \<in> set fs. job_fits Z V (file_job opts d f)" using fits(1) by blast
  note xs = packed_contents [OF 1(2) all, folded xs_def]
  have there: "\<not> w_denied (sh_files d1) zp" "w_files (sh_files d1) zp = Some ([] @ archive_bytes es [])" "es \<noteq> []"
    using 1(2,3,4) pack(1,2) by (auto simp: pack_call_def)
  have ok: "archive_ok [] es []" "unambiguous [] es []"
    using packed_archive_ok [OF 1(2) all pack(3,4)] pack(6) 1(2) by blast+
  have fs: "\<forall>f \<in> set fs. length f < 255 \<and> 0 \<notin> set f \<and> without_path (saved_name (po_exclude_path opts) f) \<noteq> []
      \<and> length (file_data d f) \<le> fst (con_env c) \<and> \<not> snd (con_env c) (saved_name (po_exclude_path opts) f)"
    using names(2) fits(2) by (simp add: con_env_def)
  note ready = packed_ready [OF 1(2) all Z(2) Zc(2) fs, folded xs_def]
  have ex: "\<forall>x \<in> set xs. extractable Z (uo_withoutpath uopts) (con_env c) x" using ready(2) unpack(2) by simp
  obtain \<tau>2 w2 c2 where 2: "miniunz_main Z console_os chdir M uargv \<tau> (sh_files d1) c = Some (0, \<tau>2, w2, c2)"
    "con_view c2 = fold (extracted 0) xs (con_view c)"
    using miniunz_eq [OF Z(1) there(1,2) ok there(3) ready(1) mt(2) unpack(3,1) xs(1) ex, of chdir] unpack(2) by auto
  have dist: "distinct (map (output_name 0 \<circ> fst) xs)" using names(1) unfolding xs(2) .
  have "con_view c2 (saved_name (po_exclude_path opts) f) = w_files (sh_files d) f" if f: "f \<in> set fs" for f
  proof -
    obtain e where e: "(e, file_data d f) \<in> set xs" "output_name 0 e = saved_name (po_exclude_path opts) f" using xs(4) f by blast
    from fold_extracted [OF dist ready(3) e(1), of "con_view c"] show ?thesis unfolding 2(2) e(2) fits(3) [OF f] .
  qed
  with 1(1) 2(1) show ?thesis by blast
qed

theorem pack_unpack_roundtrip_witness:
  "\<exists>\<sigma>1 d1 \<tau>2 w2 c2. minizip_main flip_zlib (blank_entry ([], False)) (\<lambda>i. 0) pack_argv plain_sys demo_shell = Some (0, \<sigma>1, d1)
    \<and> miniunz_main flip_zlib console_os (\<lambda>p d. (False, d)) demo_memory unpack_argv plain_sys (sh_files d1) demo_console
        = Some (0, \<tau>2, w2, c2)
    \<and> con_view c2 [0x78] = Some [1, 2, 3] \<and> con_view c2 [0x64, 0x2f, 0x79] = Some [4]"
proof -
  have s: "saved_name 0 [0x78] = [0x78]" "saved_name 0 [0x64, 0x2f, 0x79] = [0x64, 0x2f, 0x79]"
    "file_data demo_shell [0x78] = [1, 2, 3]" "file_data demo_shell [0x64, 0x2f, 0x79] = [4]"
    by (simp_all add: saved_name_def separator_def demo_shell_def file_data_def)
  have un: "\<forall>es. list_all2 (packed flip_zlib flip_view demo_pack demo_shell) demo_names_packed es \<longrightarrow> unambiguous [] es []"
    using packed_literal literal_unambiguous by metis
  have "w_limit (sh_files demo_shell) = 2 ^ 40" "po_exclude_path demo_pack = 0" "uo_withoutpath demo_unpack = 0"
    "\<forall>i. length (m_names demo_memory i) = 256" "\<not> w_denied (con_files demo_console) p" "w_limit (con_files demo_console) = 2 ^ 40"
    "w_files (sh_files demo_shell) = [[0x78] \<mapsto> [1, 2, 3], [0x64, 0x2f, 0x79] \<mapsto> [4]]" for p
    by (simp_all add: demo_shell_def empty_fs_def demo_pack_def demo_unpack_def unpack_defaults_def demo_memory_def demo_console_def)
  with pack_unpack_roundtrip [OF flip_crc32 _ plain_sys_total plain_sys_total demo_pack_call _ _ demo_pack_rooms(3) _ un demo_unpack_call,
      of demo_memory demo_console "blank_entry ([], False)" "\<lambda>p d. (False, d)"] demo_pack_rooms(2) flip_deflates flip_inflates
  show ?thesis by (simp add: s without_path_def separator_def)
qed

end
